(* ===== verification/EBPF_Prelude.thy ===== *)
theory EBPF_Prelude
  imports Main "HOL-Library.Word"
begin

unbundle bit_operations_syntax

section \<open>Prelude: Python values, byte codecs and insertion-ordered dictionaries\<close>

text \<open>
  What every component of the model shares.  Python integers are \<^typ>\<open>int\<close>; a byte is an
  \<open>8 word\<close> and a bytes object a list of bytes; a Python \<open>str\<close> is the list of its code
  points.  A \<open>dict\<close>, \<open>OrderedDict\<close> or \<open>Counter\<close> is an association list in insertion
  order, with the operations the programs use.  The locales state the interfaces that the
  components rely on: a fixed-width integer codec, an ordered dictionary, and a machine with an
  invariant; each is interpreted on the definitions of the model.
\<close>

named_theorems codec_simps \<open>lengths and round trips of the integer codecs\<close>
named_theorems dict_simps \<open>lookup after update, for the dictionary operations\<close>

type_synonym byte = "8 word"
type_synonym bytes = "byte list"
type_synonym pystr = "int list"

text \<open>The exceptions the modelled code raises or handles, and the result of a call.\<close>

datatype py_error =
    ValueError string
  | UnsupportedEvent string
  | StructError
  | OSErr
  | SystemExit string
  | RuntimeErr string
  | KeyErr string

type_synonym 'a res = "py_error + 'a"

text \<open>Slicing \<open>b[a:e]\<close> with nonnegative bounds: it clips at the end and never raises.\<close>

definition bslice :: "'a list \<Rightarrow> nat \<Rightarrow> nat \<Rightarrow> 'a list" where
  "bslice b a e = take (e - a) (drop a b)"

lemma length_bslice [simp]: "length (bslice b a e) = min (e - a) (length b - a)"
  by (auto simp: bslice_def)

lemma bslice_append_left:
  "e \<le> length xs \<Longrightarrow> bslice (xs @ ys) a e = bslice xs a e"
  by (auto simp: bslice_def)

lemma bslice_append_right:
  "length xs \<le> a \<Longrightarrow> bslice (xs @ ys) a e = bslice ys (a - length xs) (e - length xs)"
  by (auto simp: bslice_def)

lemma bslice_all: "length xs \<le> e \<Longrightarrow> bslice xs 0 e = xs"
  by (auto simp: bslice_def)

subsection \<open>Little-endian integers\<close>

primrec le_int :: "bytes \<Rightarrow> int" where
  "le_int [] = 0"
| "le_int (b # bs) = uint b + 256 * le_int bs"

primrec to_le :: "nat \<Rightarrow> int \<Rightarrow> bytes" where
  "to_le 0 x = []"
| "to_le (Suc n) x = word_of_int x # to_le n (x div 256)"

text \<open>Two's complement reading of an \<open>n\<close>-byte field.\<close>

definition le_sint :: "bytes \<Rightarrow> int" where
  "le_sint bs = (let v = le_int bs in
     if 2 * v < 256 ^ length bs then v else v - 256 ^ length bs)"

lemma length_to_le [simp, codec_simps]: "length (to_le n x) = n"
  by (induction n arbitrary: x) auto

lemma uint_byte_bounds: "0 \<le> uint (b::byte)" "uint (b::byte) < 256"
  using uint_lt2p [of b] by auto

lemma le_int_nonneg [simp]: "0 \<le> le_int bs"
  by (induction bs) (auto simp: uint_byte_bounds)

lemma le_int_bound: "le_int bs < 256 ^ length bs"
proof (induction bs)
  case Nil
  then show ?case by simp
next
  case (Cons b bs)
  have "uint b + 256 * le_int bs < 256 + 256 * le_int bs"
    using uint_byte_bounds(2) [of b] by simp
  also have "\<dots> \<le> 256 * 256 ^ length bs"
    using Cons.IH by linarith
  finally show ?case by simp
qed

lemma uint_word_of_int_byte: "uint (word_of_int x :: byte) = x mod 256"
  by (simp add: uint_word_of_int)

lemma le_int_to_le_mod: "le_int (to_le n x) = x mod 256 ^ n"
proof (induction n arbitrary: x)
  case 0
  then show ?case by simp
next
  case (Suc n)
  have "x mod (256 * 256 ^ n) = 256 * (x div 256 mod 256 ^ n) + x mod 256"
    by (simp add: zmod_zmult2_eq)
  then show ?case
    using Suc by (simp add: uint_word_of_int_byte)
qed

lemma le_int_to_le [codec_simps]:
  "0 \<le> x \<Longrightarrow> x < 256 ^ n \<Longrightarrow> le_int (to_le n x) = x"
  by (simp add: le_int_to_le_mod)

lemma le_sint_to_le [codec_simps]:
  assumes "- (256 ^ n) \<le> 2 * x" and "2 * x < 256 ^ n" and "0 < n"
  shows "le_sint (to_le n x) = x"
proof (cases "0 \<le> x")
  case True
  with assms have "le_int (to_le n x) = x"
    by (simp add: le_int_to_le_mod)
  with assms True show ?thesis by (simp add: le_sint_def)
next
  case False
  let ?N = "256 ^ n :: int"
  have "x mod ?N = (x + ?N) mod ?N" by simp
  also have "\<dots> = x + ?N"
    using assms False by (intro mod_pos_pos_trivial) auto
  finally have "le_int (to_le n x) = x + ?N" by (simp add: le_int_to_le_mod)
  with assms False show ?thesis by (simp add: le_sint_def)
qed

lemma to_le_le_int [codec_simps]: "to_le (length bs) (le_int bs) = bs"
proof (induction bs)
  case Nil
  then show ?case by simp
next
  case (Cons b bs)
  have "(uint b + 256 * le_int bs) div 256 = le_int bs"
    using uint_byte_bounds [of b] by simp
  moreover have "(word_of_int (uint b + 256 * le_int bs) :: byte) = b"
  proof (rule word_uint_eqI)
    show "uint (word_of_int (uint b + 256 * le_int bs) :: byte) = uint b"
      using uint_byte_bounds [of b]
      by (simp only: uint_word_of_int_byte mod_mult_self2 mod_pos_pos_trivial)
  qed
  ultimately show ?case using Cons.IH by simp
qed

text \<open>
  The interface of a fixed-width field: what \<open>struct.pack\<close> writes, \<open>struct.unpack_from\<close>
  reads back at the same offset, whatever surrounds the field.
\<close>

locale field_codec =
  fixes width :: nat
    and enc :: "'v \<Rightarrow> bytes"
    and dec :: "bytes \<Rightarrow> 'v"
    and ok :: "'v \<Rightarrow> bool"
  assumes enc_length: "length (enc v) = width"
    and dec_enc: "ok v \<Longrightarrow> dec (enc v) = v"
begin

lemma read_back:
  assumes "ok v" and "length pre = a"
  shows "dec (bslice (pre @ enc v @ post) a (a + width)) = v"
  using assms by (simp add: bslice_def enc_length dec_enc)

lemma read_back_first: "ok v \<Longrightarrow> dec (bslice (enc v @ post) 0 width) = v"
  by (simp add: bslice_def enc_length dec_enc)

end

definition fits :: "nat \<Rightarrow> int \<Rightarrow> bool" where
  "fits n x \<longleftrightarrow> 0 \<le> x \<and> x < 256 ^ n"

definition sfits :: "nat \<Rightarrow> int \<Rightarrow> bool" where
  "sfits n x \<longleftrightarrow> - (256 ^ n) \<le> 2 * x \<and> 2 * x < 256 ^ n"

interpretation u8: field_codec 1 "to_le 1" le_int "fits 1"
  by unfold_locales (simp_all add: fits_def codec_simps del: to_le.simps)

interpretation u16: field_codec 2 "to_le 2" le_int "fits 2"
  by unfold_locales (simp_all add: fits_def codec_simps)

interpretation u32: field_codec 4 "to_le 4" le_int "fits 4"
  by unfold_locales (simp_all add: fits_def codec_simps)

interpretation u64: field_codec 8 "to_le 8" le_int "fits 8"
  by unfold_locales (simp_all add: fits_def codec_simps)

interpretation s32: field_codec 4 "to_le 4" le_sint "sfits 4"
  by unfold_locales (simp_all add: sfits_def codec_simps)

interpretation s64: field_codec 8 "to_le 8" le_sint "sfits 8"
  by unfold_locales (simp_all add: sfits_def codec_simps)

text \<open>Reading an unsigned field of \<open>n\<close> bytes at offset \<open>a\<close>.\<close>

definition rd :: "nat \<Rightarrow> bytes \<Rightarrow> nat \<Rightarrow> int" where
  "rd n b a = le_int (bslice b a (a + n))"

lemma rd_bounds: "0 \<le> rd n b a" "rd n b a < 256 ^ n"
proof -
  show "0 \<le> rd n b a" by (simp add: rd_def)
  have "rd n b a < 256 ^ length (bslice b a (a + n))"
    by (simp add: rd_def le_int_bound del: length_bslice)
  also have "\<dots> \<le> (256::int) ^ n"
    by (rule power_increasing) auto
  finally show "rd n b a < 256 ^ n" .
qed

lemma rd_append_left: "a + n \<le> length xs \<Longrightarrow> rd n (xs @ ys) a = rd n xs a"
  by (simp add: rd_def bslice_append_left)

subsection \<open>Insertion-ordered dictionaries\<close>

text \<open>
  \<open>d[k]\<close>, \<open>d.get(k)\<close> is \<open>map_of\<close>; \<open>d[k] = v\<close> keeps the position of a key that is
  present and appends a new one; \<open>d.pop(k, None)\<close> deletes; \<open>OrderedDict.move_to_end\<close>
  moves a present key behind all others.
\<close>

type_synonym ('k, 'v) pydict = "('k \<times> 'v) list"

fun dset :: "'k \<Rightarrow> 'v \<Rightarrow> ('k, 'v) pydict \<Rightarrow> ('k, 'v) pydict" where
  "dset k v [] = [(k, v)]"
| "dset k v ((k', v') # d) = (if k' = k then (k, v) # d else (k', v') # dset k v d)"

definition dpop :: "'k \<Rightarrow> ('k, 'v) pydict \<Rightarrow> ('k, 'v) pydict" where
  "dpop k d = filter (\<lambda>e. fst e \<noteq> k) d"

definition move_to_end :: "'k \<Rightarrow> ('k, 'v) pydict \<Rightarrow> ('k, 'v) pydict" where
  "move_to_end k d = (case map_of d k of None \<Rightarrow> d | Some v \<Rightarrow> dpop k d @ [(k, v)])"

abbreviation dkeys :: "('k, 'v) pydict \<Rightarrow> 'k list" where
  "dkeys d \<equiv> map fst d"

definition dict_ok :: "('k, 'v) pydict \<Rightarrow> bool" where
  "dict_ok d \<longleftrightarrow> distinct (dkeys d)"

lemma map_of_dset [dict_simps]: "map_of (dset k v d) k' = (if k' = k then Some v else map_of d k')"
  by (induction k v d rule: dset.induct) auto

lemma map_of_dpop [dict_simps]: "map_of (dpop k d) k' = (if k' = k then None else map_of d k')"
  by (induction d) (auto simp: dpop_def)

lemma map_of_move_to_end [dict_simps]: "map_of (move_to_end k d) k' = map_of d k'"
  by (auto simp: move_to_end_def map_of_dpop map_add_def split: option.splits)

lemma dkeys_dset [dict_simps]:
  "dkeys (dset k v d) = (if k \<in> set (dkeys d) then dkeys d else dkeys d @ [k])"
  by (induction k v d rule: dset.induct) auto

lemma dkeys_dpop [dict_simps]: "dkeys (dpop k d) = filter (\<lambda>k'. k' \<noteq> k) (dkeys d)"
  by (induction d) (auto simp: dpop_def)

lemma dkeys_move_to_end [dict_simps]:
  "dkeys (move_to_end k d) =
     (if k \<in> set (dkeys d) then filter (\<lambda>k'. k' \<noteq> k) (dkeys d) @ [k] else dkeys d)"
proof (cases "map_of d k")
  case None
  then have "k \<notin> set (dkeys d)" by (simp add: map_of_eq_None_iff)
  with None show ?thesis by (simp add: move_to_end_def)
next
  case (Some v)
  then have "k \<in> set (dkeys d)" by (metis map_of_eq_None_iff option.distinct(1) set_map)
  with Some show ?thesis by (simp add: move_to_end_def dkeys_dpop)
qed

lemma length_dset [dict_simps]:
  "length (dset k v d) = (if k \<in> set (dkeys d) then length d else Suc (length d))"
  by (induction k v d rule: dset.induct) auto

lemma length_dpop_le: "length (dpop k d) \<le> length d"
  by (simp add: dpop_def)

lemma length_dpop_less: "k \<in> set (dkeys d) \<Longrightarrow> length (dpop k d) < length d"
  unfolding dpop_def by (auto intro: length_filter_less)

lemma dset_new: "k \<notin> set (dkeys d) \<Longrightarrow> dset k v d = d @ [(k, v)]"
  by (induction k v d rule: dset.induct) auto

lemma dict_ok_Nil [simp]: "dict_ok []"
  by (simp add: dict_ok_def)

lemma dict_ok_dset [simp]: "dict_ok d \<Longrightarrow> dict_ok (dset k v d)"
  by (simp add: dict_ok_def dkeys_dset)

lemma dict_ok_dpop [simp]: "dict_ok d \<Longrightarrow> dict_ok (dpop k d)"
  by (simp add: dict_ok_def dkeys_dpop)

lemma dict_ok_filter: "dict_ok d \<Longrightarrow> dict_ok (filter P d)"
  by (simp add: dict_ok_def distinct_map_filter)

lemma dict_ok_move_to_end [simp]: "dict_ok d \<Longrightarrow> dict_ok (move_to_end k d)"
  by (auto simp: dict_ok_def dkeys_move_to_end)

lemma dict_ok_map_of: "dict_ok d \<Longrightarrow> (k, v) \<in> set d \<longleftrightarrow> map_of d k = Some v"
  by (auto simp: dict_ok_def dest: map_of_SomeD)

text \<open>
  The contract the trackers rely on, over any implementation of an ordered dictionary.  The two
  derived laws are the idioms of the code: re-inserting after a pop makes the key the newest,
  and touching a key keeps its value and makes it the newest.
\<close>

locale ordered_dict =
  fixes get :: "'d \<Rightarrow> 'k \<Rightarrow> 'v option"
    and put :: "'k \<Rightarrow> 'v \<Rightarrow> 'd \<Rightarrow> 'd"
    and del :: "'k \<Rightarrow> 'd \<Rightarrow> 'd"
    and touch :: "'k \<Rightarrow> 'd \<Rightarrow> 'd"
    and order :: "'d \<Rightarrow> 'k list"
    and wf :: "'d \<Rightarrow> bool"
  assumes get_put: "get (put k v d) k' = (if k' = k then Some v else get d k')"
    and get_del: "get (del k d) k' = (if k' = k then None else get d k')"
    and get_touch: "get (touch k d) k' = get d k'"
    and order_put: "k \<notin> set (order d) \<Longrightarrow> order (put k v d) = order d @ [k]"
    and order_del: "order (del k d) = filter (\<lambda>k'. k' \<noteq> k) (order d)"
    and order_touch: "k \<in> set (order d) \<Longrightarrow>
      order (touch k d) = filter (\<lambda>k'. k' \<noteq> k) (order d) @ [k]"
    and wf_put: "wf d \<Longrightarrow> wf (put k v d)"
    and wf_del: "wf d \<Longrightarrow> wf (del k d)"
    and wf_touch: "wf d \<Longrightarrow> wf (touch k d)"
begin

lemma reinsert_order: "order (put k v (del k d)) = filter (\<lambda>k'. k' \<noteq> k) (order d) @ [k]"
  by (simp add: order_put order_del)

lemma reinsert_get: "get (put k v (del k d)) k' = (if k' = k then Some v else get d k')"
  by (simp add: get_put get_del)

lemma reinsert_wf: "wf d \<Longrightarrow> wf (put k v (del k d))"
  by (simp add: wf_put wf_del)

lemma touch_newest: "k \<in> set (order d) \<Longrightarrow> last (order (touch k d)) = k"
  by (simp add: order_touch)

end

interpretation od: ordered_dict map_of dset dpop move_to_end dkeys dict_ok
  by unfold_locales (auto simp: dict_simps)

text \<open>A \<open>Counter\<close>: a missing key counts 0, and \<open>c[k] += n\<close> creates the key even for 0.\<close>

type_synonym 'k counter = "('k, int) pydict"

definition cget :: "'k counter \<Rightarrow> 'k \<Rightarrow> int" where
  "cget c k = (case map_of c k of None \<Rightarrow> 0 | Some n \<Rightarrow> n)"

definition cadd :: "'k \<Rightarrow> int \<Rightarrow> 'k counter \<Rightarrow> 'k counter" where
  "cadd k n c = dset k (cget c k + n) c"

lemma cget_Nil [simp]: "cget [] k = 0"
  by (simp add: cget_def)

lemma cget_cadd [dict_simps]: "cget (cadd k n c) k' = cget c k' + (if k' = k then n else 0)"
  by (simp add: cget_def cadd_def map_of_dset)

lemma cget_dset [dict_simps]: "cget (dset k n c) k' = (if k' = k then n else cget c k')"
  by (simp add: cget_def map_of_dset)

lemma dict_ok_cadd [simp]: "dict_ok c \<Longrightarrow> dict_ok (cadd k n c)"
  by (simp add: cadd_def)

subsection \<open>Machines that consume a sequence and may stop with an error\<close>

text \<open>
  The shape of every reader and tracker of the program: a state, a step per input that returns
  the new state and either an error, which ends the run, or an output.
\<close>

fun run_until :: "('s \<Rightarrow> 'e \<Rightarrow> 's \<times> ('x + 'o)) \<Rightarrow> 's \<Rightarrow> 'e list \<Rightarrow> 's \<times> 'o list \<times> 'x option" where
  "run_until f s [] = (s, [], None)"
| "run_until f s (e # es) =
     (case f s e of
        (s', Inl x) \<Rightarrow> (s', [], Some x)
      | (s', Inr y) \<Rightarrow> (case run_until f s' es of (s'', ys, x) \<Rightarrow> (s'', y # ys, x)))"

locale machine =
  fixes step :: "'s \<Rightarrow> 'e \<Rightarrow> 's \<times> ('x + 'o)"
    and inv :: "'s \<Rightarrow> bool"
  assumes step_inv: "inv s \<Longrightarrow> inv (fst (step s e))"
begin

lemma run_inv: "inv s \<Longrightarrow> inv (fst (run_until step s es))"
proof (induction es arbitrary: s)
  case Nil
  then show ?case by simp
next
  case (Cons e es)
  obtain s' r where st: "step s e = (s', r)" by fastforce
  with Cons.prems step_inv [of s e] have "inv s'" by simp
  with Cons.IH [of s'] st show ?case
    by (auto split: sum.splits prod.splits)
qed

end

text \<open>A machine whose outputs each satisfy a relation to the state and the input they come from.\<close>

locale output_machine = machine step inv
  for step :: "'s \<Rightarrow> 'e \<Rightarrow> 's \<times> ('x + 'o)" and inv :: "'s \<Rightarrow> bool" +
  fixes good :: "'s \<Rightarrow> 'e \<Rightarrow> 'o \<Rightarrow> bool"
  assumes step_good: "inv s \<Longrightarrow> snd (step s e) = Inr y \<Longrightarrow> good s e y"
begin

lemma run_outputs_good:
  "inv s \<Longrightarrow> y \<in> set (fst (snd (run_until step s es))) \<Longrightarrow>
     \<exists>s' e. inv s' \<and> e \<in> set es \<and> good s' e y"
proof (induction es arbitrary: s)
  case Nil
  then show ?case by simp
next
  case (Cons e es)
  obtain s' r where st: "step s e = (s', r)" by fastforce
  with Cons.prems(1) step_inv [of s e] have inv': "inv s'" by simp
  show ?case
  proof (cases r)
    case (Inl x)
    with Cons.prems st show ?thesis by simp
  next
    case (Inr z)
    with st Cons.prems(2) consider "y = z" | "y \<in> set (fst (snd (run_until step s' es)))"
      by (auto split: prod.splits)
    then show ?thesis
    proof cases
      case 1
      with Cons.prems(1) st Inr step_good [of s e z] show ?thesis by auto
    next
      case 2
      with Cons.IH [OF inv'] show ?thesis by auto
    qed
  qed
qed

end

end
