(* ===== verification/Py_Text.thy ===== *)
theory Py_Text
  imports EBPF_Prelude
begin

section \<open>Text and addresses: UTF-8 decoding, C strings, \<open>ipaddress\<close>\<close>

text \<open>
  The parts of the Python standard library that turn captured bytes into text: \<open>bytes.decode\<close>
  with an error handler (CPython replaces each maximal ill-formed subsequence), \<open>str.encode\<close>,
  the \<open>split(b"\0", 1)[0]\<close> idiom of the C-string readers, and the \<open>ipaddress\<close> predicates and
  text forms.  Readers of several programs share these definitions.
\<close>

subsection \<open>Strings as code points\<close>

definition ucode :: "string \<Rightarrow> pystr" where
  "ucode s = map (\<lambda>c. int (of_char c :: nat)) s"

definition is_scalar :: "int \<Rightarrow> bool" where
  "is_scalar c \<longleftrightarrow> 0 \<le> c \<and> c \<le> 1114111 \<and> \<not> (55296 \<le> c \<and> c \<le> 57343)"

subsection \<open>UTF-8\<close>

definition cont :: "int \<Rightarrow> bool" where
  "cont c \<longleftrightarrow> 128 \<le> c \<and> c \<le> 191"

text \<open>The allowed second byte after a three-byte and a four-byte lead.\<close>

definition second3 :: "int \<Rightarrow> int \<Rightarrow> bool" where
  "second3 b c \<longleftrightarrow> cont c \<and> (b = 224 \<longrightarrow> 160 \<le> c) \<and> (b = 237 \<longrightarrow> c \<le> 159)"

definition second4 :: "int \<Rightarrow> int \<Rightarrow> bool" where
  "second4 b c \<longleftrightarrow> cont c \<and> (b = 240 \<longrightarrow> 144 \<le> c) \<and> (b = 244 \<longrightarrow> c \<le> 143)"

text \<open>
  One step of the decoder: the code point, or \<open>None\<close> for an ill-formed sequence, and how many
  bytes it takes.
\<close>

fun utf8_step :: "int list \<Rightarrow> int option \<times> nat" where
  "utf8_step [] = (None, 0)"
| "utf8_step (b # bs) =
    (if b < 128 then (Some b, 1)
     else if 194 \<le> b \<and> b \<le> 223 then
       (case bs of
          c # _ \<Rightarrow> if cont c then (Some ((b - 192) * 64 + (c - 128)), 2) else (None, 1)
        | [] \<Rightarrow> (None, 1))
     else if 224 \<le> b \<and> b \<le> 239 then
       (case bs of
          c # cs \<Rightarrow> if second3 b c then
              (case cs of
                 d # _ \<Rightarrow> if cont d
                   then (Some ((b - 224) * 4096 + (c - 128) * 64 + (d - 128)), 3) else (None, 2)
               | [] \<Rightarrow> (None, 2))
            else (None, 1)
        | [] \<Rightarrow> (None, 1))
     else if 240 \<le> b \<and> b \<le> 244 then
       (case bs of
          c # cs \<Rightarrow> if second4 b c then
              (case cs of
                 d # ds \<Rightarrow> if cont d then
                     (case ds of
                        e # _ \<Rightarrow> if cont e
                          then (Some ((b - 240) * 262144 + (c - 128) * 4096
                                      + (d - 128) * 64 + (e - 128)), 4) else (None, 3)
                      | [] \<Rightarrow> (None, 3))
                   else (None, 2)
               | [] \<Rightarrow> (None, 2))
            else (None, 1)
        | [] \<Rightarrow> (None, 1))
     else (None, 1))"

lemma utf8_step_progress: "1 \<le> snd (utf8_step (b # bs))"
  by (simp split: list.split)

declare utf8_step.simps [simp del]

lemma utf8_step_pos: "utf8_step (b # bs) = (r, n) \<Longrightarrow> 0 < n"
  using utf8_step_progress [of b bs] by simp

function utf8_decode :: "(int list \<Rightarrow> pystr) \<Rightarrow> int list \<Rightarrow> pystr" where
  "utf8_decode h [] = []"
| "utf8_decode h (b # bs) =
     (case utf8_step (b # bs) of
        (Some cp, n) \<Rightarrow> cp # utf8_decode h (drop n (b # bs))
      | (None, n) \<Rightarrow> h (take n (b # bs)) @ utf8_decode h (drop n (b # bs)))"
  by pat_completeness auto
termination
  by (relation "measure (\<lambda>(h, bs). length bs)") (auto dest!: utf8_step_pos [OF sym])

definition on_replace :: "int list \<Rightarrow> pystr" where
  "on_replace _ = [65533]"

definition hex_digit :: "int \<Rightarrow> int" where
  "hex_digit d = (if d < 10 then 48 + d else 87 + d)"

definition on_backslash :: "int list \<Rightarrow> pystr" where
  "on_backslash bs = concat (map (\<lambda>b. [92, 120, hex_digit (b div 16), hex_digit (b mod 16)]) bs)"

definition utf8_encode1 :: "int \<Rightarrow> int list" where
  "utf8_encode1 c =
    (if c < 128 then [c]
     else if c < 2048 then [192 + c div 64, 128 + c mod 64]
     else if c < 65536 then [224 + c div 4096, 128 + c div 64 mod 64, 128 + c mod 64]
     else [240 + c div 262144, 128 + c div 4096 mod 64, 128 + c div 64 mod 64, 128 + c mod 64])"

definition utf8_encode :: "pystr \<Rightarrow> bytes" where
  "utf8_encode s = map word_of_int (concat (map utf8_encode1 s))"

text \<open>The decoder on a well-formed sequence, by the digits of the code point in base 64.\<close>

lemma utf8_step2:
  assumes "c = q * 64 + l" "0 \<le> l" "l < 64" "128 \<le> c" "c < 2048"
  shows "utf8_step ((192 + q) # (128 + l) # bs) = (Some c, 2)"
  using assms by (simp add: utf8_step.simps cont_def)

lemma utf8_step3:
  assumes "c = q * 4096 + m * 64 + l" "0 \<le> m" "m < 64" "0 \<le> l" "l < 64"
    and "2048 \<le> c" "c < 65536" "is_scalar c"
  shows "utf8_step ((224 + q) # (128 + m) # (128 + l) # bs) = (Some c, 3)"
proof -
  have "0 \<le> q \<and> q \<le> 15 \<and> (q = 0 \<longrightarrow> 32 \<le> m) \<and> (q = 13 \<longrightarrow> m \<le> 31)"
    using assms unfolding is_scalar_def by auto
  with assms show ?thesis by (simp add: utf8_step.simps cont_def second3_def)
qed

lemma utf8_step4:
  assumes "c = q * 262144 + m * 4096 + l * 64 + k"
    and "0 \<le> m" "m < 64" "0 \<le> l" "l < 64" "0 \<le> k" "k < 64" "65536 \<le> c" "c \<le> 1114111"
  shows "utf8_step ((240 + q) # (128 + m) # (128 + l) # (128 + k) # bs) = (Some c, 4)"
proof -
  have "0 \<le> q \<and> q \<le> 4 \<and> (q = 0 \<longrightarrow> 16 \<le> m) \<and> (q = 4 \<longrightarrow> m \<le> 15)"
    using assms by auto
  with assms show ?thesis by (simp add: utf8_step.simps cont_def second4_def)
qed

lemma base64_digits:
  fixes c :: int
  shows "c = c div 64 * 64 + c mod 64"
    and "c = c div 4096 * 4096 + c div 64 mod 64 * 64 + c mod 64"
    and "c = c div 262144 * 262144 + c div 4096 mod 64 * 4096 + c div 64 mod 64 * 64 + c mod 64"
proof -
  have d1: "c div 4096 = c div 64 div 64" and d2: "c div 262144 = c div 4096 div 64"
    by (simp_all flip: zdiv_zmult2_eq)
  have m1: "x = x div 64 * 64 + x mod 64" for x :: int
    by simp
  show "c = c div 64 * 64 + c mod 64" by (rule m1)
  show two: "c = c div 4096 * 4096 + c div 64 mod 64 * 64 + c mod 64"
    using m1 [of c] m1 [of "c div 64"] unfolding d1 by linarith
  show "c = c div 262144 * 262144 + c div 4096 mod 64 * 4096 + c div 64 mod 64 * 64 + c mod 64"
    using two m1 [of "c div 4096"] unfolding d2 by linarith
qed

lemma digit64: "0 \<le> (x::int) mod 64" "(x::int) mod 64 < 64"
  by simp_all

lemma utf8_step_encode1:
  assumes "is_scalar c"
  shows "utf8_step (utf8_encode1 c @ bs) = (Some c, length (utf8_encode1 c))"
proof -
  consider "c < 128" | "128 \<le> c" "c < 2048" | "2048 \<le> c" "c < 65536" | "65536 \<le> c"
    by linarith
  then show ?thesis
  proof cases
    case 1
    then show ?thesis by (simp add: utf8_encode1_def utf8_step.simps)
  next
    case 2
    note utf8_step2 [OF base64_digits(1) digit64 2, of bs]
    with 2 show ?thesis by (simp add: utf8_encode1_def)
  next
    case 3
    note utf8_step3 [OF base64_digits(2) digit64 digit64 3 assms, of bs]
    with 3 show ?thesis by (simp add: utf8_encode1_def)
  next
    case 4
    have "c \<le> 1114111" using assms by (simp add: is_scalar_def)
    note utf8_step4 [OF base64_digits(3) digit64 digit64 digit64 4 this, of bs]
    with 4 show ?thesis by (simp add: utf8_encode1_def)
  qed
qed

lemma utf8_encode1_nonempty: "utf8_encode1 c \<noteq> []"
  by (simp add: utf8_encode1_def)

lemma utf8_encode1_range:
  assumes "is_scalar c" and "b \<in> set (utf8_encode1 c)"
  shows "0 \<le> b \<and> b < 256"
proof -
  have c: "0 \<le> c" "c \<le> 1114111" using assms(1) by (auto simp: is_scalar_def)
  show ?thesis
    using assms(2) c unfolding utf8_encode1_def by (auto split: if_splits)
qed

lemma utf8_decode_step:
  assumes "bs \<noteq> []" and "utf8_step bs = (Some cp, n)"
  shows "utf8_decode h bs = cp # utf8_decode h (drop n bs)"
  using assms by (cases bs) auto

theorem utf8_decode_encode:
  "(\<forall>c \<in> set s. is_scalar c) \<Longrightarrow> utf8_decode h (concat (map utf8_encode1 s)) = s"
proof (induction s)
  case Nil
  then show ?case by simp
next
  case (Cons c s)
  let ?rest = "concat (map utf8_encode1 s)"
  have "utf8_step (utf8_encode1 c @ ?rest) = (Some c, length (utf8_encode1 c))"
    using Cons.prems by (intro utf8_step_encode1) simp
  from utf8_decode_step [OF _ this] have
    "utf8_decode h (utf8_encode1 c @ ?rest) = c # utf8_decode h ?rest"
    by (simp add: utf8_encode1_nonempty)
  with Cons show ?case by simp
qed

lemma utf8_decode_ascii:
  "(\<forall>b \<in> set bs. b < 128) \<Longrightarrow> utf8_decode h bs = bs"
  by (induction bs) (auto simp: utf8_step.simps)

subsection \<open>C strings\<close>

text \<open>\<open>value.split(b"\0", 1)[0]\<close>: the bytes before the first NUL.\<close>

definition until_nul :: "bytes \<Rightarrow> int list" where
  "until_nul v = map uint (takeWhile (\<lambda>b. b \<noteq> 0) v)"

lemma until_nul_append_nul: "0 \<notin> set v \<Longrightarrow> until_nul (v @ 0 # w) = map uint v"
  by (auto simp: until_nul_def takeWhile_append)

lemma until_nul_padded: "0 \<notin> set v \<Longrightarrow> until_nul (v @ replicate n 0) = map uint v"
proof (cases n)
  case 0
  then show "0 \<notin> set v \<Longrightarrow> ?thesis"
    by (auto simp: until_nul_def takeWhile_eq_all_conv [THEN iffD2])
next
  case (Suc m)
  then show "0 \<notin> set v \<Longrightarrow> ?thesis"
    using until_nul_append_nul [of v "replicate m 0"] by simp
qed

lemma map_uint_utf8_encode:
  assumes "\<forall>c \<in> set s. is_scalar c"
  shows "map uint (utf8_encode s) = concat (map utf8_encode1 s)"
proof -
  have "uint (word_of_int b :: byte) = b" if "b \<in> set (concat (map utf8_encode1 s))" for b
    using that assms by (auto simp: uint_word_of_int_byte dest!: utf8_encode1_range)
  then have "map (\<lambda>b. uint (word_of_int b :: byte)) (concat (map utf8_encode1 s))
      = concat (map utf8_encode1 s)"
    by (rule map_idI)
  then show ?thesis by (simp add: utf8_encode_def o_def del: map_concat)
qed

lemma utf8_encode_no_nul:
  assumes "\<forall>c \<in> set s. is_scalar c \<and> c \<noteq> 0"
  shows "0 \<notin> set (utf8_encode s)"
proof
  assume "0 \<in> set (utf8_encode s)"
  then have "uint (0 :: byte) \<in> set (map uint (utf8_encode s))" by (metis image_eqI set_map)
  then obtain c where c: "c \<in> set s" "(0::int) \<in> set (utf8_encode1 c)"
    using assms map_uint_utf8_encode [of s] by auto
  then have "0 \<le> c" "c \<noteq> 0" using assms by (auto simp: is_scalar_def)
  with c(2) show False
    unfolding utf8_encode1_def by (auto split: if_splits)
qed

subsection \<open>Addresses\<close>

text \<open>
  \<open>ipaddress.ip_address\<close> on packed bytes: four bytes are an IPv4 address, sixteen an IPv6
  address, and any other length raises \<open>ValueError\<close>.
\<close>

datatype ip = V4 bytes | V6 bytes

definition ip_address :: "bytes \<Rightarrow> ip res" where
  "ip_address b = (if length b = 4 then Inr (V4 b) else if length b = 16 then Inr (V6 b)
     else Inl (ValueError ''does not appear to be an IPv4 or IPv6 address''))"

definition be_int :: "bytes \<Rightarrow> int" where
  "be_int b = le_int (rev b)"

fun is_loopback :: "ip \<Rightarrow> bool" where
  "is_loopback (V4 b) = (be_int b div 2 ^ 24 = 127)"
| "is_loopback (V6 b) = (be_int b = 1)"

fun is_unspecified :: "ip \<Rightarrow> bool" where
  "is_unspecified (V4 b) = (be_int b = 0)"
| "is_unspecified (V6 b) = (be_int b = 0)"

fun is_multicast :: "ip \<Rightarrow> bool" where
  "is_multicast (V4 b) = (be_int b div 2 ^ 28 = 14)"
| "is_multicast (V6 b) = (be_int b div 2 ^ 120 = 255)"

fun ipv4_mapped :: "ip \<Rightarrow> ip option" where
  "ipv4_mapped (V4 b) = None"
| "ipv4_mapped (V6 b) = (if be_int b div 2 ^ 32 = 65535 then Some (V4 (drop 12 b)) else None)"

text \<open>
  \<open>str\<close> of an address: dotted decimal for IPv4; for IPv6 the hexadecimal groups with the first
  longest run of at least two zero groups written \<open>::\<close>.
\<close>

text \<open>\<open>str\<close> of an octet and \<open>'%x'\<close> of a 16-bit group: at most three and four digits.\<close>

definition octet_text :: "byte \<Rightarrow> pystr" where
  "octet_text b = (let n = uint b in
     (if n < 100 then [] else [48 + n div 100])
     @ (if n < 10 then [] else [48 + n div 10 mod 10]) @ [48 + n mod 10])"

definition group_text :: "int \<Rightarrow> pystr" where
  "group_text n =
     (if n < 4096 then [] else [hex_digit (n div 4096)])
     @ (if n < 256 then [] else [hex_digit (n div 256 mod 16)])
     @ (if n < 16 then [] else [hex_digit (n div 16 mod 16)]) @ [hex_digit (n mod 16)]"

fun join_with :: "int \<Rightarrow> pystr list \<Rightarrow> pystr" where
  "join_with c [] = []"
| "join_with c [x] = x"
| "join_with c (x # y # xs) = x @ c # join_with c (y # xs)"

fun hextets :: "bytes \<Rightarrow> pystr list" where
  "hextets (a # b # bs) = group_text (uint a * 256 + uint b) # hextets bs"
| "hextets _ = []"

text \<open>The scan of \<open>_compress_hextets\<close>: \<open>(best_start, best_len, start, len)\<close>, no run being \<open>None\<close>.\<close>

fun zero_runs :: "nat \<Rightarrow> pystr list \<Rightarrow> nat \<times> nat \<Rightarrow> nat option \<times> nat \<Rightarrow> nat \<times> nat" where
  "zero_runs i [] best cur = best"
| "zero_runs i (h # hs) (bs, bl) (st, n) =
     (if h = [48] then
        let n' = Suc n; st' = (case st of None \<Rightarrow> i | Some x \<Rightarrow> x)
        in zero_runs (Suc i) hs (if bl < n' then (st', n') else (bs, bl)) (Some st', n')
      else zero_runs (Suc i) hs (bs, bl) (None, 0))"

definition compress_hextets :: "pystr list \<Rightarrow> pystr list" where
  "compress_hextets hs = (case zero_runs 0 hs (0, 0) (None, 0) of (start, n) \<Rightarrow>
     if 1 < n then
       (if start = 0 then [[]] else []) @ take start hs @ [[]]
         @ drop (start + n) hs @ (if start + n = length hs then [[]] else [])
     else hs)"

fun ip_text :: "ip \<Rightarrow> pystr" where
  "ip_text (V4 b) = join_with 46 (map octet_text b)"
| "ip_text (V6 b) = join_with 58 (compress_hextets (hextets b))"

lemma ip_text_samples:
  "ip_text (V4 [203, 0, 113, 10]) = ucode ''203.0.113.10''"
  "ip_text (V6 (replicate 15 0 @ [1])) = ucode ''::1''"
  "ip_text (V6 ([32, 1, 13, 184] @ replicate 11 0 @ [1])) = ucode ''2001:db8::1''"
  by code_simp+

end
