(* ===== verification/Wire.thy ===== *)
theory Wire
  imports Py_Text
begin

section \<open>The wire format: frame headers and event headers\<close>

text \<open>
  The collector writes length-prefixed frames: \<open>FRAME = struct.Struct("<4sBBHI")\<close> (magic, wire
  version, little-endian flag, reserved, payload size) before each payload, and a payload starts
  with the 88-byte event header (\<open>COMMON\<close>, \<open>HEADER\<close>: \<open>"<QQQ8IiIIHH16s"\<close>).  Every reader of
  the program unpacks the same two structures.
\<close>

subsection \<open>Frame header\<close>

record frame_hdr =
  fh_magic :: bytes
  fh_version :: int
  fh_little :: int
  fh_reserved :: int
  fh_size :: int

definition ebpf_magic :: bytes where
  "ebpf_magic = [69, 66, 80, 70]"

definition unpack_frame :: "bytes \<Rightarrow> frame_hdr" where
  "unpack_frame b = \<lparr>fh_magic = bslice b 0 4, fh_version = rd 1 b 4, fh_little = rd 1 b 5,
     fh_reserved = rd 2 b 6, fh_size = rd 4 b 8\<rparr>"

definition pack_frame :: "int \<Rightarrow> bytes" where
  "pack_frame n = ebpf_magic @ to_le 1 1 @ to_le 1 1 @ to_le 2 0 @ to_le 4 n"

definition frame_bytes :: "bytes \<Rightarrow> bytes" where
  "frame_bytes p = pack_frame (int (length p)) @ p"

lemma length_pack_frame [simp]: "length (pack_frame n) = 12"
  by (simp add: pack_frame_def ebpf_magic_def del: to_le.simps)

lemma length_frame_bytes [simp]: "length (frame_bytes p) = 12 + length p"
  by (simp add: frame_bytes_def)

lemma unpack_pack_frame:
  assumes "fits 4 n"
  shows "unpack_frame (pack_frame n @ x) = \<lparr>fh_magic = ebpf_magic, fh_version = 1,
    fh_little = 1, fh_reserved = 0, fh_size = n\<rparr>"
proof -
  have "rd 4 (pack_frame n @ x) 8 = n"
    using u32.read_back [OF assms, of "ebpf_magic @ to_le 1 1 @ to_le 1 1 @ to_le 2 0" 8 x]
    by (simp add: rd_def pack_frame_def ebpf_magic_def)
  moreover have "rd 2 (pack_frame n @ x) 6 = 0"
    using u16.read_back [of 0 "ebpf_magic @ to_le 1 1 @ to_le 1 1" 6 "to_le 4 n @ x"]
    by (simp add: rd_def pack_frame_def ebpf_magic_def fits_def)
  moreover have "rd 1 (pack_frame n @ x) 5 = 1"
    using u8.read_back [of 1 "ebpf_magic @ to_le 1 1" 5 "to_le 2 0 @ to_le 4 n @ x"]
    by (simp add: rd_def pack_frame_def ebpf_magic_def fits_def)
  moreover have "rd 1 (pack_frame n @ x) 4 = 1"
    using u8.read_back [of 1 "ebpf_magic" 4 "to_le 1 1 @ to_le 2 0 @ to_le 4 n @ x"]
    by (simp add: rd_def pack_frame_def ebpf_magic_def fits_def)
  ultimately show ?thesis
    by (simp add: unpack_frame_def pack_frame_def ebpf_magic_def bslice_def)
qed

subsection \<open>Event header\<close>

record header =
  h_ts :: int
  h_cgroup :: int
  h_start :: int
  h_pid :: int
  h_tgid :: int
  h_npid :: int
  h_ntgid :: int
  h_ppid :: int
  h_uid :: int
  h_gid :: int
  h_cpu :: int
  h_result :: int
  h_size :: int
  h_flags :: int
  h_schema :: int
  h_kind :: int
  h_comm :: bytes

definition unpack_header :: "bytes \<Rightarrow> header" where
  "unpack_header b = \<lparr>h_ts = rd 8 b 0, h_cgroup = rd 8 b 8, h_start = rd 8 b 16,
     h_pid = rd 4 b 24, h_tgid = rd 4 b 28, h_npid = rd 4 b 32, h_ntgid = rd 4 b 36,
     h_ppid = rd 4 b 40, h_uid = rd 4 b 44, h_gid = rd 4 b 48, h_cpu = rd 4 b 52,
     h_result = le_sint (bslice b 56 60), h_size = rd 4 b 60, h_flags = rd 4 b 64,
     h_schema = rd 2 b 68, h_kind = rd 2 b 70, h_comm = bslice b 72 88\<rparr>"

lemma unpack_header_prefix: "88 \<le> length p \<Longrightarrow> unpack_header (p @ x) = unpack_header p"
  by (simp add: unpack_header_def rd_append_left bslice_append_left)

lemma unpack_header_take: "88 \<le> n \<Longrightarrow> n \<le> length b \<Longrightarrow> unpack_header (take n b) = unpack_header b"
  by (metis append_take_drop_id length_take min.absorb2 unpack_header_prefix)

definition wf_header :: "header \<Rightarrow> bool" where
  "wf_header h \<longleftrightarrow> fits 8 (h_ts h) \<and> fits 8 (h_cgroup h) \<and> fits 8 (h_start h)
     \<and> fits 4 (h_pid h) \<and> fits 4 (h_tgid h) \<and> fits 4 (h_npid h) \<and> fits 4 (h_ntgid h)
     \<and> fits 4 (h_ppid h) \<and> fits 4 (h_uid h) \<and> fits 4 (h_gid h) \<and> fits 4 (h_cpu h)
     \<and> sfits 4 (h_result h) \<and> fits 4 (h_size h) \<and> fits 4 (h_flags h)
     \<and> fits 2 (h_schema h) \<and> fits 2 (h_kind h) \<and> length (h_comm h) = 16"

definition header_bytes :: "header \<Rightarrow> bytes" where
  "header_bytes h = to_le 8 (h_ts h) @ to_le 8 (h_cgroup h) @ to_le 8 (h_start h)
     @ to_le 4 (h_pid h) @ to_le 4 (h_tgid h) @ to_le 4 (h_npid h) @ to_le 4 (h_ntgid h)
     @ to_le 4 (h_ppid h) @ to_le 4 (h_uid h) @ to_le 4 (h_gid h) @ to_le 4 (h_cpu h)
     @ to_le 4 (h_result h) @ to_le 4 (h_size h) @ to_le 4 (h_flags h)
     @ to_le 2 (h_schema h) @ to_le 2 (h_kind h) @ h_comm h"

text \<open>Reading one field of a concatenation of fields.\<close>

lemma rd_here: "fits n v \<Longrightarrow> rd n (to_le n v @ x) 0 = v"
  by (simp add: rd_def bslice_def fits_def le_int_to_le)

lemma rd_skip: "length p \<le> a \<Longrightarrow> rd n (p @ x) a = rd n x (a - length p)"
  by (simp add: rd_def bslice_def)

lemma rds_here: "sfits n v \<Longrightarrow> 0 < n \<Longrightarrow> le_sint (bslice (to_le n v @ x) 0 n) = v"
  by (simp add: bslice_def sfits_def le_sint_to_le)

lemma bslice_skip: "length p \<le> a \<Longrightarrow> bslice (p @ x) a e = bslice x (a - length p) (e - length p)"
  by (rule bslice_append_right)

lemmas field_reads = rd_skip rd_here bslice_skip rds_here

lemma length_header_bytes [simp]: "length (h_comm h) = 16 \<Longrightarrow> length (header_bytes h) = 88"
  by (simp add: header_bytes_def)

lemma unpack_header_bytes:
  assumes "wf_header h"
  shows "unpack_header (header_bytes h @ x) = h"
  using assms
  by (simp add: wf_header_def unpack_header_def header_bytes_def field_reads)
    (simp add: bslice_def)

end
