(* ===== verification/Behavior_Memory.thy ===== *)
theory Behavior_Memory
  imports Wire Complex_Main "HOL-Library.List_Lexorder"
begin

section \<open>The advisory replay: \<open>behavior_memory.py\<close>\<close>

text \<open>
  \<open>BehaviorMemory\<close> is a bounded tracker: tasks keyed by (cgroup, pid), families of tasks linked by
  verified fork edges to a root, and at most one pending credential-open precursor per root.  A
  connect attempt of a family with a pending precursor yields one advisory.  The model has the
  class's state as a record, one definition per method and the blocks of \<open>observe\<close> as definitions
  of their own.  The mutable lists \<open>[start, blocked, root, has_children]\<close> are records with an
  object identity: assignment through a reference (\<open>mutate\<close>) changes the dictionary entry that
  still holds the object, and \<open>is\<close> compares identities.
\<close>

subsection \<open>State\<close>

type_synonym slot = "int \<times> int"
type_synonym ident = "string \<times> int \<times> int \<times> int"

record tstate =
  t_oid :: nat
  t_start :: int
  t_blocked :: bool
  t_root :: "ident option"
  t_kids :: bool

record memory =
  bm_ttl :: int
  bm_max :: int
  bm_epoch :: string
  bm_tasks :: "(slot, tstate) pydict"
  bm_evidence :: "(ident, int \<times> ident) pydict"
  bm_counts :: "string counter"
  bm_last :: "int option"
  bm_health :: "int list option"
  bm_next :: nat

record advisory =
  a_scope :: string
  a_identity :: ident
  a_precursor :: ident
  a_root :: ident
  a_precursor_ns :: int
  a_attempt_ns :: int
  a_episode :: int

text \<open>Arguments of the constructor, by their dynamic type.\<close>

datatype limit_arg = PyInt int | PyBool bool | PyOther

definition min_size :: "int \<Rightarrow> int" where
  "min_size k =
     (if 1 \<le> k \<and> k \<le> 3 then 360 else if k = 4 \<or> k = 5 then 104
      else if k = 6 \<or> k = 7 then 376 else if 8 \<le> k \<and> k \<le> 13 then 200
      else if k = 14 then 128 else 377)"

subsection \<open>The credential pattern\<close>

text \<open>\<open>[^/]+\<close> between a fixed prefix and a fixed suffix, over the whole string.\<close>

definition segment_between :: "pystr \<Rightarrow> pystr \<Rightarrow> pystr \<Rightarrow> bool" where
  "segment_between pre suf p \<longleftrightarrow>
     length pre + length suf < length p \<and> take (length pre) p = pre
     \<and> drop (length p - length suf) p = suf
     \<and> 47 \<notin> set (take (length p - length pre - length suf) (drop (length pre) p))"

definition key_kinds :: "pystr list" where
  "key_kinds = map ucode [''rsa'', ''dsa'', ''ecdsa'', ''ed25519'']"

definition credential :: "pystr \<Rightarrow> bool" where
  "credential p \<longleftrightarrow>
     p \<in> set [ucode ''/etc/shadow'', ucode ''/etc/gshadow'']
     \<or> segment_between (ucode ''/etc/ssh/ssh_host_'') (ucode ''_key'') p
     \<or> list_ex (\<lambda>k. p = ucode ''/root/.ssh/id_'' @ k) key_kinds
     \<or> list_ex (\<lambda>k. segment_between (ucode ''/home/'') (ucode ''/.ssh/id_'' @ k) p) key_kinds"

subsection \<open>Construction\<close>

text \<open>
  \<open>scaled\<close> is the float \<open>retention_sec * 1e9\<close>, \<open>None\<close> when it is not finite; its sign is that of
  \<open>retention_sec\<close> and \<open>int\<close> truncates it, which for a positive value is the floor.  \<open>uuid\<close> is
  the text of the fresh \<open>uuid4()\<close> that is used when no (or an empty) epoch is given.
\<close>

definition init :: "rat option \<Rightarrow> limit_arg \<Rightarrow> string option \<Rightarrow> string \<Rightarrow> memory res" where
  "init scaled max_tasks stream_epoch uuid =
    (case scaled of
       None \<Rightarrow> Inl (ValueError ''INVALID_RETENTION'')
     | Some x \<Rightarrow>
       if x \<le> 0 then Inl (ValueError ''INVALID_RETENTION'')
       else (case max_tasks of
           PyInt n \<Rightarrow>
             if n < 1 then Inl (ValueError ''INVALID_TASK_LIMIT'')
             else if \<lfloor>x\<rfloor> < 1 then Inl (ValueError ''INVALID_RETENTION'')
             else Inr \<lparr>bm_ttl = \<lfloor>x\<rfloor>, bm_max = n,
               bm_epoch = (case stream_epoch of None \<Rightarrow> uuid | Some e \<Rightarrow> if e = [] then uuid else e),
               bm_tasks = [], bm_evidence = [], bm_counts = [], bm_last = None,
               bm_health = None, bm_next = 0\<rparr>
         | _ \<Rightarrow> Inl (ValueError ''INVALID_TASK_LIMIT'')))"

subsection \<open>Small operations\<close>

definition count :: "string \<Rightarrow> memory \<Rightarrow> memory" where
  "count k m = m\<lparr>bm_counts := cadd k 1 (bm_counts m)\<rparr>"

definition mutate :: "tstate \<Rightarrow> memory \<Rightarrow> memory" where
  "mutate st m = m\<lparr>bm_tasks :=
     map (\<lambda>e. if t_oid (snd e) = t_oid st then (fst e, st) else e) (bm_tasks m)\<rparr>"

text \<open>\<open>clear\<close> rebuilds the task table: every kept entry is a new list object.\<close>

primrec renew :: "nat \<Rightarrow> (slot, tstate) pydict \<Rightarrow> (slot, tstate) pydict" where
  "renew n [] = []"
| "renew n (e # es) =
     (fst e, \<lparr>t_oid = n, t_start = t_start (snd e), t_blocked = True, t_root = None,
              t_kids = False\<rparr>) # renew (Suc n) es"

definition clear :: "string \<Rightarrow> bool \<Rightarrow> memory \<Rightarrow> memory" where
  "clear reason keep_blocks m =
    (let kept = filter (\<lambda>e. keep_blocks \<and> t_blocked (snd e)) (bm_tasks m) in
     m\<lparr>bm_counts := cadd ''reset_precursors_dropped'' (int (length (bm_evidence m)))
                      (cadd reason 1 (bm_counts m)),
       bm_evidence := [],
       bm_tasks := renew (bm_next m) kept,
       bm_next := bm_next m + length kept\<rparr>)"

fun expire_loop :: "int \<Rightarrow> int \<Rightarrow> (ident, int \<times> ident) pydict \<Rightarrow> string counter
    \<Rightarrow> (ident, int \<times> ident) pydict \<times> string counter" where
  "expire_loop ttl ts [] c = ([], c)"
| "expire_loop ttl ts ((r, t, src) # ev) c =
     (if ttl \<le> ts - t then expire_loop ttl ts ev (cadd ''retention_precursors_dropped'' 1 c)
      else ((r, t, src) # ev, c))"

definition expire :: "int \<Rightarrow> memory \<Rightarrow> memory" where
  "expire ts m = (case expire_loop (bm_ttl m) ts (bm_evidence m) (bm_counts m) of
     (ev, c) \<Rightarrow> m\<lparr>bm_evidence := ev, bm_counts := c\<rparr>)"

definition drop_family :: "ident \<Rightarrow> string \<Rightarrow> memory \<Rightarrow> memory" where
  "drop_family rid reason m =
     m\<lparr>bm_counts := cadd (reason @ ''_precursors_dropped'')
                      (if map_of (bm_evidence m) rid = None then 0 else 1) (bm_counts m),
       bm_evidence := dpop rid (bm_evidence m),
       bm_tasks := filter (\<lambda>e. \<not> (t_root (snd e) = Some rid
           \<or> (bm_epoch m, fst (fst e), snd (fst e), t_start (snd e)) = rid)) (bm_tasks m)\<rparr>"

definition root_or :: "tstate \<Rightarrow> ident \<Rightarrow> ident" where
  "root_or st key = (case t_root st of None \<Rightarrow> key | Some r \<Rightarrow> r)"

subsection \<open>Admission of a task\<close>

text \<open>
  The first half of \<open>task\<close>: a pid seen in another cgroup resets the memory, a slot whose start
  token differs is a reused pid whose family is dropped.
\<close>

definition task_resolve :: "int \<Rightarrow> int \<Rightarrow> int \<Rightarrow> memory \<Rightarrow> memory \<times> tstate option" where
  "task_resolve cgroup pid start m =
    (case map_of (bm_tasks m) (cgroup, pid) of
       None \<Rightarrow>
         (if list_ex (\<lambda>e. snd (fst e) = pid \<and> fst (fst e) \<noteq> cgroup) (bm_tasks m)
          then (clear ''cgroup_identity_changed'' True m, None) else (m, None))
     | Some st \<Rightarrow>
         (if t_start st \<noteq> 0 \<and> t_start st \<noteq> start
          then (drop_family (root_or st (bm_epoch m, cgroup, pid, t_start st)) ''reuse''
                  (count ''pid_reuse'' m), None)
          else (m, Some st)))"

text \<open>The least recently used task without a thread exclusion makes room, with its family.\<close>

definition task_evict :: "memory \<Rightarrow> memory res" where
  "task_evict m =
    (case find (\<lambda>e. \<not> t_blocked (snd e)) (bm_tasks m) of
       None \<Rightarrow> Inl (ValueError ''TASK_CAPACITY_EXHAUSTED'')
     | Some (victim, old) \<Rightarrow>
         Inr (drop_family (root_or old (bm_epoch m, fst victim, snd victim, t_start old))
                ''capacity'' (count ''capacity_tasks_dropped'' m)))"

definition task_create :: "int \<Rightarrow> int \<Rightarrow> int \<Rightarrow> memory \<Rightarrow> memory \<times> tstate" where
  "task_create cgroup pid start m =
    (let blocked = list_ex (\<lambda>e. snd (fst e) = pid \<and> t_blocked (snd e)
                       \<and> (t_start (snd e) = 0 \<or> t_start (snd e) = start)) (bm_tasks m);
         st = \<lparr>t_oid = bm_next m, t_start = start, t_blocked = blocked, t_root = None,
               t_kids = False\<rparr>
     in (m\<lparr>bm_tasks := dset (cgroup, pid) st (bm_tasks m), bm_next := Suc (bm_next m)\<rparr>, st))"

definition task_admit :: "int \<Rightarrow> int \<Rightarrow> int \<Rightarrow> memory \<Rightarrow> memory \<times> tstate res" where
  "task_admit cgroup pid start m =
    (if (cgroup, pid) \<notin> set (dkeys (bm_tasks m)) \<and> bm_max m \<le> int (length (bm_tasks m))
     then (case task_evict m of
             Inl e \<Rightarrow> (clear ''capacity_exhausted'' False m, Inl e)
           | Inr m' \<Rightarrow> apsnd Inr (task_create cgroup pid start m'))
     else apsnd Inr (task_create cgroup pid start m))"

text \<open>The end of \<open>task\<close>: an unknown start token is filled in and the slot becomes the newest.\<close>

definition task_touch :: "int \<Rightarrow> int \<Rightarrow> int \<Rightarrow> tstate \<Rightarrow> memory \<Rightarrow> memory \<times> tstate" where
  "task_touch cgroup pid start st m =
    (let st' = (if t_start st = 0 then st\<lparr>t_start := start\<rparr> else st);
         m' = mutate st' m
     in (m'\<lparr>bm_tasks := move_to_end (cgroup, pid) (bm_tasks m')\<rparr>, st'))"

definition task :: "int \<Rightarrow> int \<Rightarrow> int \<Rightarrow> memory \<Rightarrow> memory \<times> tstate res" where
  "task cgroup pid start m =
    (case task_resolve cgroup pid start m of
       (m', Some st) \<Rightarrow> apsnd Inr (task_touch cgroup pid start st m')
     | (m', None) \<Rightarrow>
         (case task_admit cgroup pid start m' of
            (m'', Inl e) \<Rightarrow> (m'', Inl e)
          | (m'', Inr st) \<Rightarrow> apsnd Inr (task_touch cgroup pid start st m'')))"

definition root_of :: "ident \<Rightarrow> tstate \<Rightarrow> memory \<Rightarrow> memory \<times> ident option" where
  "root_of key st m =
    (case t_root st of
       None \<Rightarrow> (m, Some key)
     | Some (e, cg, pid, start) \<Rightarrow>
         (case map_of (bm_tasks m) (cg, pid) of
            None \<Rightarrow> (clear ''unresolved_root_generation'' True m, None)
          | Some parent \<Rightarrow>
              (if t_start parent \<noteq> start \<or> t_blocked parent
               then (clear ''unresolved_root_generation'' True m, None)
               else (m, Some (e, cg, pid, start)))))"

definition block_thread :: "int \<Rightarrow> int \<Rightarrow> memory \<Rightarrow> memory \<times> unit res" where
  "block_thread cgroup tgid m =
    (let leader_start = (case map_of (bm_tasks m) (cgroup, tgid) of None \<Rightarrow> 0 | Some st \<Rightarrow> t_start st)
     in (case task cgroup tgid leader_start (clear ''unsupported_thread'' True m) of
           (m', Inl e) \<Rightarrow> (m', Inl e)
         | (m', Inr st) \<Rightarrow> (mutate (st\<lparr>t_blocked := True\<rparr>) m', Inr ())))"

subsection \<open>Fork edges\<close>

text \<open>
  Admitting the child may remove the parent's family: the edge is recorded only if the parent's
  slot still holds the very object that \<open>observe\<close> was given.
\<close>

definition fork_child :: "int \<Rightarrow> int \<Rightarrow> int \<Rightarrow> int \<Rightarrow> ident \<Rightarrow> tstate \<Rightarrow> ident \<Rightarrow> memory
    \<Rightarrow> memory \<times> unit res" where
  "fork_child cgroup pid child child_start key st rid m =
    (case task cgroup child child_start m of
       (m2, Inl e) \<Rightarrow> (m2, Inl e)
     | (m2, Inr cst) \<Rightarrow>
       (if map_option t_oid (map_of (bm_tasks m2) (cgroup, pid)) \<noteq> Some (t_oid st)
        then (clear ''fork_family_invalidated'' True m2, Inr ())
        else (case (if t_root st \<noteq> None then root_of key st m2 else (m2, Some rid)) of
            (m3, None) \<Rightarrow> (m3, Inr ())
          | (m3, Some _) \<Rightarrow>
              (count ''verified_fork_edges''
                 (mutate (cst\<lparr>t_root := Some rid\<rparr>)
                    (mutate (st\<lparr>t_root := Some rid, t_kids := True\<rparr>) m3)), Inr ()))))"

definition fork :: "bytes \<Rightarrow> ident \<Rightarrow> tstate \<Rightarrow> int \<Rightarrow> memory \<Rightarrow> memory \<times> unit res" where
  "fork event key st flags m =
    (case key of (_, cgroup, pid, _) \<Rightarrow>
     let parent = rd 4 event 88; child = rd 4 event 92; reserved = rd 4 event 96;
         child_tgid = rd 4 event 100; child_start = rd 8 event 104
     in
      if parent \<noteq> pid \<or> child = 0 \<or> child = parent then (clear ''unresolved_fork'' True m, Inr ())
      else if flags AND 2048 = 0 then
        (clear ''missing_fork_identity'' True (count ''descendant_correlation_unsupported'' m), Inr ())
      else if reserved \<noteq> 0 \<or> child_tgid = 0 \<or> child_start = 0 then
        (clear ''unresolved_fork_generation'' True m, Inr ())
      else if child \<noteq> child_tgid then block_thread cgroup pid m
      else if t_blocked st then (count ''blocked_thread_generation'' m, Inr ())
      else (case root_of key st m of
          (m1, None) \<Rightarrow> (m1, Inr ())
        | (m1, Some rid) \<Rightarrow>
          (case map_of (bm_tasks m1) (cgroup, child) of
             Some old \<Rightarrow>
               (if t_start old = child_start \<or> t_start old = 0
                then (clear ''unresolved_fork_generation'' True m1, Inr ())
                else fork_child cgroup pid child child_start key st rid m1)
           | None \<Rightarrow> fork_child cgroup pid child child_start key st rid m1)))"

subsection \<open>\<open>observe\<close>\<close>

text \<open>The HEALTH block: the loss counters are the first three and the last of the five.\<close>

definition health_values :: "bytes \<Rightarrow> int list" where
  "health_values event = map (rd 8 event) [88, 96, 104, 112, 120]"

definition observe_health :: "bytes \<Rightarrow> memory \<Rightarrow> memory" where
  "observe_health event m =
    (let values = health_values event;
         loss = take 3 values @ drop 4 values;
         m1 = (if (bm_health m = None \<and> list_ex (\<lambda>v. v \<noteq> 0) loss)
                  \<or> (bm_health m \<noteq> None \<and> bm_health m \<noteq> Some loss)
               then clear ''health_loss_or_counter_reset'' True m else m);
         m2 = count ''health_frames'' (m1\<lparr>bm_health := Some loss\<rparr>)
     in m2\<lparr>bm_counts := dset ''network_filtered_max''
              (max (cget (bm_counts m2) ''network_filtered_max'') (values ! 3)) (bm_counts m2)\<rparr>)"

definition observe_exit :: "int \<Rightarrow> int \<Rightarrow> ident \<Rightarrow> tstate \<Rightarrow> memory \<Rightarrow> memory" where
  "observe_exit cgroup pid key st m =
    (if t_root st \<noteq> None \<and> \<not> t_kids st \<and> t_root st \<noteq> Some key
     then count ''leaf_exits'' (m\<lparr>bm_tasks := dpop (cgroup, pid) (bm_tasks m)\<rparr>)
     else drop_family (root_or st key) ''exit'' m)"

definition open_path :: "bytes \<Rightarrow> pystr" where
  "open_path event = utf8_decode on_replace (until_nul (bslice event 120 376))"

definition observe_open :: "bytes \<Rightarrow> header \<Rightarrow> ident \<Rightarrow> ident \<Rightarrow> memory \<Rightarrow> memory" where
  "observe_open event h key rid m =
    (if h_flags h AND 7 \<noteq> 0 \<or> 0 \<notin> set (bslice event 120 376) then count ''uncertain_path'' m
     else let operation = rd 4 event 116; mode = rd 4 event 112 in
       if operation \<noteq> 1 \<or> h_result h \<noteq> 0 \<or> mode AND 1 = 0 then count ''ineligible_open_hook'' m
       else if credential (open_path event)
       then count ''credential_open_hooks''
              (m\<lparr>bm_evidence := dset rid (h_ts h, key) (dpop rid (bm_evidence m))\<rparr>)
       else m)"

text \<open>The destination of a connect attempt, and why it does not count as a remote attempt.\<close>

definition connect_address :: "bytes \<Rightarrow> ip" where
  "connect_address event =
    (if rd 2 event 152 = 2 then V4 (bslice event 184 188) else V6 (bslice event 184 200))"

definition effective_destination :: "ip \<Rightarrow> ip" where
  "effective_destination a = (case ipv4_mapped a of None \<Rightarrow> a | Some m \<Rightarrow> m)"

definition connect_refusal :: "bytes \<Rightarrow> header \<Rightarrow> string option" where
  "connect_refusal event h =
    (if h_flags h AND 16 = 0 then Some ''uncertain_destination''
     else if rd 2 event 152 \<notin> {2, 10} then Some ''unsupported_family''
     else let a = connect_address event in
       if is_loopback a \<or> (case ipv4_mapped a of None \<Rightarrow> False | Some m \<Rightarrow> is_loopback m)
       then Some ''loopback_attempts''
       else if is_unspecified (effective_destination a) \<or> is_multicast (effective_destination a)
       then Some ''unsupported_destination''
       else None)"

definition advise :: "header \<Rightarrow> ident \<Rightarrow> ident \<Rightarrow> int \<Rightarrow> ident \<Rightarrow> memory \<Rightarrow> memory \<times> advisory" where
  "advise h key rid pts source_key m =
    (let scope = (if source_key = key then ''direct_same_task_only'' else ''verified_task_lineage'');
         m' = count (scope @ ''_advisories'')
                (count ''advisories'' (m\<lparr>bm_evidence := dpop rid (bm_evidence m)\<rparr>))
     in (m', \<lparr>a_scope = scope, a_identity = key, a_precursor = source_key, a_root = rid,
              a_precursor_ns = pts, a_attempt_ns = h_ts h,
              a_episode = cget (bm_counts m') ''advisories''\<rparr>))"

definition observe_connect :: "bytes \<Rightarrow> header \<Rightarrow> ident \<Rightarrow> ident \<Rightarrow> memory
    \<Rightarrow> memory \<times> advisory option" where
  "observe_connect event h key rid m =
    (case connect_refusal event h of
       Some reason \<Rightarrow> (count reason m, None)
     | None \<Rightarrow>
       (let m1 = count ''non_loopback_connect_attempts'' m in
        (case map_of (bm_evidence m1) rid of
           None \<Rightarrow> (count ''connect_without_direct_precursor'' m1, None)
         | Some (pts, source_key) \<Rightarrow>
             (if h_ts h \<le> pts then (clear ''unsafe_ordering'' True m1, None)
              else apsnd Some (advise h key rid pts source_key m1)))))"

text \<open>What is done with the event of an admitted leader task (lines 226 to 260).\<close>

definition observe_task :: "bytes \<Rightarrow> header \<Rightarrow> tstate \<Rightarrow> memory \<Rightarrow> memory \<times> advisory option res" where
  "observe_task event h st m =
    (let key = (bm_epoch m, h_cgroup h, h_pid h, h_start h) in
     if h_kind h = 3 then (observe_exit (h_cgroup h) (h_pid h) key st m, Inr None)
     else if h_kind h = 1 then
       (case fork event key st (h_flags h) m of
          (m', Inl e) \<Rightarrow> (m', Inl e) | (m', Inr _) \<Rightarrow> (m', Inr None))
     else if t_blocked st then (count ''blocked_thread_generation'' m, Inr None)
     else (case root_of key st m of
         (m1, None) \<Rightarrow> (m1, Inr None)
       | (m1, Some rid) \<Rightarrow>
         (if h_kind h = 6 then (observe_open event h key rid m1, Inr None)
          else if h_kind h \<noteq> 8 then (m1, Inr None)
          else apsnd Inr (observe_connect event h key rid m1))))"

text \<open>The guards between the ordering check and the admission of the task (lines 204 to 226).\<close>

definition observe_ordered :: "bytes \<Rightarrow> header \<Rightarrow> memory \<Rightarrow> memory \<times> advisory option res" where
  "observe_ordered event h m =
    (if h_kind h = 14 then (observe_health event m, Inr None)
     else if h_flags h AND 1536 \<noteq> 0 then (clear ''uncertain_process'' True m, Inr None)
     else if h_pid h = 0 \<or> h_tgid h = 0 \<or> h_start h = 0
     then (clear ''unresolved_generation'' True m, Inr None)
     else if h_pid h \<noteq> h_tgid h then
       (case block_thread (h_cgroup h) (h_tgid h) m of
          (m', Inl e) \<Rightarrow> (m', Inl e) | (m', Inr _) \<Rightarrow> (m', Inr None))
     else
       (let m1 = (if h_kind h = 3 \<and> (h_cgroup h, h_pid h) \<notin> set (dkeys (bm_tasks m))
                  then count ''untracked_exit'' m else m)
        in (case task (h_cgroup h) (h_pid h) (h_start h) m1 of
              (m2, Inl e) \<Rightarrow> (m2, Inl e)
            | (m2, Inr st) \<Rightarrow> observe_task event h st m2)))"

definition valid_event :: "bytes \<Rightarrow> bool" where
  "valid_event event \<longleftrightarrow>
    (let h = unpack_header event; n = int (length event) in
     h_schema h = 1 \<and> min_size (h_kind h) \<le> n \<and> n \<le> 376 \<and> h_size h = n)"

definition observe :: "memory \<Rightarrow> bytes \<Rightarrow> memory \<times> advisory option res" where
  "observe m event =
    (if length event < 88
     then (clear ''invalid_input'' True m, Inl (ValueError ''INVALID_EVENT_LENGTH''))
     else if \<not> valid_event event
     then (clear ''invalid_input'' True m, Inl (ValueError ''INVALID_EVENT_SCHEMA_OR_LENGTH''))
     else
       (let h = unpack_header event; m1 = count ''frames'' m in
        if (case bm_last m1 of None \<Rightarrow> False | Some l \<Rightarrow> h_ts h < l)
        then ((clear ''unsafe_ordering'' True m1)\<lparr>bm_last := Some (h_ts h)\<rparr>, Inr None)
        else observe_ordered event h (expire (h_ts h) (m1\<lparr>bm_last := Some (h_ts h)\<rparr>))))"

subsection \<open>Summary\<close>

record summary =
  sm_complete :: bool
  sm_retention :: "int \<times> int"
  sm_max_tasks :: int
  sm_pending :: int
  sm_tracked :: int
  sm_counters :: "string counter"

text \<open>The retention is reported as the quotient \<open>ttl / 1e9\<close>, kept as a pair.\<close>

definition summary :: "bool \<Rightarrow> memory \<Rightarrow> summary" where
  "summary whole m = \<lparr>sm_complete = whole, sm_retention = (bm_ttl m, 1000000000),
     sm_max_tasks = bm_max m, sm_pending = int (length (bm_evidence m)),
     sm_tracked = int (length (bm_tasks m)),
     sm_counters = sort_key (\<lambda>e. ucode (fst e)) (bm_counts m)\<rparr>"

subsection \<open>Reading frames and replaying a source\<close>

text \<open>
  A source answers \<open>read(n)\<close> with at most \<open>n\<close> bytes of its next piece, with an empty result at the
  end (or where a piece is empty), or by raising \<open>OSError\<close>.
\<close>

datatype piece = Piece bytes | Broken

type_synonym source = "piece list"

fun read_some :: "nat \<Rightarrow> source \<Rightarrow> bytes res \<times> source" where
  "read_some n [] = (Inr [], [])"
| "read_some n (Broken # s) = (Inl OSErr, s)"
| "read_some n (Piece c # s) =
     (Inr (take n c), if length c \<le> n then s else Piece (drop n c) # s)"

text \<open>\<open>exact(n, eof)\<close>; the third argument is the bytes read so far.\<close>

lemma shrink_rest: "a < n \<Longrightarrow> c \<noteq> [] \<Longrightarrow> n - (a + length c) < n - (a::nat)"
  by (cases c) auto

function exact :: "nat \<Rightarrow> bool \<Rightarrow> bytes \<Rightarrow> source \<Rightarrow> bytes option res \<times> source" where
  "exact n eof data s =
    (if length data < n then
       (case read_some (n - length data) s of
          (Inl e, s') \<Rightarrow> (Inl e, s')
        | (Inr chunk, s') \<Rightarrow>
            (if chunk = [] then
               (if eof \<and> data = [] then (Inr None, s') else (Inl (ValueError ''TRUNCATED_EOF''), s'))
             else exact n eof (data @ chunk) s'))
     else (Inr (Some data), s))"
  by pat_completeness auto
termination
  by (relation "measure (\<lambda>(n, eof, data, s). n - length data)") (auto intro: shrink_rest)

declare exact.simps [simp del]

definition read_frame :: "source \<Rightarrow> bytes option res \<times> source" where
  "read_frame s =
    (case exact 12 True [] s of
       (Inl e, s1) \<Rightarrow> (Inl e, s1)
     | (Inr None, s1) \<Rightarrow> (Inr None, s1)
     | (Inr (Some wire), s1) \<Rightarrow>
       (let h = unpack_frame wire in
        if \<not> (fh_magic h = ebpf_magic \<and> fh_version h = 1 \<and> fh_little h = 1 \<and> fh_reserved h = 0)
        then (Inl (ValueError ''INVALID_WIRE_HEADER''), s1)
        else if \<not> (104 \<le> fh_size h \<and> fh_size h \<le> 376)
        then (Inl (ValueError ''INVALID_FRAME_LENGTH''), s1)
        else exact (nat (fh_size h)) False [] s1))"

primrec source_bytes :: "source \<Rightarrow> bytes" where
  "source_bytes [] = []"
| "source_bytes (p # s) = (case p of Piece c \<Rightarrow> c @ source_bytes s | Broken \<Rightarrow> source_bytes s)"

lemma read_some_bytes:
  "read_some n s = (Inr c, s') \<Longrightarrow> source_bytes s = c @ source_bytes s'"
  by (cases "(n, s)" rule: read_some.cases) (auto split: if_splits)

lemma exact_bytes:
  "exact n eof data s = (Inr (Some d), s') \<Longrightarrow>
     data @ source_bytes s = d @ source_bytes s'"
proof (induction n eof data s rule: exact.induct)
  case (1 n eof data s)
  show ?case
  proof (cases "length data < n")
    case False
    with "1.prems" show ?thesis by (simp add: exact.simps [of n eof data s])
  next
    case True
    obtain r s1 where rs: "read_some (n - length data) s = (r, s1)" by fastforce
    from "1.prems" True rs obtain c where c: "r = Inr c" "c \<noteq> []"
      by (cases r) (auto simp: exact.simps [of n eof data s] split: if_splits)
    with "1.prems" True rs have "exact n eof (data @ c) s1 = (Inr (Some d), s')"
      by (simp add: exact.simps [of n eof data s])
    from "1.IH" [OF True rs [symmetric] c this] read_some_bytes [OF rs [unfolded c(1)]]
    show ?thesis by simp
  qed
qed

lemma exact_length_ge: "exact n eof data s = (Inr (Some d), s') \<Longrightarrow> n \<le> length d"
proof (induction n eof data s rule: exact.induct)
  case (1 n eof data s)
  show ?case
  proof (cases "length data < n")
    case False
    with "1.prems" show ?thesis by (simp add: exact.simps [of n eof data s])
  next
    case True
    obtain r s1 where rs: "read_some (n - length data) s = (r, s1)" by fastforce
    from "1.prems" True rs obtain c where c: "r = Inr c" "c \<noteq> []"
      by (cases r) (auto simp: exact.simps [of n eof data s] split: if_splits)
    with "1.prems" True rs have "exact n eof (data @ c) s1 = (Inr (Some d), s')"
      by (simp add: exact.simps [of n eof data s])
    from "1.IH" [OF True rs [symmetric] c this] show ?thesis .
  qed
qed

lemma read_frame_shrinks:
  assumes "read_frame s = (Inr (Some d), s')"
  shows "length (source_bytes s') < length (source_bytes s)"
proof -
  from assms obtain wire s1 where w: "exact 12 True [] s = (Inr (Some wire), s1)"
    and p: "exact (nat (fh_size (unpack_frame wire))) False [] s1 = (Inr (Some d), s')"
    unfolding read_frame_def
    by (auto simp: Let_def split: prod.splits sum.splits option.splits if_splits)
  from exact_bytes [OF w] exact_length_ge [OF w]
  have "length (source_bytes s1) < length (source_bytes s)" by (cases wire) auto
  moreover from exact_bytes [OF p] have "length (source_bytes s') \<le> length (source_bytes s1)"
    by simp
  ultimately show ?thesis by simp
qed

text \<open>
  \<open>replay\<close> yields the advisories until the source ends or an error is raised; the result is what it
  yielded, the memory it leaves and the error.
\<close>

function replay :: "source \<Rightarrow> memory \<Rightarrow> advisory list \<times> memory \<times> py_error option" where
  "replay s m =
    (case read_frame s of
       (Inl e, s') \<Rightarrow> ([], clear ''invalid_input'' True m, Some e)
     | (Inr None, s') \<Rightarrow> ([], m, None)
     | (Inr (Some event), s') \<Rightarrow>
         (case observe m event of
            (m', Inl e) \<Rightarrow> ([], m', Some e)
          | (m', Inr a) \<Rightarrow>
              (case replay s' m' of
                 (as, m'', x) \<Rightarrow> ((case a of None \<Rightarrow> as | Some y \<Rightarrow> y # as), m'', x))))"
  by pat_completeness auto
termination
  by (relation "measure (\<lambda>(s, m). length (source_bytes s))") (auto dest: read_frame_shrinks sym)

declare replay.simps [simp del]

text \<open>
  \<open>main\<close> after the constructor: what is printed to standard output, the reason code of a
  \<open>replay_error\<close> record, and the exit status.  \<open>None\<close> for the source is an \<open>open\<close> that failed.
\<close>

fun reason_code :: "py_error \<Rightarrow> string" where
  "reason_code (ValueError msg) = msg"
| "reason_code _ = ''INPUT_IO_ERROR''"

definition run_main :: "source option \<Rightarrow> memory \<Rightarrow> advisory list \<times> summary \<times> string option \<times> int" where
  "run_main src m =
    (case (case src of None \<Rightarrow> ([], m, Some OSErr) | Some s \<Rightarrow> replay s m) of
       (as, m', None) \<Rightarrow> (as, summary True m', None, 0)
     | (as, m', Some e) \<Rightarrow>
         (as, summary False (clear ''replay_failed'' True m'), Some (reason_code e), 2))"

end
