(* ===== verification/Behavior_Invariant.thy ===== *)
theory Behavior_Invariant
  imports Behavior_Memory
begin

section \<open>The invariant of the behaviour memory\<close>

text \<open>
  What every reachable \<open>BehaviorMemory\<close> satisfies, and that every method keeps it: the task table
  is a bounded dictionary of distinct objects; every family link and every pending precursor
  is anchored in a live, unblocked root task of the same generation; precursors are in the order
  of their timestamps, none later than the last event; and every credential open is accounted
  for at most once.  The lemmas are stated over the dictionaries as maps.
\<close>

named_theorems bm_defs \<open>definitions of the methods\<close>

subsection \<open>Dictionaries as maps\<close>

lemma map_of_filter_ok:
  "dict_ok d \<Longrightarrow> map_of (filter P d) k =
     (case map_of d k of None \<Rightarrow> None | Some v \<Rightarrow> if P (k, v) then Some v else None)"
proof (induction d)
  case Nil
  then show ?case by simp
next
  case (Cons e d)
  obtain k' v where e: "e = (k', v)" by fastforce
  from Cons.prems e have k': "map_of d k' = None" and d: "dict_ok d"
    by (auto simp: dict_ok_def map_of_eq_None_iff)
  from Cons.IH [OF d] k' e show ?case by (auto split: option.splits)
qed

lemma map_of_map_entry:
  "map_of (map (\<lambda>e. if P (snd e) then (fst e, f) else e) d) k =
     map_option (\<lambda>v. if P v then f else v) (map_of d k)"
  by (induction d) auto

subsection \<open>Anchors\<close>

text \<open>
  The identity of a task entry, the slot an identity names, and the task that carries a root
  identity: same generation, not excluded.
\<close>

declare split_paired_All [simp del] split_paired_Ex [simp del]

definition ident_of :: "string \<Rightarrow> slot \<Rightarrow> tstate \<Rightarrow> ident" where
  "ident_of ep s v = (ep, fst s, snd s, t_start v)"

definition slot_of :: "ident \<Rightarrow> slot" where
  "slot_of r = (fst (snd r), fst (snd (snd r)))"

definition anchor :: "string \<Rightarrow> (slot \<rightharpoonup> tstate) \<Rightarrow> ident \<Rightarrow> tstate option" where
  "anchor ep T r = (case T (slot_of r) of None \<Rightarrow> None
     | Some p \<Rightarrow> if ident_of ep (slot_of r) p = r \<and> \<not> t_blocked p then Some p else None)"

lemma slot_of_ident [simp]: "slot_of (ident_of ep s v) = s"
  by (simp add: slot_of_def ident_of_def)

lemma ident_of_cong: "t_start v = t_start w \<Longrightarrow> ident_of ep s v = ident_of ep s w"
  by (simp add: ident_of_def)

lemma ident_of_inject [simp]: "ident_of ep s v = ident_of ep s' v' \<longleftrightarrow> s = s' \<and> t_start v = t_start v'"
  by (auto simp: ident_of_def prod_eq_iff)

lemma anchorI: "T s = Some p \<Longrightarrow> \<not> t_blocked p \<Longrightarrow> anchor ep T (ident_of ep s p) = Some p"
  by (simp add: anchor_def)

lemma anchor_slot: "anchor ep T r = Some p \<Longrightarrow>
    T (slot_of r) = Some p \<and> ident_of ep (slot_of r) p = r \<and> \<not> t_blocked p"
  by (simp add: anchor_def split: option.splits if_splits)

lemma anchor_upd_other: "slot_of r \<noteq> s \<Longrightarrow> anchor ep (T(s := w)) r = anchor ep T r"
  by (simp add: anchor_def)

lemma anchor_cong: "T' (slot_of r) = T (slot_of r) \<Longrightarrow> anchor ep T' r = anchor ep T r"
  by (simp add: anchor_def)

definition linked :: "string \<Rightarrow> (slot \<rightharpoonup> tstate) \<Rightarrow> (ident \<rightharpoonup> 'e) \<Rightarrow> bool" where
  "linked ep T E \<longleftrightarrow>
     (\<forall>s v r. T s = Some v \<longrightarrow> t_root v = Some r \<longrightarrow>
        (\<exists>p. anchor ep T r = Some p \<and> t_root p = Some r))
     \<and> (\<forall>r. E r \<noteq> None \<longrightarrow>
          (\<exists>p. anchor ep T r = Some p \<and> (t_root p = None \<or> t_root p = Some r)))"

lemma linkedI:
  assumes "\<And>s v r. T s = Some v \<Longrightarrow> t_root v = Some r \<Longrightarrow>
        \<exists>p. anchor ep T r = Some p \<and> t_root p = Some r"
    and "\<And>r. E r \<noteq> None \<Longrightarrow>
        \<exists>p. anchor ep T r = Some p \<and> (t_root p = None \<or> t_root p = Some r)"
  shows "linked ep T E"
  unfolding linked_def using assms by blast

lemma linkedD_root:
  "linked ep T E \<Longrightarrow> T s = Some v \<Longrightarrow> t_root v = Some r \<Longrightarrow>
     \<exists>p. anchor ep T r = Some p \<and> t_root p = Some r"
  unfolding linked_def by blast

lemma linkedD_evidence:
  "linked ep T E \<Longrightarrow> E r \<noteq> None \<Longrightarrow>
     \<exists>p. anchor ep T r = Some p \<and> (t_root p = None \<or> t_root p = Some r)"
  unfolding linked_def by blast

lemma linked_bare:
  assumes "\<And>s v. T s = Some v \<Longrightarrow> t_root v = None" and "E = Map.empty"
  shows "linked ep T E"
  using assms by (intro linkedI) simp_all

lemma linked_fewer:
  assumes L: "linked ep T E" and sub: "\<And>r. E' r \<noteq> None \<Longrightarrow> E r \<noteq> None"
  shows "linked ep T E'"
  using linkedD_root [OF L] linkedD_evidence [OF L sub] by (intro linkedI)

lemma linked_insert:
  assumes L: "linked ep T E" and p: "anchor ep T r = Some p" "t_root p = None \<or> t_root p = Some r"
  shows "linked ep T (E(r \<mapsto> x))"
proof (rule linkedI)
  fix q
  assume "(E(r \<mapsto> x)) q \<noteq> None"
  then show "\<exists>p. anchor ep T q = Some p \<and> (t_root p = None \<or> t_root p = Some q)"
    using p linkedD_evidence [OF L] by (cases "q = r") simp_all
qed (rule linkedD_root [OF L])

text \<open>Dropping a family removes its tasks and its precursor, and nothing another family needs.\<close>

lemma linked_drop:
  assumes L: "linked ep T E"
    and T': "\<And>s. T' s = (case T s of None \<Rightarrow> None | Some v \<Rightarrow>
        if t_root v = Some r \<or> ident_of ep s v = r then None else Some v)"
    and E': "\<And>q. E' q = (if q = r then None else E q)"
  shows "linked ep T' E'"
proof -
  have keep: "anchor ep T' q = Some p"
    if "anchor ep T q = Some p" "q \<noteq> r" "t_root p = None \<or> t_root p = Some q" for q p
    using anchor_slot [OF that(1)] that(2,3) T' [of "slot_of q"] by (auto simp: anchor_def)
  have old: "T s = Some v \<and> t_root v \<noteq> Some r" if "T' s = Some v" for s v
    using that T' [of s] by (simp split: option.splits if_splits)
  show ?thesis
  proof (rule linkedI)
    fix s v q
    assume v: "T' s = Some v" and q: "t_root v = Some q"
    from old [OF v] q have "T s = Some v" "q \<noteq> r" by simp_all
    from linkedD_root [OF L this(1) q] keep this(2)
    show "\<exists>p. anchor ep T' q = Some p \<and> t_root p = Some q" by blast
  next
    fix q
    assume "E' q \<noteq> None"
    then have "E q \<noteq> None" "q \<noteq> r" using E' [of q] by (simp_all split: if_splits)
    from linkedD_evidence [OF L this(1)] keep this(2)
    show "\<exists>p. anchor ep T' q = Some p \<and> (t_root p = None \<or> t_root p = Some q)" by blast
  qed
qed

text \<open>A change of one entry that is nobody's anchor.\<close>

lemma linked_change:
  assumes L: "linked ep T E"
    and free: "\<And>r p. anchor ep T r = Some p \<Longrightarrow> slot_of r = s \<Longrightarrow>
        t_root p = None \<or> t_root p = Some r \<Longrightarrow> t_root p \<noteq> Some r \<and> E r = None"
    and w: "\<And>v r. w = Some v \<Longrightarrow> t_root v = Some r \<Longrightarrow>
        (\<exists>v'. T s = Some v' \<and> t_root v' = Some r)"
  shows "linked ep (T(s := w)) E"
proof (rule linkedI)
  fix s' v r
  assume v: "(T(s := w)) s' = Some v" and r: "t_root v = Some r"
  have "\<exists>s'' v''. T s'' = Some v'' \<and> t_root v'' = Some r"
  proof (cases "s' = s")
    case True
    with v have "w = Some v" by simp
    from w [OF this r] show ?thesis by blast
  next
    case False
    with v r show ?thesis by auto
  qed
  then obtain p where p: "anchor ep T r = Some p" "t_root p = Some r"
    using linkedD_root [OF L] by blast
  have "slot_of r \<noteq> s" using free [OF p(1)] p(2) by blast
  then show "\<exists>p. anchor ep (T(s := w)) r = Some p \<and> t_root p = Some r"
    using p by (simp add: anchor_upd_other)
next
  fix r
  assume E: "E r \<noteq> None"
  from linkedD_evidence [OF L E] obtain p
    where p: "anchor ep T r = Some p" "t_root p = None \<or> t_root p = Some r" by blast
  have "slot_of r \<noteq> s" using free [OF p(1) _ p(2)] E by blast
  then show "\<exists>p. anchor ep (T(s := w)) r = Some p \<and> (t_root p = None \<or> t_root p = Some r)"
    using p by (simp add: anchor_upd_other)
qed

lemma linked_add:
  assumes "linked ep T E" "T s = None" "t_root v = None"
  shows "linked ep (T(s \<mapsto> v)) E"
  by (rule linked_change [OF assms(1)]) (use assms(2,3) in \<open>auto simp: anchor_def\<close>)

lemma linked_blocked:
  assumes "linked ep T E" "T s = Some v" "t_blocked v" "t_root w = t_root v"
  shows "linked ep (T(s \<mapsto> w)) E"
  by (rule linked_change [OF assms(1)]) (use assms(2-4) in \<open>auto simp: anchor_def\<close>)

text \<open>A task in another task's family is nobody's anchor: its exit leaves the family alone.\<close>

lemma linked_leaf:
  assumes L: "linked ep T E" and v: "T s = Some v" "t_root v = Some q"
    and ne: "q \<noteq> ident_of ep s v"
  shows "linked ep (T(s := None)) E"
proof (rule linked_change [OF L])
  fix r p
  assume a: "anchor ep T r = Some p" "slot_of r = s" and p: "t_root p = None \<or> t_root p = Some r"
  from anchor_slot [OF a(1)] a(2) v(1) have "p = v" "ident_of ep s v = r" by simp_all
  with p v(2) ne show "t_root p \<noteq> Some r \<and> E r = None" by simp
qed simp

text \<open>Recording a verified edge: the parent becomes or stays a member, the fresh child joins.\<close>

lemma anchor_parent:
  assumes "T sp = Some p" and p': "t_start p' = t_start p" "\<not> t_blocked p'"
    and r: "anchor ep T r = Some q" "slot_of r = sp"
  shows "anchor ep (T(sp \<mapsto> p')) r = Some p'"
  using anchor_slot [OF r(1)] assms by (simp add: anchor_def ident_of_def)

lemma linked_parent:
  assumes L: "linked ep T E"
    and p: "T sp = Some p" "\<not> t_blocked p" "r = (case t_root p of None \<Rightarrow> ident_of ep sp p | Some r \<Rightarrow> r)"
    and p': "t_start p' = t_start p" "\<not> t_blocked p'" "t_root p' = Some r"
  shows "linked ep (T(sp \<mapsto> p')) E \<and> (\<exists>q. anchor ep (T(sp \<mapsto> p')) r = Some q \<and> t_root q = Some r)"
proof -
  let ?T = "T(sp \<mapsto> p')"
  have keep: "\<exists>q'. anchor ep ?T x = Some q' \<and> (q' = q \<or> x = r \<and> t_root q' = Some r)"
    if x: "anchor ep T x = Some q" "t_root q = None \<or> t_root q = Some x" for x q
  proof (cases "slot_of x = sp")
    case False
    with x(1) show ?thesis by (simp add: anchor_upd_other)
  next
    case True
    with anchor_slot [OF x(1)] p(1) have "q = p" "x = ident_of ep sp p" by simp_all
    with x(2) p(3) have "x = r" by auto
    with anchor_parent [OF p(1) p'(1,2) x(1) True] p'(3) show ?thesis by blast
  qed
  have r: "\<exists>q. anchor ep ?T r = Some q \<and> t_root q = Some r"
  proof (cases "t_root p")
    case None
    with p(3) have r: "r = ident_of ep sp p" by simp
    with anchorI [of T sp p ep, OF p(1,2)] have "anchor ep T r = Some p" by simp
    from anchor_parent [OF p(1) p'(1,2) this] r p'(3) show ?thesis by simp
  next
    case (Some r')
    with p(3) have rp: "t_root p = Some r" by simp
    from linkedD_root [OF L p(1) rp] obtain q where "anchor ep T r = Some q" "t_root q = Some r"
      by blast
    with keep [of r q] show ?thesis by blast
  qed
  have "linked ep ?T E"
  proof (rule linkedI)
    fix s v x
    assume v: "?T s = Some v" and x: "t_root v = Some x"
    show "\<exists>q. anchor ep ?T x = Some q \<and> t_root q = Some x"
    proof (cases "s = sp")
      case True
      with v x p'(3) r show ?thesis by simp
    next
      case False
      with v have "T s = Some v" by simp
      from linkedD_root [OF L this x] keep show ?thesis by blast
    qed
  next
    fix x
    assume "E x \<noteq> None"
    from linkedD_evidence [OF L this] keep
    show "\<exists>q. anchor ep ?T x = Some q \<and> (t_root q = None \<or> t_root q = Some x)" by blast
  qed
  with r show ?thesis by blast
qed

text \<open>A child with no family and no precursor of its own joins the family of \<open>r\<close>.\<close>

lemma linked_child:
  assumes L: "linked ep T E"
    and c: "T sc = Some c" "t_root c = None" "E (ident_of ep sc c) = None"
    and r: "anchor ep T r = Some q" "t_root q = Some r"
    and c': "t_root c' = Some r"
  shows "linked ep (T(sc \<mapsto> c')) E"
proof (rule linkedI)
  have stay: "slot_of x \<noteq> sc" if "anchor ep T x = Some a" "t_root a = Some x \<or> E x \<noteq> None" for x a
  proof
    assume "slot_of x = sc"
    with anchor_slot [OF that(1)] c(1) have "a = c" "x = ident_of ep sc c" by simp_all
    with that(2) c show False by simp
  qed
  fix s v x
  assume v: "(T(sc \<mapsto> c')) s = Some v" and x: "t_root v = Some x"
  obtain a where a: "anchor ep T x = Some a" "t_root a = Some x"
  proof (cases "s = sc")
    case True
    with v x c' r that show ?thesis by simp
  next
    case False
    with v have "T s = Some v" by simp
    from linkedD_root [OF L this x] that show ?thesis by blast
  qed
  with stay [OF a(1)] show "\<exists>p. anchor ep (T(sc \<mapsto> c')) x = Some p \<and> t_root p = Some x"
    by (simp add: anchor_upd_other)
next
  fix x
  assume x: "E x \<noteq> None"
  from linkedD_evidence [OF L x] obtain a
    where a: "anchor ep T x = Some a" "t_root a = None \<or> t_root a = Some x" by blast
  have "slot_of x \<noteq> sc"
  proof
    assume "slot_of x = sc"
    with anchor_slot [OF a(1)] c x show False by simp
  qed
  with a show "\<exists>p. anchor ep (T(sc \<mapsto> c')) x = Some p \<and> (t_root p = None \<or> t_root p = Some x)"
    by (simp add: anchor_upd_other)
qed

end
