(* ===== verification/Behavior_Ops.thy ===== *)
theory Behavior_Ops
  imports Behavior_Invariant
begin

section \<open>The methods of the behaviour memory keep its invariant\<close>

text \<open>
  The invariant \<open>bm_ok\<close>, the relation \<open>steady\<close> between the memory before and after a method that
  admits no precursor, and one lemma per method and per conjunct.  \<open>task\<close> has its contract in
  \<open>task_spec\<close>: which entry it returns and what it leaves of the others.
\<close>

subsection \<open>The invariant\<close>

definition tasks_ok :: "memory \<Rightarrow> bool" where
  "tasks_ok m \<longleftrightarrow> dict_ok (bm_tasks m) \<and> distinct (map (t_oid \<circ> snd) (bm_tasks m))
     \<and> (\<forall>e \<in> set (bm_tasks m). t_oid (snd e) < bm_next m)
     \<and> int (length (bm_tasks m)) \<le> bm_max m \<and> 1 \<le> bm_max m"

definition zero_ok :: "memory \<Rightarrow> bool" where
  "zero_ok m \<longleftrightarrow> (\<forall>e \<in> set (bm_tasks m). t_start (snd e) = 0 \<longrightarrow> t_blocked (snd e))"

abbreviation tmap :: "memory \<Rightarrow> slot \<rightharpoonup> tstate" where
  "tmap m \<equiv> map_of (bm_tasks m)"

abbreviation emap :: "memory \<Rightarrow> ident \<rightharpoonup> int \<times> ident" where
  "emap m \<equiv> map_of (bm_evidence m)"

definition linked_ok :: "memory \<Rightarrow> bool" where
  "linked_ok m \<longleftrightarrow> linked (bm_epoch m) (tmap m) (emap m)"

definition evidence_ok :: "memory \<Rightarrow> bool" where
  "evidence_ok m \<longleftrightarrow> dict_ok (bm_evidence m) \<and> sorted (map (fst \<circ> snd) (bm_evidence m))
     \<and> (\<forall>e \<in> set (bm_evidence m). \<exists>l. bm_last m = Some l \<and> fst (snd e) \<le> l)"

definition spent_keys :: "string list" where
  "spent_keys = [''advisories'', ''reset_precursors_dropped'', ''retention_precursors_dropped'',
     ''reuse_precursors_dropped'', ''capacity_precursors_dropped'', ''exit_precursors_dropped'']"

definition spent :: "string counter \<Rightarrow> int" where
  "spent c = sum_list (map (cget c) spent_keys)"

definition accounted :: "memory \<Rightarrow> bool" where
  "accounted m \<longleftrightarrow> spent (bm_counts m) + int (length (bm_evidence m))
     \<le> cget (bm_counts m) ''credential_open_hooks''"

definition bm_ok :: "memory \<Rightarrow> bool" where
  "bm_ok m \<longleftrightarrow> tasks_ok m \<and> zero_ok m \<and> linked_ok m \<and> evidence_ok m \<and> accounted m"

lemma bm_okI:
  "tasks_ok m \<Longrightarrow> zero_ok m \<Longrightarrow> linked_ok m \<Longrightarrow> evidence_ok m \<Longrightarrow> accounted m \<Longrightarrow> bm_ok m"
  by (simp add: bm_ok_def)

lemma bm_okD:
  assumes "bm_ok m"
  shows "tasks_ok m" "zero_ok m" "linked_ok m" "evidence_ok m" "accounted m"
  using assms by (simp_all add: bm_ok_def)

text \<open>What every method leaves alone while it admits no precursor.\<close>

definition steady :: "memory \<Rightarrow> memory \<Rightarrow> bool" where
  "steady m m' \<longleftrightarrow> bm_epoch m' = bm_epoch m \<and> bm_ttl m' = bm_ttl m \<and> bm_max m' = bm_max m
     \<and> bm_last m' = bm_last m \<and> set (bm_evidence m') \<subseteq> set (bm_evidence m)
     \<and> cget (bm_counts m') ''unresolved_root_generation''
         = cget (bm_counts m) ''unresolved_root_generation''
     \<and> cget (bm_counts m') ''advisories'' = cget (bm_counts m) ''advisories''"

lemma steady_refl [simp]: "steady m m"
  by (simp add: steady_def)

lemma steady_trans [trans]: "steady m m' \<Longrightarrow> steady m' m'' \<Longrightarrow> steady m m''"
  by (auto simp: steady_def)

subsection \<open>Counting\<close>

lemma sum_cadd_other: "k \<notin> set ks \<Longrightarrow>
    sum_list (map (cget (cadd k n c)) ks) = sum_list (map (cget c) ks)"
  by (induction ks) (auto simp: cget_cadd)

lemma sum_cadd: "distinct ks \<Longrightarrow> k \<in> set ks \<Longrightarrow>
    sum_list (map (cget (cadd k n c)) ks) = sum_list (map (cget c) ks) + n"
  by (induction ks) (auto simp: cget_cadd sum_cadd_other)

lemma distinct_spent_keys: "distinct spent_keys"
  by (simp add: spent_keys_def)

lemma spent_other: "k \<notin> set spent_keys \<Longrightarrow> spent (cadd k n c) = spent c"
  by (simp add: spent_def sum_cadd_other)

lemma spent_cadd: "k \<in> set spent_keys \<Longrightarrow> spent (cadd k n c) = spent c + n"
  by (simp add: spent_def sum_cadd distinct_spent_keys)

lemma count_simps [simp]:
  "bm_ttl (count k m) = bm_ttl m" "bm_max (count k m) = bm_max m"
  "bm_epoch (count k m) = bm_epoch m" "bm_tasks (count k m) = bm_tasks m"
  "bm_evidence (count k m) = bm_evidence m" "bm_last (count k m) = bm_last m"
  "bm_health (count k m) = bm_health m" "bm_next (count k m) = bm_next m"
  "bm_counts (count k m) = cadd k 1 (bm_counts m)"
  by (simp_all add: count_def)

definition plain_key :: "string \<Rightarrow> bool" where
  "plain_key k \<longleftrightarrow> k \<notin> set spent_keys \<and> k \<noteq> ''credential_open_hooks''
     \<and> k \<noteq> ''unresolved_root_generation''"

lemma bm_ok_count: "bm_ok m \<Longrightarrow> plain_key k \<Longrightarrow> bm_ok (count k m)"
  by (auto simp: bm_ok_def tasks_ok_def zero_ok_def linked_ok_def evidence_ok_def accounted_def
      plain_key_def spent_other cget_cadd)

lemma plain_key_not: "plain_key k \<Longrightarrow> k \<noteq> ''unresolved_root_generation'' \<and> k \<noteq> ''advisories''"
  by (auto simp: plain_key_def spent_keys_def)

lemma steady_count: "plain_key k \<Longrightarrow> steady m (count k m)"
  by (auto simp: steady_def cget_cadd dest: plain_key_not)

subsection \<open>Clearing\<close>

lemma fst_renew [simp]: "map fst (renew n d) = map fst d"
  by (induction d arbitrary: n) auto

lemma length_renew [simp]: "length (renew n d) = length d"
  by (induction d arbitrary: n) auto

lemma oid_renew: "map (t_oid \<circ> snd) (renew n d) = [n..<n + length d]"
  by (induction d arbitrary: n) (auto simp: upt_rec)

lemma map_of_renew:
  "map_of (renew n d) s = Some v \<Longrightarrow>
     n \<le> t_oid v \<and> t_blocked v \<and> t_root v = None \<and> \<not> t_kids v
     \<and> (\<exists>w. map_of d s = Some w \<and> t_start v = t_start w)"
  by (induction d arbitrary: n) (auto split: if_splits, fastforce)

lemma map_of_renew_None: "map_of (renew n d) s = None \<longleftrightarrow> map_of d s = None"
  by (simp add: map_of_eq_None_iff) (metis fst_renew set_map)

lemma set_renew: "e \<in> set (renew n d) \<Longrightarrow>
    t_oid (snd e) < n + length d \<and> t_blocked (snd e) \<and> t_root (snd e) = None"
  by (induction d arbitrary: n) (auto simp: less_Suc_eq_le, fastforce)

lemma clear_simps [simp]:
  "bm_ttl (clear k b m) = bm_ttl m" "bm_max (clear k b m) = bm_max m"
  "bm_epoch (clear k b m) = bm_epoch m" "bm_evidence (clear k b m) = []"
  "bm_last (clear k b m) = bm_last m" "bm_health (clear k b m) = bm_health m"
  by (simp_all add: clear_def Let_def)

lemma clear_tasks: "bm_tasks (clear k b m) =
    renew (bm_next m) (filter (\<lambda>e. b \<and> t_blocked (snd e)) (bm_tasks m))"
  by (simp add: clear_def Let_def)

text \<open>A cleared memory: no precursor, no family, and only excluded tasks.\<close>

definition bare :: "memory \<Rightarrow> bool" where
  "bare m \<longleftrightarrow> bm_evidence m = [] \<and> (\<forall>e \<in> set (bm_tasks m). t_root (snd e) = None)"

lemma bare_linked: "bare m \<Longrightarrow> linked_ok m"
  unfolding linked_ok_def
  by (rule linked_bare) (auto simp: bare_def dest!: map_of_SomeD)

lemma bare_clear: "bare (clear k b m)"
  by (auto simp: bare_def clear_tasks dest!: set_renew)

lemma length_filter_bound: "int (length xs) \<le> n \<Longrightarrow> int (length (filter P xs)) \<le> n"
  using length_filter_le [of P xs] by linarith

lemma tasks_ok_clear: "tasks_ok m \<Longrightarrow> tasks_ok (clear k b m)"
proof -
  assume m: "tasks_ok m"
  let ?kept = "filter (\<lambda>e. b \<and> t_blocked (snd e)) (bm_tasks m)"
  have len: "int (length ?kept) \<le> bm_max m"
    using m by (intro length_filter_bound) (simp add: tasks_ok_def)
  have "dict_ok ?kept" using m by (simp add: tasks_ok_def dict_ok_filter)
  moreover have "\<forall>e \<in> set (renew (bm_next m) ?kept). t_oid (snd e) < bm_next m + length ?kept"
    using set_renew by blast
  ultimately show ?thesis
    using m len unfolding tasks_ok_def clear_tasks oid_renew
    by (simp add: clear_def Let_def dict_ok_def)
qed

lemma zero_ok_clear: "zero_ok (clear k b m)"
  by (auto simp: zero_ok_def clear_tasks dest!: set_renew)

lemma reset_key: "''reset_precursors_dropped'' \<in> set spent_keys"
  by (simp add: spent_keys_def)

lemma bm_ok_clear:
  assumes "bm_ok m" and "plain_key k"
  shows "bm_ok (clear k b m)"
proof (rule bm_okI)
  show "accounted (clear k b m)"
    using bm_okD(5) [OF assms(1)] assms(2)
    by (auto simp: accounted_def clear_def Let_def plain_key_def spent_cadd reset_key spent_other cget_cadd)
qed (use bm_okD [OF assms(1)] in \<open>simp_all add: tasks_ok_clear zero_ok_clear bare_linked bare_clear
    evidence_ok_def\<close>)

lemma steady_clear: "plain_key k \<Longrightarrow> steady m (clear k b m)"
  by (auto simp: steady_def clear_def Let_def cget_cadd dest: plain_key_not)

lemma steady_then:
  assumes "steady m m'" and "plain_key k"
  shows "steady m (count k m')" "steady m (clear k b m')"
  using steady_trans [OF assms(1) steady_count [OF assms(2)]]
    steady_trans [OF assms(1) steady_clear [OF assms(2)]] by blast+

subsection \<open>Expiry\<close>

lemma expire_loop_spec:
  assumes "expire_loop ttl ts ev c = (ev', c')"
  shows "\<exists>old. ev = old @ ev' \<and> (\<forall>e \<in> set old. ttl \<le> ts - fst (snd e))
    \<and> (ev' \<noteq> [] \<longrightarrow> ts - fst (snd (hd ev')) < ttl)
    \<and> spent c' = spent c + int (length old)
    \<and> (\<forall>k. k \<noteq> ''retention_precursors_dropped'' \<longrightarrow> cget c' k = cget c k)"
  using assms
proof (induction ttl ts ev c rule: expire_loop.induct)
  case (1 ttl ts c)
  then show ?case by simp
next
  case (2 ttl ts r t src ev c)
  let ?c = "cadd ''retention_precursors_dropped'' 1 c"
  show ?case
  proof (cases "ttl \<le> ts - t")
    case True
    with 2 obtain old where "ev = old @ ev'" "\<forall>e \<in> set old. ttl \<le> ts - fst (snd e)"
      "ev' \<noteq> [] \<longrightarrow> ts - fst (snd (hd ev')) < ttl" "spent c' = spent ?c + int (length old)"
      "\<forall>k. k \<noteq> ''retention_precursors_dropped'' \<longrightarrow> cget c' k = cget ?c k"
      by auto
    with True show ?thesis
      by (intro exI [of _ "(r, t, src) # old"])
        (auto simp: spent_cadd spent_keys_def cget_cadd)
  next
    case False
    with 2(2) show ?thesis by auto
  qed
qed

lemma expire_simps [simp]:
  "bm_ttl (expire ts m) = bm_ttl m" "bm_max (expire ts m) = bm_max m"
  "bm_epoch (expire ts m) = bm_epoch m" "bm_tasks (expire ts m) = bm_tasks m"
  "bm_last (expire ts m) = bm_last m" "bm_health (expire ts m) = bm_health m"
  "bm_next (expire ts m) = bm_next m"
  by (simp_all add: expire_def split: prod.splits)

lemma expire_spec:
  "\<exists>old. bm_evidence m = old @ bm_evidence (expire ts m)
    \<and> (\<forall>e \<in> set old. bm_ttl m \<le> ts - fst (snd e))
    \<and> (bm_evidence (expire ts m) \<noteq> [] \<longrightarrow> ts - fst (snd (hd (bm_evidence (expire ts m)))) < bm_ttl m)
    \<and> spent (bm_counts (expire ts m)) = spent (bm_counts m) + int (length old)
    \<and> (\<forall>k. k \<noteq> ''retention_precursors_dropped'' \<longrightarrow>
          cget (bm_counts (expire ts m)) k = cget (bm_counts m) k)"
proof -
  obtain ev c where "expire_loop (bm_ttl m) ts (bm_evidence m) (bm_counts m) = (ev, c)" by fastforce
  with expire_loop_spec [OF this] show ?thesis by (simp add: expire_def)
qed

lemma bm_ok_expire: "bm_ok m \<Longrightarrow> bm_ok (expire ts m)"
proof (rule bm_okI)
  assume m: "bm_ok m"
  obtain old where old: "bm_evidence m = old @ bm_evidence (expire ts m)"
    "spent (bm_counts (expire ts m)) = spent (bm_counts m) + int (length old)"
    "cget (bm_counts (expire ts m)) ''credential_open_hooks''
       = cget (bm_counts m) ''credential_open_hooks''"
    using expire_spec [of m ts] by auto
  have ed: "dict_ok (bm_evidence m)" using bm_okD(4) [OF m] by (simp add: evidence_ok_def)
  show "tasks_ok (expire ts m)" using bm_okD(1) [OF m] by (simp add: tasks_ok_def)
  show "zero_ok (expire ts m)" using bm_okD(2) [OF m] by (simp add: zero_ok_def)
  have "emap (expire ts m) r \<noteq> None \<Longrightarrow> emap m r \<noteq> None" for r
    unfolding map_of_eq_None_iff using old(1) by (metis UnCI list.set_map map_append set_append)
  then show "linked_ok (expire ts m)"
    using bm_okD(3) [OF m] linked_fewer unfolding linked_ok_def expire_simps by blast
  show "evidence_ok (expire ts m)"
    using bm_okD(4) [OF m] unfolding evidence_ok_def old(1)
    by (auto simp: dict_ok_def sorted_append)
  show "accounted (expire ts m)"
    using bm_okD(5) [OF m] old by (simp add: accounted_def)
qed

lemma steady_expire: "steady m (expire ts m)"
  using expire_spec [of m ts] by (auto simp: steady_def)

text \<open>After expiry every pending precursor is younger than the retention.\<close>

lemma expire_young:
  assumes "bm_ok m" and "e \<in> set (bm_evidence (expire ts m))"
  shows "ts - fst (snd e) < bm_ttl m"
proof -
  let ?ev = "bm_evidence (expire ts m)"
  from assms(2) have ne: "?ev \<noteq> []" by auto
  then have "ts - fst (snd (hd ?ev)) < bm_ttl m" using expire_spec [of m ts] by blast
  moreover have "sorted (map (fst \<circ> snd) ?ev)"
    using bm_okD(4) [OF bm_ok_expire [OF assms(1)]] by (simp add: evidence_ok_def)
  then have "fst (snd (hd ?ev)) \<le> fst (snd e)"
    using assms(2) ne by (cases ?ev) auto
  ultimately show ?thesis by simp
qed

subsection \<open>Dropping a family\<close>

lemma drop_family_simps [simp]:
  "bm_ttl (drop_family r k m) = bm_ttl m" "bm_max (drop_family r k m) = bm_max m"
  "bm_epoch (drop_family r k m) = bm_epoch m" "bm_last (drop_family r k m) = bm_last m"
  "bm_health (drop_family r k m) = bm_health m" "bm_next (drop_family r k m) = bm_next m"
  "bm_evidence (drop_family r k m) = dpop r (bm_evidence m)"
  by (simp_all add: drop_family_def)

lemma tmap_drop_family:
  assumes "tasks_ok m"
  shows "tmap (drop_family r k m) s = (case tmap m s of None \<Rightarrow> None
    | Some v \<Rightarrow> if t_root v = Some r \<or> ident_of (bm_epoch m) s v = r then None else Some v)"
  using assms
  by (simp add: drop_family_def map_of_filter_ok tasks_ok_def ident_of_def cong: option.case_cong)
    (simp split: option.splits)

definition drop_reason :: "string \<Rightarrow> bool" where
  "drop_reason k \<longleftrightarrow> k \<in> {''reuse'', ''capacity'', ''exit''}"

lemma drop_reason_key: "drop_reason k \<Longrightarrow> k @ ''_precursors_dropped'' \<in> set spent_keys"
  by (auto simp: drop_reason_def spent_keys_def)

lemma drop_reason_silent: "drop_reason k \<Longrightarrow> k @ ''_precursors_dropped'' \<noteq> ''advisories''"
  by (auto simp: drop_reason_def)

lemma spent_key_plain: "k \<in> set spent_keys \<Longrightarrow> k \<noteq> ''credential_open_hooks'' \<and> k \<noteq> ''unresolved_root_generation''"
  by (auto simp: spent_keys_def)

lemma tasks_ok_filter:
  assumes "tasks_ok m" "bm_tasks m' = filter P (bm_tasks m)" "bm_next m' = bm_next m" "bm_max m' = bm_max m"
  shows "tasks_ok m'"
  using assms by (auto simp: tasks_ok_def dict_ok_filter distinct_map_filter length_filter_bound)

lemma length_dpop:
  assumes "dict_ok d"
  shows "length (dpop k d) + (if map_of d k = None then 0 else 1) = length d"
  using assms
proof (induction d)
  case Nil
  then show ?case by (simp add: dpop_def)
next
  case (Cons e d)
  then have d: "dict_ok d" and new: "map_of d (fst e) = None"
    by (auto simp: dict_ok_def map_of_eq_None_iff)
  show ?case
  proof (cases "fst e = k")
    case True
    then have "dpop k (e # d) = dpop k d" by (simp add: dpop_def)
    with Cons.IH [OF d] True new show ?thesis by (cases e) simp
  next
    case False
    then have "dpop k (e # d) = e # dpop k d" by (simp add: dpop_def)
    with Cons.IH [OF d] False show ?thesis by (cases e) simp
  qed
qed

lemma sorted_dpop: "sorted (map f d) \<Longrightarrow> sorted (map f (dpop k d))"
  by (simp add: dpop_def sorted_filter)

lemma bm_ok_drop_family:
  assumes m: "bm_ok m" and k: "drop_reason k"
  shows "bm_ok (drop_family r k m)"
proof (rule bm_okI)
  note ok = bm_okD [OF m]
  have d: "dict_ok (bm_evidence m)" using ok(4) by (simp add: evidence_ok_def)
  show "tasks_ok (drop_family r k m)"
    by (rule tasks_ok_filter [OF ok(1)]) (simp_all add: drop_family_def)
  show "zero_ok (drop_family r k m)"
    using ok(2) by (auto simp: zero_ok_def drop_family_def)
  show "linked_ok (drop_family r k m)"
    unfolding linked_ok_def drop_family_simps
    by (rule linked_drop [OF ok(3) [unfolded linked_ok_def] tmap_drop_family [OF ok(1)]])
      (simp add: map_of_dpop)
  show "evidence_ok (drop_family r k m)"
    using ok(4) by (auto simp: evidence_ok_def sorted_dpop) (auto simp: dpop_def)
  show "accounted (drop_family r k m)"
    using ok(5) length_dpop [OF d, of r] drop_reason_key [OF k]
      spent_key_plain [OF drop_reason_key [OF k]]
    by (auto simp: accounted_def drop_family_def spent_cadd cget_cadd split: if_splits)
qed

lemma steady_drop_family: "drop_reason k \<Longrightarrow> steady m (drop_family r k m)"
  using spent_key_plain [OF drop_reason_key [of k]] drop_reason_silent [of k]
  by (auto simp: steady_def) (auto simp: dpop_def drop_family_def cget_cadd)

subsection \<open>Assignment through a reference\<close>

lemma mutate_simps [simp]:
  "bm_ttl (mutate v m) = bm_ttl m" "bm_max (mutate v m) = bm_max m"
  "bm_epoch (mutate v m) = bm_epoch m" "bm_evidence (mutate v m) = bm_evidence m"
  "bm_last (mutate v m) = bm_last m" "bm_health (mutate v m) = bm_health m"
  "bm_next (mutate v m) = bm_next m" "bm_counts (mutate v m) = bm_counts m"
  by (simp_all add: mutate_def)

lemma tmap_mutate_eq: "tmap (mutate v m) s =
    map_option (\<lambda>w. if t_oid w = t_oid v then v else w) (tmap m s)"
  unfolding mutate_def by (simp add: map_of_map_entry [of "\<lambda>w. t_oid w = t_oid v" v])

lemma set_mutate: "e \<in> set (bm_tasks (mutate v m)) \<Longrightarrow>
    snd e = v \<or> e \<in> set (bm_tasks m)"
  by (auto simp: mutate_def)

lemma oid_mutate: "map (t_oid \<circ> snd) (bm_tasks (mutate v m)) = map (t_oid \<circ> snd) (bm_tasks m)"
  by (simp add: mutate_def)

lemma dkeys_mutate: "dkeys (bm_tasks (mutate v m)) = dkeys (bm_tasks m)"
  by (simp add: mutate_def)

lemma tasks_ok_mutate: "tasks_ok m \<Longrightarrow> tasks_ok (mutate v m)"
proof -
  assume m: "tasks_ok m"
  have "\<forall>n \<in> set (map (t_oid \<circ> snd) (bm_tasks m)). n < bm_next m"
    using m by (auto simp: tasks_ok_def)
  then have "\<forall>e \<in> set (bm_tasks (mutate v m)). t_oid (snd e) < bm_next m"
    unfolding oid_mutate [of v m, symmetric] by simp
  moreover have "length (bm_tasks (mutate v m)) = length (bm_tasks m)" by (simp add: mutate_def)
  ultimately show ?thesis
    using m by (simp add: tasks_ok_def dict_ok_def dkeys_mutate oid_mutate)
qed

text \<open>An object is the value of one slot: writing to it changes that slot and no other.\<close>

lemma tmap_oid_slot:
  assumes "tasks_ok m" "tmap m s = Some v" "tmap m s' = Some v'" "t_oid v = t_oid v'"
  shows "s = s'"
proof -
  have "inj_on (t_oid \<circ> snd) (set (bm_tasks m))"
    using assms(1) by (simp add: tasks_ok_def distinct_map)
  moreover have "(s, v) \<in> set (bm_tasks m)" "(s', v') \<in> set (bm_tasks m)"
    using assms(2,3) map_of_SomeD by fastforce+
  ultimately have "(s, v) = (s', v')"
    using assms(4) inj_onD [of "t_oid \<circ> snd" _ "(s, v)" "(s', v')"] by simp
  then show ?thesis by simp
qed

lemma tmap_mutate:
  assumes "tasks_ok m" "tmap m s = Some w" "t_oid w = t_oid v"
  shows "tmap (mutate v m) = (tmap m)(s \<mapsto> v)"
proof
  fix s'
  show "tmap (mutate v m) s' = ((tmap m)(s \<mapsto> v)) s'"
  proof (cases "tmap m s'")
    case None
    with assms(2) have "s' \<noteq> s" by auto
    with None show ?thesis by (simp add: tmap_mutate_eq)
  next
    case (Some w')
    have "s' = s" if "t_oid w' = t_oid v"
      using tmap_oid_slot [OF assms(1) Some assms(2)] that assms(3) by simp
    with Some assms(2,3) show ?thesis
      by (cases "s' = s") (auto simp: tmap_mutate_eq)
  qed
qed

lemma tmap_mutate_some:
  assumes "tmap (mutate v m) s = Some w"
  shows "w = v \<or> tmap m s = Some w"
  using assms by (auto simp: tmap_mutate_eq split: if_splits)

subsection \<open>Admission\<close>

text \<open>
  \<open>settled s m m'\<close>: going from \<open>m\<close> to \<open>m'\<close>, the objects that existed before and are not at slot
  \<open>s\<close> are unchanged or gone; new objects have new identities.
\<close>

definition settled :: "slot \<Rightarrow> memory \<Rightarrow> memory \<Rightarrow> bool" where
  "settled s0 m m' \<longleftrightarrow> bm_next m \<le> bm_next m' \<and>
     (\<forall>s v. s \<noteq> s0 \<longrightarrow> tmap m' s = Some v \<longrightarrow> t_oid v < bm_next m \<longrightarrow> tmap m s = Some v)"

lemma settled_refl [simp]: "settled s0 m m"
  by (simp add: settled_def)

lemma settled_trans [trans]: "settled s0 m m' \<Longrightarrow> settled s0 m' m'' \<Longrightarrow> settled s0 m m''"
  unfolding settled_def by (metis less_le_trans le_trans)

lemma settled_count [simp]: "settled s0 m (count k m') = settled s0 m m'"
  by (simp add: settled_def)

lemma settled_clear: "settled s0 m (clear k b m)"
  unfolding settled_def
proof (intro conjI allI impI)
  show "bm_next m \<le> bm_next (clear k b m)" by (simp add: clear_def Let_def)
  fix s v
  assume "tmap (clear k b m) s = Some v" and lt: "t_oid v < bm_next m"
  from map_of_renew [OF this(1) [unfolded clear_tasks]] lt show "tmap m s = Some v" by simp
qed

lemma settled_drop_family:
  assumes "tasks_ok m"
  shows "settled s0 m (drop_family r k m)"
  unfolding settled_def tmap_drop_family [OF assms]
  by (simp split: option.splits if_splits)

definition zero_but :: "slot \<Rightarrow> memory \<Rightarrow> bool" where
  "zero_but s0 m \<longleftrightarrow>
     (\<forall>e \<in> set (bm_tasks m). fst e \<noteq> s0 \<longrightarrow> t_start (snd e) = 0 \<longrightarrow> t_blocked (snd e))"

lemma zero_but_of: "zero_ok m \<Longrightarrow> zero_but s0 m"
  by (simp add: zero_ok_def zero_but_def)

text \<open>Everything of the invariant but the exclusion of unknown start tokens at one slot.\<close>

definition bm_but :: "slot \<Rightarrow> memory \<Rightarrow> bool" where
  "bm_but s0 m \<longleftrightarrow> tasks_ok m \<and> zero_but s0 m \<and> linked_ok m \<and> evidence_ok m \<and> accounted m"

lemma bm_but_of: "bm_ok m \<Longrightarrow> bm_but s0 m"
  by (simp add: bm_ok_def bm_but_def zero_but_of)

lemma bm_ok_of_but:
  assumes "bm_but s0 m" and "tmap m s0 = Some v" and "t_start v \<noteq> 0 \<or> t_blocked v"
  shows "bm_ok m"
proof -
  have "snd e = v" if "e \<in> set (bm_tasks m)" "fst e = s0" for e
  proof -
    have "tmap m s0 = Some (snd e)"
      using assms(1) that by (metis bm_but_def tasks_ok_def dict_ok_map_of prod.collapse)
    with assms(2) show ?thesis by simp
  qed
  then show ?thesis
    using assms by (auto simp: bm_but_def bm_ok_def zero_ok_def zero_but_def)
qed

lemma tmap_None_evidence:
  assumes "linked_ok m" "tmap m (slot_of r) = None"
  shows "emap m r = None"
proof (rule ccontr)
  assume "emap m r \<noteq> None"
  from linkedD_evidence [OF assms(1) [unfolded linked_ok_def] this] obtain p
    where "anchor (bm_epoch m) (tmap m) r = Some p" by blast
  from anchor_slot [OF this] assms(2) show False by simp
qed

end
