(* ===== verification/Behavior_Task.thy ===== *)
theory Behavior_Task
  imports Behavior_Ops
begin

section \<open>The contract of \<open>task\<close>, \<open>root\<close>, \<open>block_thread\<close> and \<open>fork\<close>\<close>

text \<open>
  \<open>task\<close> returns the object that its slot holds afterwards, with the requested start token: the one
  that was there, or a new one that has neither a family nor a precursor.  The other objects are
  untouched or gone.  The lemmas follow the stages of the method.
\<close>

lemmas bm_but_parts = bm_but_def tasks_ok_def

lemma bm_but_tasks: "bm_but s0 m \<Longrightarrow> tasks_ok m"
  by (simp add: bm_but_def)

lemma plain_keys [simp]:
  "plain_key ''cgroup_identity_changed''" "plain_key ''capacity_exhausted''"
  "plain_key ''pid_reuse''" "plain_key ''capacity_tasks_dropped''"
  "plain_key ''unsupported_thread''" "plain_key ''fork_family_invalidated''"
  "plain_key ''verified_fork_edges''" "plain_key ''unresolved_fork''"
  "plain_key ''unresolved_fork_generation''" "plain_key ''missing_fork_identity''"
  "plain_key ''descendant_correlation_unsupported''" "plain_key ''blocked_thread_generation''"
  "plain_key ''leaf_exits''" "plain_key ''untracked_exit''" "plain_key ''health_frames''"
  "plain_key ''health_loss_or_counter_reset''" "plain_key ''uncertain_process''"
  "plain_key ''unresolved_generation''" "plain_key ''invalid_input''" "plain_key ''frames''"
  "plain_key ''unsafe_ordering''" "plain_key ''uncertain_path''" "plain_key ''replay_failed''"
  "plain_key ''ineligible_open_hook''" "plain_key ''uncertain_destination''"
  "plain_key ''unsupported_family''" "plain_key ''loopback_attempts''"
  "plain_key ''unsupported_destination''" "plain_key ''non_loopback_connect_attempts''"
  "plain_key ''connect_without_direct_precursor''" "plain_key ''network_filtered_max''"
  "plain_key ''direct_same_task_only_advisories''" "plain_key ''verified_task_lineage_advisories''"
  by (simp_all add: plain_key_def spent_keys_def)

lemma drop_reasons [simp]: "drop_reason ''reuse''" "drop_reason ''capacity''" "drop_reason ''exit''"
  by (simp_all add: drop_reason_def)

text \<open>A transition of the memory around slot \<open>s0\<close>, as every stage of \<open>task\<close> makes it.\<close>

definition moves :: "slot \<Rightarrow> memory \<Rightarrow> memory \<Rightarrow> bool" where
  "moves s0 m m' \<longleftrightarrow> steady m m' \<and> settled s0 m m'"

lemma moves_refl [simp]: "moves s0 m m"
  by (simp add: moves_def)

lemma moves_trans [trans]: "moves s0 m m' \<Longrightarrow> moves s0 m' m'' \<Longrightarrow> moves s0 m m''"
  by (auto simp: moves_def intro: steady_trans settled_trans)

lemma moves_clear: "plain_key k \<Longrightarrow> moves s0 m (clear k b m)"
  by (simp add: moves_def steady_clear settled_clear)

lemma moves_count: "plain_key k \<Longrightarrow> moves s0 m (count k m)"
  by (simp add: moves_def steady_count)

lemma moves_drop_family: "drop_reason k \<Longrightarrow> tasks_ok m \<Longrightarrow> moves s0 m (drop_family r k m)"
  by (simp add: moves_def steady_drop_family settled_drop_family)

lemma moves_steady: "moves s0 m m' \<Longrightarrow> steady m m'"
  by (simp add: moves_def)

lemma moves_settled: "moves s0 m m' \<Longrightarrow> settled s0 m m'"
  by (simp add: moves_def)

subsection \<open>Resolution\<close>

lemma root_or_drops:
  assumes "tasks_ok m" "tmap m s = Some st"
  shows "tmap (drop_family (root_or st (ident_of (bm_epoch m) s st)) k m) s = None"
  using assms by (simp add: tmap_drop_family root_or_def split: option.split)

lemma task_resolve_some:
  assumes "task_resolve cg pid start m = (m', Some st)"
  shows "m' = m \<and> tmap m (cg, pid) = Some st \<and> (t_start st = 0 \<or> t_start st = start)"
  using assms by (auto simp: task_resolve_def split: option.splits if_splits)

lemma task_resolve_none:
  assumes m: "bm_ok m" and r: "task_resolve cg pid start m = (m', None)"
  shows "bm_ok m' \<and> moves (cg, pid) m m' \<and> tmap m' (cg, pid) = None"
proof (cases "tmap m (cg, pid)")
  case None
  have "tmap (clear k b m) (cg, pid) = None" for k b
    using None by (simp add: clear_tasks map_of_renew_None map_of_filter_ok
        bm_okD(1) [OF m, unfolded tasks_ok_def])
  with None m r show ?thesis
    by (auto simp: task_resolve_def bm_ok_clear moves_clear split: if_splits)
next
  case (Some st)
  let ?m1 = "count ''pid_reuse'' m"
  have m1: "bm_ok ?m1" using m by (simp add: bm_ok_count)
  from Some r have m': "m' = drop_family (root_or st (ident_of (bm_epoch ?m1) (cg, pid) st)) ''reuse'' ?m1"
    by (auto simp: task_resolve_def ident_of_def split: if_splits)
  have "tmap ?m1 (cg, pid) = Some st" using Some by simp
  from root_or_drops [OF bm_okD(1) [OF m1] this] have "tmap m' (cg, pid) = None"
    unfolding m' .
  moreover have "moves (cg, pid) m m'"
    unfolding m' by (rule moves_trans [OF moves_count moves_drop_family])
      (simp_all add: bm_okD(1) [OF m1])
  ultimately show ?thesis
    unfolding m' using m1 by (simp add: bm_ok_drop_family)
qed

subsection \<open>Eviction and creation\<close>

lemma task_evict_ok:
  assumes m: "bm_ok m" and r: "task_evict m = Inr m'"
  shows "bm_ok m' \<and> moves s0 m m' \<and> (tmap m s = None \<longrightarrow> tmap m' s = None)
    \<and> length (bm_tasks m') < length (bm_tasks m)"
proof -
  from r obtain v old where f: "find (\<lambda>e. \<not> t_blocked (snd e)) (bm_tasks m) = Some (v, old)"
    and m': "m' = drop_family (root_or old (ident_of (bm_epoch m) v old)) ''capacity''
        (count ''capacity_tasks_dropped'' m)"
    by (auto simp: task_evict_def ident_of_def split: option.splits)
  let ?m1 = "count ''capacity_tasks_dropped'' m"
  let ?r = "root_or old (ident_of (bm_epoch m) v old)"
  have m1: "bm_ok ?m1" using m by (simp add: bm_ok_count)
  from f have old: "(v, old) \<in> set (bm_tasks m)" by (auto simp: find_Some_iff)
  have mem: "(v, old) \<in> set (bm_tasks ?m1)" using old by simp
  have "t_root old = Some ?r \<or> (bm_epoch ?m1, fst v, snd v, t_start old) = ?r"
    by (simp add: root_or_def ident_of_def split: option.split)
  with mem have "length (bm_tasks m') < length (bm_tasks m)"
    unfolding m' drop_family_def by (auto intro!: length_filter_less)
  moreover have "tmap m s = None \<longrightarrow> tmap m' s = None"
    unfolding m' using tmap_drop_family [OF bm_okD(1) [OF m1]] by simp
  moreover have "moves s0 m m'"
    unfolding m' by (rule moves_trans [OF moves_count moves_drop_family])
      (simp_all add: bm_okD(1) [OF m1])
  ultimately show ?thesis
    unfolding m' using m1 by (simp add: bm_ok_drop_family)
qed

text \<open>A new task: no family, and no precursor, since its slot was free.\<close>

definition newborn :: "slot \<Rightarrow> int \<Rightarrow> tstate \<Rightarrow> memory \<Rightarrow> bool" where
  "newborn s0 start st m \<longleftrightarrow> t_start st = start \<and> t_root st = None \<and> \<not> t_kids st
     \<and> tmap m s0 = Some st \<and> emap m (ident_of (bm_epoch m) s0 st) = None"

lemma task_create_spec:
  assumes m: "bm_ok m" and free: "tmap m (cg, pid) = None"
    and room: "int (length (bm_tasks m)) < bm_max m"
    and c: "task_create cg pid start m = (m', st)"
  shows "bm_but (cg, pid) m' \<and> moves (cg, pid) m m' \<and> newborn (cg, pid) start st m'"
proof -
  let ?s = "(cg, pid)"
  have new: "?s \<notin> set (dkeys (bm_tasks m))" using free by (simp add: map_of_eq_None_iff)
  from c have st: "t_oid st = bm_next m" "t_start st = start" "t_root st = None" "\<not> t_kids st"
    and m': "m' = m\<lparr>bm_tasks := bm_tasks m @ [(?s, st)], bm_next := Suc (bm_next m)\<rparr>"
    by (auto simp: task_create_def Let_def dset_new [OF new])
  have T: "tmap m' = (tmap m)(?s \<mapsto> st)"
  proof
    fix s
    show "tmap m' s = ((tmap m)(?s \<mapsto> st)) s"
      using free by (auto simp: m' map_add_def split: option.splits)
  qed
  note ok = bm_okD [OF m]
  have "tasks_ok m'"
    using ok(1) new room st(1) unfolding tasks_ok_def m' by (auto simp: dict_ok_def)
  moreover have "zero_but ?s m'"
    using ok(2) by (auto simp: zero_ok_def zero_but_def m')
  moreover have "linked_ok m'"
    unfolding linked_ok_def T using linked_add [OF ok(3) [unfolded linked_ok_def] free st(3)]
    by (simp add: m')
  moreover have "evidence_ok m'" "accounted m'"
    using ok(4,5) by (simp_all add: evidence_ok_def accounted_def m')
  moreover have "emap m' (ident_of (bm_epoch m') ?s st) = None"
    using tmap_None_evidence [OF ok(3), of "ident_of (bm_epoch m) ?s st"] free by (simp add: m')
  moreover have "moves ?s m m'"
    by (auto simp: moves_def steady_def settled_def T) (simp_all add: m')
  ultimately show ?thesis
    using st by (simp add: bm_but_def newborn_def T)
qed

lemma task_admit_spec:
  assumes m: "bm_ok m" and free: "tmap m (cg, pid) = None"
    and a: "task_admit cg pid start m = (m', r)"
  shows "moves (cg, pid) m m' \<and> (case r of
      Inl e \<Rightarrow> bm_ok m' \<and> bm_tasks m' = []
    | Inr st \<Rightarrow> bm_but (cg, pid) m' \<and> newborn (cg, pid) start st m')"
proof -
  have new: "(cg, pid) \<notin> set (dkeys (bm_tasks m))" using free by (simp add: map_of_eq_None_iff)
  show ?thesis
  proof (cases "bm_max m \<le> int (length (bm_tasks m))")
    case False
    obtain m1 st where c: "task_create cg pid start m = (m1, st)" by fastforce
    with a False have "m' = m1" "r = Inr st" by (simp_all add: task_admit_def)
    with task_create_spec [OF m free _ c] False show ?thesis by simp
  next
    case full: True
    show ?thesis
    proof (cases "task_evict m")
      case (Inl e)
      with a full new have "m' = clear ''capacity_exhausted'' False m" "r = Inl e"
        by (simp_all add: task_admit_def)
      with m show ?thesis by (simp add: bm_ok_clear moves_clear clear_tasks)
    next
      case (Inr m1)
      from task_evict_ok [OF m Inr, of "(cg, pid)" "(cg, pid)"] free
      have m1: "bm_ok m1" "moves (cg, pid) m m1" "tmap m1 (cg, pid) = None"
        "length (bm_tasks m1) < length (bm_tasks m)" by auto
      have room: "int (length (bm_tasks m1)) < bm_max m1"
        using m1(2,4) bm_okD(1) [OF m] by (simp add: tasks_ok_def moves_def steady_def)
      obtain m2 st where c: "task_create cg pid start m1 = (m2, st)" by fastforce
      with a full new Inr have "m' = m2" "r = Inr st" by (simp_all add: task_admit_def)
      with task_create_spec [OF m1(1,3) room c] m1(2) moves_trans show ?thesis by auto
    qed
  qed
qed

lemma set_move_to_end: "dict_ok d \<Longrightarrow> set (move_to_end k d) = set d"
  by (auto simp: move_to_end_def dpop_def dict_ok_map_of split: option.splits)

lemma distinct_map_move_to_end:
  "dict_ok d \<Longrightarrow> distinct (map g d) \<Longrightarrow> distinct (map g (move_to_end k d))"
  using dict_ok_move_to_end [of d k] by (simp add: distinct_map set_move_to_end dict_ok_def)

lemma length_move_to_end: "dict_ok d \<Longrightarrow> length (move_to_end k d) = length d"
  using dict_ok_move_to_end [of d k] set_move_to_end [of d k]
  by (simp add: dict_ok_def distinct_map) (metis distinct_card)

lemma dict_entry_of_oid:
  assumes "tasks_ok m" "tmap m s = Some v" "e \<in> set (bm_tasks m)" "t_oid (snd e) = t_oid v"
  shows "fst e = s"
proof -
  have "tmap m (fst e) = Some (snd e)"
    using assms(1,3) by (simp add: tasks_ok_def dict_ok_map_of [symmetric])
  from tmap_oid_slot [OF assms(1) this assms(2,4)] show ?thesis .
qed

subsection \<open>The end of \<open>task\<close>\<close>

lemma task_touch_spec:
  assumes m: "bm_but (cg, pid) m" and st: "tmap m (cg, pid) = Some st"
    and z: "t_start st = 0 \<Longrightarrow> t_blocked st \<or> start = 0"
    and t: "task_touch cg pid start st m = (m', st')"
  shows "bm_but (cg, pid) m' \<and> moves (cg, pid) m m' \<and> tmap m' (cg, pid) = Some st'
    \<and> st' = (if t_start st = 0 then st\<lparr>t_start := start\<rparr> else st)
    \<and> bm_evidence m' = bm_evidence m"
proof -
  let ?s = "(cg, pid)"
  let ?m1 = "mutate st' m"
  from t have st': "st' = (if t_start st = 0 then st\<lparr>t_start := start\<rparr> else st)"
    and m': "m' = ?m1\<lparr>bm_tasks := move_to_end ?s (bm_tasks ?m1)\<rparr>"
    by (auto simp: task_touch_def Let_def)
  have oid: "t_oid st = t_oid st'" using st' by simp
  have tk: "tasks_ok m" using m by (rule bm_but_tasks)
  have T: "tmap m' = (tmap m)(?s \<mapsto> st')"
    using tmap_mutate [OF tk st oid] by (simp add: m' map_of_move_to_end fun_eq_iff)
  have tm: "tasks_ok ?m1" using tk by (rule tasks_ok_mutate)
  have set': "set (bm_tasks m') = set (bm_tasks ?m1)"
    using tm by (simp add: m' set_move_to_end tasks_ok_def)
  have "tasks_ok m'"
    using tm by (simp add: tasks_ok_def set' distinct_map_move_to_end length_move_to_end)
      (simp add: m' distinct_map_move_to_end length_move_to_end)
  moreover have "zero_but ?s m'"
    using m set_mutate [of _ st' m] dict_entry_of_oid [OF tk st] oid
    by (fastforce simp: zero_but_def bm_but_def set' mutate_def)
  moreover have "linked (bm_epoch m) ((tmap m)(?s \<mapsto> st')) (emap m)"
  proof (cases "t_start st = 0 \<and> start \<noteq> 0")
    case True
    with z st' have "t_blocked st" "t_root st' = t_root st" by auto
    with m st show ?thesis by (intro linked_blocked) (simp_all add: bm_but_def linked_ok_def)
  next
    case False
    with st' have "st' = st" by auto
    with m st show ?thesis by (simp add: bm_but_def linked_ok_def fun_upd_idem)
  qed
  then have "linked_ok m'" unfolding linked_ok_def T by (simp add: m')
  moreover have "evidence_ok m'" "accounted m'"
    using m by (simp_all add: bm_but_def evidence_ok_def accounted_def m')
  moreover have "moves ?s m m'"
    by (auto simp: moves_def steady_def settled_def T) (simp_all add: m')
  ultimately show ?thesis
    using st' by (simp add: bm_but_def T) (simp add: m')
qed

text \<open>
  The contract of \<open>task\<close>.  \<open>admitted\<close>: the returned object is at its slot with the requested token,
  and is either the one that was there or a newborn.
\<close>

definition admitted :: "slot \<Rightarrow> int \<Rightarrow> memory \<Rightarrow> memory \<Rightarrow> tstate \<Rightarrow> bool" where
  "admitted s0 start m m' st \<longleftrightarrow> tmap m' s0 = Some st \<and> t_start st = start
     \<and> ((\<exists>st0. tmap m s0 = Some st0 \<and> (t_start st0 = 0 \<or> t_start st0 = start)
           \<and> st = st0\<lparr>t_start := start\<rparr> \<and> bm_evidence m' = bm_evidence m)
        \<or> newborn s0 start st m')"

lemma task_spec:
  assumes m: "bm_ok m" and t: "task cg pid start m = (m', r)"
  shows "moves (cg, pid) m m' \<and> (case r of
      Inl e \<Rightarrow> bm_ok m' \<and> bm_tasks m' = []
    | Inr st \<Rightarrow> bm_but (cg, pid) m' \<and> admitted (cg, pid) start m m' st)"
proof -
  obtain m1 o1 where res: "task_resolve cg pid start m = (m1, o1)" by fastforce
  show ?thesis
  proof (cases o1)
    case (Some st)
    from task_resolve_some [OF res [unfolded Some]]
    have st: "m1 = m" "tmap m (cg, pid) = Some st" "t_start st = 0 \<or> t_start st = start" by auto
    obtain m2 st' where touch: "task_touch cg pid start st m = (m2, st')" by fastforce
    have z: "t_start st = 0 \<Longrightarrow> t_blocked st \<or> start = 0"
      using bm_okD(2) [OF m] st(2) by (fastforce simp: zero_ok_def dest: map_of_SomeD)
    from t res Some st(1) touch have r: "m' = m2" "r = Inr st'" by (simp_all add: task_def)
    from task_touch_spec [OF bm_but_of [OF m] st(2) z touch] st(2,3) r show ?thesis
      by (auto simp: admitted_def)
  next
    case None
    from task_resolve_none [OF m res [unfolded None]]
    have m1: "bm_ok m1" "moves (cg, pid) m m1" "tmap m1 (cg, pid) = None" by auto
    obtain m2 r2 where adm: "task_admit cg pid start m1 = (m2, r2)" by fastforce
    from task_admit_spec [OF m1(1,3) adm] have sp: "moves (cg, pid) m1 m2"
      "case r2 of Inl e \<Rightarrow> bm_ok m2 \<and> bm_tasks m2 = []
        | Inr st \<Rightarrow> bm_but (cg, pid) m2 \<and> newborn (cg, pid) start st m2" by auto
    have mv: "moves (cg, pid) m m2" using m1(2) sp(1) by (rule moves_trans)
    show ?thesis
    proof (cases r2)
      case (Inl e)
      with t res None adm have "m' = m2" "r = Inl e" by (simp_all add: task_def)
      with mv sp(2) Inl show ?thesis by simp
    next
      case (Inr st)
      with sp(2) have nb: "bm_but (cg, pid) m2" "newborn (cg, pid) start st m2" by auto
      obtain m3 st' where touch: "task_touch cg pid start st m2 = (m3, st')" by fastforce
      from t res None adm Inr touch have r: "m' = m3" "r = Inr st'" by (simp_all add: task_def)
      from nb(2) have sl: "tmap m2 (cg, pid) = Some st" "t_start st = start"
        by (simp_all add: newborn_def)
      from task_touch_spec [OF nb(1) sl(1) _ touch] sl(2)
      have sp3: "bm_but (cg, pid) m3" "moves (cg, pid) m2 m3" "tmap m3 (cg, pid) = Some st'"
        "st' = st" "bm_evidence m3 = bm_evidence m2" by (auto split: if_splits)
      have "newborn (cg, pid) start st m3"
        using nb(2) sp3 by (simp add: newborn_def moves_def steady_def)
      moreover have "moves (cg, pid) m m3" using mv sp3(2) by (rule moves_trans)
      ultimately show ?thesis
        using sp3 r sl(2) by (simp add: admitted_def)
    qed
  qed
qed

lemma task_ok:
  assumes "bm_ok m" "task cg pid start m = (m', Inr st)" "start \<noteq> 0"
  shows "bm_ok m'" "admitted (cg, pid) start m m' st" "moves (cg, pid) m m'"
proof -
  from task_spec [OF assms(1,2)] show a: "admitted (cg, pid) start m m' st"
    and "moves (cg, pid) m m'" by simp_all
  from task_spec [OF assms(1,2)] a assms(3) show "bm_ok m'"
    by (auto simp: admitted_def intro: bm_ok_of_but)
qed

subsection \<open>Roots\<close>

text \<open>In a memory that satisfies the invariant every recorded root resolves.\<close>

lemma root_of_ok:
  assumes m: "bm_ok m" and st: "tmap m s = Some st"
  shows "root_of key st m = (m, Some (root_or st key))"
proof (cases "t_root st")
  case None
  then show ?thesis by (simp add: root_of_def root_or_def)
next
  case (Some r)
  from linkedD_root [OF bm_okD(3) [OF m, unfolded linked_ok_def] st Some] obtain p
    where "anchor (bm_epoch m) (tmap m) r = Some p" by blast
  from anchor_slot [OF this] Some show ?thesis
    by (cases r) (auto simp: root_of_def root_or_def slot_of_def ident_of_def)
qed

text \<open>The root of an admitted, unblocked task carries evidence legitimately.\<close>

lemma root_or_anchor:
  assumes m: "bm_ok m" and st: "tmap m s = Some st" "\<not> t_blocked st"
  shows "\<exists>p. anchor (bm_epoch m) (tmap m) (root_or st (ident_of (bm_epoch m) s st)) = Some p
    \<and> (t_root p = None \<or> t_root p = Some (root_or st (ident_of (bm_epoch m) s st)))"
proof (cases "t_root st")
  case None
  with anchorI [of "tmap m", OF st] show ?thesis by (simp add: root_or_def)
next
  case (Some r)
  from linkedD_root [OF bm_okD(3) [OF m, unfolded linked_ok_def] st(1) Some] Some
  show ?thesis by (auto simp: root_or_def)
qed

subsection \<open>Threads\<close>

lemma mutate_block_ok:
  assumes m: "bm_but s0 m" and st: "tmap m s0 = Some st" and nr: "\<not> t_blocked st \<longrightarrow> bare m"
  shows "bm_ok (mutate (st\<lparr>t_blocked := True\<rparr>) m)"
proof (rule bm_ok_of_but [of s0])
  let ?m = "mutate (st\<lparr>t_blocked := True\<rparr>) m"
  have tk: "tasks_ok m" using m by (rule bm_but_tasks)
  have T: "tmap ?m = (tmap m)(s0 \<mapsto> st\<lparr>t_blocked := True\<rparr>)"
    by (rule tmap_mutate [OF tk st]) simp
  then show "tmap ?m s0 = Some (st\<lparr>t_blocked := True\<rparr>)" by simp
  show "t_start (st\<lparr>t_blocked := True\<rparr>) \<noteq> 0 \<or> t_blocked (st\<lparr>t_blocked := True\<rparr>)" by simp
  have "zero_but s0 ?m"
    using m by (auto simp: zero_but_def bm_but_def mutate_def)
  moreover have "linked_ok ?m"
  proof (cases "t_blocked st")
    case True
    then have "st\<lparr>t_blocked := True\<rparr> = st" by simp
    with T st m show ?thesis by (simp add: linked_ok_def bm_but_def fun_upd_idem)
  next
    case False
    with nr have "bare m" by simp
    moreover from this st have "t_root st = None"
      by (fastforce simp: bare_def dest: map_of_SomeD)
    ultimately have "bare ?m"
      by (auto simp: bare_def dest!: set_mutate)
    then show ?thesis by (rule bare_linked)
  qed
  ultimately show "bm_but s0 ?m"
    using m tasks_ok_mutate [OF tk] by (simp add: bm_but_def evidence_ok_def accounted_def)
qed

lemma bare_count [simp]: "bare (count k m) = bare m"
  by (simp add: bare_def)

lemma bare_drop_family: "bare m \<Longrightarrow> bare (drop_family r k m)"
  by (auto simp: bare_def drop_family_def dpop_def)

lemma bare_resolve: "bare m \<Longrightarrow> task_resolve cg pid start m = (m', o') \<Longrightarrow> bare m'"
  by (auto simp: task_resolve_def bare_clear bare_drop_family split: option.splits if_splits)

lemma bare_evict: "bare m \<Longrightarrow> task_evict m = Inr m' \<Longrightarrow> bare m'"
  by (auto simp: task_evict_def bare_drop_family split: option.splits)

lemma set_dset: "e \<in> set (dset k v d) \<Longrightarrow> e = (k, v) \<or> e \<in> set d"
  by (induction k v d rule: dset.induct) (auto split: if_splits)

lemma bare_step:
  assumes "bare m" "bm_evidence m' = bm_evidence m"
    and "\<And>e. e \<in> set (bm_tasks m') \<Longrightarrow> t_root (snd e) = None \<or> e \<in> set (bm_tasks m)"
  shows "bare m'"
  using assms unfolding bare_def by metis

lemma bare_create: "bare m \<Longrightarrow> task_create cg pid start m = (m', st) \<Longrightarrow> bare m'"
proof -
  assume b: "bare m" and "task_create cg pid start m = (m', st)"
  then have m': "bm_tasks m' = dset (cg, pid) st (bm_tasks m)" "bm_evidence m' = bm_evidence m"
    and st: "t_root st = None" by (auto simp: task_create_def Let_def)
  show "bare m'"
    by (rule bare_step [OF b m'(2)]) (use m'(1) st set_dset [of _ "(cg, pid)" st] in fastforce)
qed

lemma bare_admit: "bare m \<Longrightarrow> task_admit cg pid start m = (m', r) \<Longrightarrow> bare m'"
proof -
  assume b: "bare m" and a: "task_admit cg pid start m = (m', r)"
  have new: "bare (fst (task_create cg pid start x))" if "bare x" for x
    using that by (cases "task_create cg pid start x") (simp add: bare_create)
  show "bare m'"
  proof (cases "(cg, pid) \<notin> set (dkeys (bm_tasks m)) \<and> bm_max m \<le> int (length (bm_tasks m))")
    case False
    then have "m' = fst (task_create cg pid start m)"
      using a unfolding task_admit_def if_not_P [OF False] by (metis fst_apsnd fst_conv)
    with new [OF b] show ?thesis by simp
  next
    case True
    show ?thesis
    proof (cases "task_evict m")
      case (Inl e)
      with a True have "m' = clear ''capacity_exhausted'' False m" by (simp add: task_admit_def)
      then show ?thesis by (simp add: bare_clear)
    next
      case (Inr m1)
      with a True have "m' = fst (task_create cg pid start m1)"
        unfolding task_admit_def if_P [OF True] by (simp, metis fst_apsnd fst_conv)
      with new [OF bare_evict [OF b Inr]] show ?thesis by simp
    qed
  qed
qed

lemma set_move_to_end_sub: "e \<in> set (move_to_end k d) \<Longrightarrow> e \<in> set d"
  by (auto simp: move_to_end_def dpop_def split: option.splits dest: map_of_SomeD)

lemma bare_touch:
  assumes "bare m" "t_root st = None" "task_touch cg pid start st m = (m', st')"
  shows "bare m'"
proof (rule bare_step [OF assms(1)])
  from assms(3) have st': "t_root st' = None" and m': "bm_evidence m' = bm_evidence m"
      "bm_tasks m' = move_to_end (cg, pid) (bm_tasks (mutate st' m))"
    using assms(2) by (auto simp: task_touch_def Let_def)
  show "bm_evidence m' = bm_evidence m" by (rule m')
  fix e
  assume "e \<in> set (bm_tasks m')"
  from set_mutate [OF set_move_to_end_sub [OF this [unfolded m'(2)]]] st'
  show "t_root (snd e) = None \<or> e \<in> set (bm_tasks m)" by metis
qed

lemma bare_task:
  assumes m: "bm_ok m" "bare m" and t: "task cg pid start m = (m', Inr st)"
  shows "bare m'"
proof -
  obtain m1 o1 where res: "task_resolve cg pid start m = (m1, o1)" by fastforce
  have b1: "bare m1" using m(2) res by (rule bare_resolve)
  show ?thesis
  proof (cases o1)
    case (Some s)
    have "tmap m (cg, pid) = Some s" using task_resolve_some [OF res [unfolded Some]] by simp
    then have "t_root s = None" using m(2) by (fastforce simp: bare_def dest: map_of_SomeD)
    with t res Some b1 bare_touch show ?thesis
      by (cases "task_touch cg pid start s m1") (auto simp: task_def)
  next
    case None
    with t res obtain m2 s where adm: "task_admit cg pid start m1 = (m2, Inr s)"
      by (cases "task_admit cg pid start m1") (auto simp: task_def split: sum.splits)
    from task_resolve_none [OF m(1) res [unfolded None]] have "bm_ok m1" "tmap m1 (cg, pid) = None"
      by auto
    from task_admit_spec [OF this adm] have "t_root s = None" by (simp add: newborn_def)
    with t res None adm bare_admit [OF b1 adm] bare_touch show ?thesis
      by (cases "task_touch cg pid start s m2") (auto simp: task_def)
  qed
qed

lemma block_thread_ok:
  assumes m: "bm_ok m" and b: "block_thread cg tgid m = (m', r)"
  shows "bm_ok m' \<and> steady m m' \<and>
    (\<forall>u. r = Inr u \<longrightarrow> (\<exists>v. tmap m' (cg, tgid) = Some v \<and> t_blocked v))"
proof -
  let ?start = "case tmap m (cg, tgid) of None \<Rightarrow> 0 | Some st \<Rightarrow> t_start st"
  let ?m1 = "clear ''unsupported_thread'' True m"
  have m1: "bm_ok ?m1" using m by (simp add: bm_ok_clear)
  obtain m2 r2 where t: "task cg tgid ?start ?m1 = (m2, r2)" by fastforce
  note sp = task_spec [OF m1 t]
  have st: "steady m m2"
    using moves_steady [OF moves_clear [of "''unsupported_thread''" "(cg, tgid)" m True]]
      moves_steady [OF conjunct1 [OF sp]] by (auto intro: steady_trans)
  show ?thesis
  proof (cases r2)
    case (Inl e)
    with b t sp st show ?thesis by (auto simp: block_thread_def)
  next
    case (Inr s)
    with b t have m': "m' = mutate (s\<lparr>t_blocked := True\<rparr>) m2" by (auto simp: block_thread_def)
    from sp Inr have bb: "bm_but (cg, tgid) m2" and s: "tmap m2 (cg, tgid) = Some s"
      by (auto simp: admitted_def)
    have "bare m2" using bare_task [OF m1 bare_clear t [unfolded Inr]] .
    from mutate_block_ok [OF bb s] this have "bm_ok m'" unfolding m' by blast
    moreover have "steady m m'" using st by (simp add: m' steady_def)
    moreover have "tmap m' (cg, tgid) = Some (s\<lparr>t_blocked := True\<rparr>)"
      unfolding m' using tmap_mutate [OF bm_but_tasks [OF bb] s, of "s\<lparr>t_blocked := True\<rparr>"] by simp
    ultimately show ?thesis by simp
  qed
qed

end
