(* ===== verification/Behavior_Observe.thy ===== *)
theory Behavior_Observe
  imports Behavior_Task
begin

section \<open>\<open>observe\<close> keeps the invariant, and what it answers\<close>

text \<open>
  One lemma per block of \<open>observe\<close>, then the method itself, as the step of a machine whose outputs
  are the advisories.  \<open>fork_child\<close> is where two objects are linked: the edge keeps every anchor.
\<close>

subsection \<open>Fork edges\<close>

lemma tasks_ok_oid: "tasks_ok m \<Longrightarrow> tmap m s = Some v \<Longrightarrow> t_oid v < bm_next m"
  unfolding tasks_ok_def by (metis map_of_SomeD snd_conv)

lemma edge_ok:
  assumes m: "bm_ok m" and p: "tmap m sp = Some st" "\<not> t_blocked st"
    and c: "newborn sc start cst m" "start \<noteq> 0" and ne: "sc \<noteq> sp"
    and r: "r = root_or st (ident_of (bm_epoch m) sp st)"
  shows "bm_ok (mutate (cst\<lparr>t_root := Some r\<rparr>) (mutate (st\<lparr>t_root := Some r, t_kids := True\<rparr>) m))"
proof (rule bm_okI)
  let ?p = "st\<lparr>t_root := Some r, t_kids := True\<rparr>" and ?c = "cst\<lparr>t_root := Some r\<rparr>"
  let ?m1 = "mutate ?p m"
  let ?m2 = "mutate ?c ?m1"
  note ok = bm_okD [OF m]
  have T1: "tmap ?m1 = (tmap m)(sp \<mapsto> ?p)"
    by (rule tmap_mutate [OF ok(1) p(1)]) simp
  have tk1: "tasks_ok ?m1" using ok(1) by (rule tasks_ok_mutate)
  from c(1) have cst: "tmap m sc = Some cst" "t_root cst = None"
    "emap m (ident_of (bm_epoch m) sc cst) = None" by (simp_all add: newborn_def)
  have c1: "tmap ?m1 sc = Some cst" using cst(1) ne by (simp add: T1)
  have T2: "tmap ?m2 = (tmap ?m1)(sc \<mapsto> ?c)"
    by (rule tmap_mutate [OF tk1 c1]) simp
  show "tasks_ok ?m2" using tk1 by (rule tasks_ok_mutate)
  have r': "r = (case t_root st of None \<Rightarrow> ident_of (bm_epoch m) sp st | Some r \<Rightarrow> r)"
    by (simp add: r root_or_def)
  from linked_parent [OF ok(3) [unfolded linked_ok_def] p r', of ?p] p(2)
  have L1: "linked (bm_epoch m) (tmap ?m1) (emap m)"
    and "\<exists>q. anchor (bm_epoch m) (tmap ?m1) r = Some q \<and> t_root q = Some r"
    unfolding T1 by simp_all
  then obtain q where q: "anchor (bm_epoch m) (tmap ?m1) r = Some q" "t_root q = Some r" by blast
  have "linked (bm_epoch m) (tmap ?m2) (emap m)"
    unfolding T2 by (rule linked_child [OF L1 c1 cst(2,3) q]) simp
  then show "linked_ok ?m2" by (simp add: linked_ok_def)
  have "t_blocked ?p \<or> t_start ?p \<noteq> 0"
    using ok(2) p(1) by (fastforce simp: zero_ok_def dest: map_of_SomeD)
  moreover have "t_start ?c \<noteq> 0" using c by (simp add: newborn_def)
  ultimately show "zero_ok ?m2"
    using ok(2) set_mutate [of _ ?c ?m1] set_mutate [of _ ?p m] unfolding zero_ok_def by metis
  show "evidence_ok ?m2" "accounted ?m2"
    using ok(4,5) by (simp_all add: evidence_ok_def accounted_def)
qed

lemma fork_child_ok:
  assumes m: "bm_ok m" and p: "tmap m (cg, pid) = Some st" "\<not> t_blocked st"
    and key: "key = ident_of (bm_epoch m) (cg, pid) st" and rid: "rid = root_or st key"
    and ne: "child \<noteq> pid" "start \<noteq> 0"
    and old: "\<And>v. tmap m (cg, child) = Some v \<Longrightarrow> t_start v \<noteq> start \<and> t_start v \<noteq> 0"
    and f: "fork_child cg pid child start key st rid m = (m', r)"
  shows "bm_ok m' \<and> steady m m'"
proof -
  obtain m2 r2 where t: "task cg child start m = (m2, r2)" by fastforce
  show ?thesis
  proof (cases r2)
    case (Inl e)
    with task_spec [OF m t] f t show ?thesis by (auto simp: fork_child_def moves_steady)
  next
    case (Inr cst)
    note t' = t [unfolded Inr]
    note m2 = task_ok [OF m t' ne(2)]
    have nb: "newborn (cg, child) start cst m2"
      using m2(2) old by (auto simp: admitted_def)
    have st2: "steady m m2" using m2(3) by (rule moves_steady)
    show ?thesis
    proof (cases "map_option t_oid (tmap m2 (cg, pid)) = Some (t_oid st)")
      case False
      with f t' have "m' = clear ''fork_family_invalidated'' True m2"
        by (auto simp: fork_child_def)
      with m2(1) st2 show ?thesis
        by (auto simp: bm_ok_clear intro: steady_then)
    next
      case True
      then obtain v where v: "tmap m2 (cg, pid) = Some v" "t_oid v = t_oid st" by auto
      have "t_oid v < bm_next m" using tasks_ok_oid [OF bm_okD(1) [OF m] p(1)] v(2) by simp
      with moves_settled [OF m2(3)] v(1) ne(1) have "tmap m (cg, pid) = Some v"
        unfolding settled_def by (metis prod.inject)
      with p(1) v(1) have p2: "tmap m2 (cg, pid) = Some st" by simp
      have ep: "bm_epoch m2 = bm_epoch m" using st2 by (simp add: steady_def)
      have rid2: "rid = root_or st (ident_of (bm_epoch m2) (cg, pid) st)"
        using rid key ep by simp
      let ?e = "mutate (cst\<lparr>t_root := Some rid\<rparr>) (mutate (st\<lparr>t_root := Some rid, t_kids := True\<rparr>) m2)"
      from f t' True root_of_ok [OF m2(1) p2, of key]
      have m': "m' = count ''verified_fork_edges'' ?e"
        by (auto simp: fork_child_def split: if_splits)
      have "bm_ok ?e"
        by (rule edge_ok [OF m2(1) p2 p(2) nb ne(2) _ rid2]) (use ne(1) in simp)
      moreover have "steady m2 m'" unfolding m' by (simp add: steady_def cget_cadd)
      ultimately show ?thesis
        using st2 unfolding m' by (auto simp: bm_ok_count intro: steady_trans)
    qed
  qed
qed

lemma fork_ok:
  assumes m: "bm_ok m" and p: "tmap m (cg, pid) = Some st" "t_start st = start"
    and f: "fork event (bm_epoch m, cg, pid, start) st flags m = (m', r)"
  shows "bm_ok m' \<and> steady m m'"
proof -
  define key where "key = (bm_epoch m, cg, pid, start)"
  define child where "child = rd 4 event 92"
  define cstart where "cstart = rd 8 event 104"
  have key': "key = ident_of (bm_epoch m) (cg, pid) st" using p(2) by (simp add: key_def ident_of_def)
  have cl: "bm_ok (clear k b m) \<and> steady m (clear k b m)" if "plain_key k" for k b
    using m that by (simp add: bm_ok_clear steady_clear)
  have ro: "root_of key st m = (m, Some (root_or st key))" by (rule root_of_ok [OF m p(1)])
  let ?u = "count ''descendant_correlation_unsupported'' m"
  have cu: "bm_ok (clear ''missing_fork_identity'' True ?u)
      \<and> steady m (clear ''missing_fork_identity'' True ?u)"
    using m by (auto simp: bm_ok_clear bm_ok_count intro!: steady_trans [OF steady_count steady_clear])
  have ct: "bm_ok (count ''blocked_thread_generation'' m) \<and> steady m (count ''blocked_thread_generation'' m)"
    using m by (simp add: bm_ok_count steady_count)
  have bt: "bm_ok x \<and> steady m x" if "block_thread cg pid m = (x, y)" for x y
    using block_thread_ok [OF m that] by simp
  have fc: "bm_ok x \<and> steady m x"
    if "fork_child cg pid child cstart key st (root_or st key) m = (x, y)" "child \<noteq> pid" "cstart \<noteq> 0"
      "\<not> t_blocked st" "\<And>v. tmap m (cg, child) = Some v \<Longrightarrow> t_start v \<noteq> cstart \<and> t_start v \<noteq> 0" for x y
    by (rule fork_child_ok [OF m p(1) that(4) key' refl that(2,3,5,1)])
  show ?thesis
  proof (cases "rd 4 event 88 \<noteq> pid \<or> child = 0 \<or> child = rd 4 event 88 \<or> flags AND 2048 = 0
      \<or> rd 4 event 96 \<noteq> 0 \<or> rd 4 event 100 = 0 \<or> cstart = 0")
    case True
    with f cl [of "''unresolved_fork''" True] cl [of "''unresolved_fork_generation''" True] cu
    show ?thesis
      unfolding fork_def child_def cstart_def key_def [symmetric]
      by (simp add: Let_def key_def child_def cstart_def split: if_splits)
  next
    case guards: False
    show ?thesis
    proof (cases "child \<noteq> rd 4 event 100 \<or> t_blocked st")
      case True
      with f guards bt ct show ?thesis
        by (simp add: fork_def Let_def child_def cstart_def split: if_splits)
    next
      case False
      have
        "(case tmap m (cg, child) of
            Some old \<Rightarrow> (if t_start old = cstart \<or> t_start old = 0
              then (clear ''unresolved_fork_generation'' True m, Inr ())
              else fork_child cg pid child cstart key st (root_or st key) m)
          | None \<Rightarrow> fork_child cg pid child cstart key st (root_or st key) m) = (m', r)"
        using f guards False ro unfolding child_def cstart_def key_def by (simp add: fork_def Let_def)
      with fc [of m' r] cl [of "''unresolved_fork_generation''" True] guards False show ?thesis
        by (auto split: option.splits if_splits)
    qed
  qed
qed

subsection \<open>The blocks of \<open>observe\<close>\<close>

lemma health_tail_ok:
  assumes "bm_ok m" and "m' = (count ''health_frames'' (m\<lparr>bm_health := hl\<rparr>))
      \<lparr>bm_counts := dset ''network_filtered_max'' n (cadd ''health_frames'' 1 (bm_counts m))\<rparr>"
  shows "bm_ok m' \<and> steady m m'"
  using assms
  by (simp add: bm_ok_def tasks_ok_def zero_ok_def linked_ok_def evidence_ok_def accounted_def
      spent_def spent_keys_def cget_dset cget_cadd steady_def)

lemma observe_health_ok:
  assumes m: "bm_ok m"
  shows "bm_ok (observe_health event m) \<and> steady m (observe_health event m)"
proof -
  let ?c = "clear ''health_loss_or_counter_reset'' True m"
  let ?loss = "take 3 (health_values event) @ drop 4 (health_values event)"
  have c: "bm_ok ?c" "steady m ?c"
    using m by (simp_all add: bm_ok_clear steady_clear)
  show ?thesis
  proof (cases "(bm_health m = None \<and> list_ex (\<lambda>v. v \<noteq> 0) ?loss)
      \<or> (bm_health m \<noteq> None \<and> bm_health m \<noteq> Some ?loss)")
    case True
    have "bm_ok (observe_health event m) \<and> steady ?c (observe_health event m)"
      by (rule health_tail_ok [OF c(1)]) (simp only: observe_health_def Let_def if_P [OF True], simp)
    with c(2) show ?thesis by (blast intro: steady_trans)
  next
    case False
    show ?thesis
      by (rule health_tail_ok [OF m]) (simp only: observe_health_def Let_def if_not_P [OF False], simp)
  qed
qed

lemma observe_exit_ok:
  assumes m: "bm_ok m" and st: "tmap m (cg, pid) = Some st"
    and key: "key = ident_of (bm_epoch m) (cg, pid) st"
  shows "bm_ok (observe_exit cg pid key st m) \<and> steady m (observe_exit cg pid key st m)"
proof (cases "t_root st \<noteq> None \<and> \<not> t_kids st \<and> t_root st \<noteq> Some key")
  case False
  then have "observe_exit cg pid key st m = drop_family (root_or st key) ''exit'' m"
    unfolding observe_exit_def by (rule if_not_P)
  then show ?thesis using m by (simp add: bm_ok_drop_family steady_drop_family)
next
  case True
  let ?m = "m\<lparr>bm_tasks := dpop (cg, pid) (bm_tasks m)\<rparr>"
  note ok = bm_okD [OF m]
  from True obtain q where q: "t_root st = Some q" "q \<noteq> key" by auto
  have T: "tmap ?m = (tmap m)((cg, pid) := None)" by (auto simp: map_of_dpop)
  have "tasks_ok ?m" by (rule tasks_ok_filter [OF ok(1)]) (simp_all add: dpop_def)
  moreover have "zero_ok ?m" using ok(2) by (auto simp: zero_ok_def dpop_def)
  moreover have "linked_ok ?m"
    unfolding linked_ok_def T
    using linked_leaf [OF ok(3) [unfolded linked_ok_def] st q(1)] q(2) key by simp
  ultimately have "bm_ok ?m"
    using ok(4,5) by (simp add: bm_ok_def evidence_ok_def accounted_def)
  moreover have "steady m ?m" by (simp add: steady_def)
  ultimately show ?thesis
    using True by (auto simp: observe_exit_def bm_ok_count intro: steady_then)
qed

text \<open>An eligible credential open, as the conjunction of the guards of its block.\<close>

definition opens_credential :: "bytes \<Rightarrow> header \<Rightarrow> bool" where
  "opens_credential event h \<longleftrightarrow> h_flags h AND 7 = 0 \<and> 0 \<in> set (bslice event 120 376)
     \<and> rd 4 event 116 = 1 \<and> h_result h = 0 \<and> rd 4 event 112 AND 1 \<noteq> 0
     \<and> credential (open_path event)"

lemma observe_open_cases:
  "observe_open event h key rid m =
    (if opens_credential event h then count ''credential_open_hooks''
       (m\<lparr>bm_evidence := dpop rid (bm_evidence m) @ [(rid, h_ts h, key)]\<rparr>)
     else observe_open event h key rid m)
   \<and> (\<not> opens_credential event h \<longrightarrow> observe_open event h key rid m \<in>
      {m, count ''uncertain_path'' m, count ''ineligible_open_hook'' m})"
  using dset_new [of rid "dpop rid (bm_evidence m)" "(h_ts h, key)"]
  by (auto simp: observe_open_def opens_credential_def Let_def dkeys_dpop)

lemma observe_open_evidence:
  assumes "x \<in> set (bm_evidence (observe_open event h key rid m))"
  shows "x \<in> set (bm_evidence m) \<or> opens_credential event h \<and> x = (rid, h_ts h, key)"
  using assms observe_open_cases [of event h key rid m]
  by (cases "opens_credential event h") (auto simp: dpop_def)

lemma observe_open_ok:
  assumes m: "bm_ok m" and st: "tmap m s = Some st" "\<not> t_blocked st"
    and rid: "rid = root_or st (ident_of (bm_epoch m) s st)" and ts: "bm_last m = Some (h_ts h)"
  shows "bm_ok (observe_open event h key rid m)"
proof (cases "opens_credential event h")
  case False
  with observe_open_cases [of event h key rid m] m show ?thesis by (auto simp: bm_ok_count)
next
  case True
  let ?ev = "dpop rid (bm_evidence m) @ [(rid, h_ts h, key)]"
  from observe_open_cases [of event h key rid m] True
  have eq: "observe_open event h key rid m = count ''credential_open_hooks'' (m\<lparr>bm_evidence := ?ev\<rparr>)"
    by simp
  note ok = bm_okD [OF m]
  have E: "map_of ?ev = (emap m)(rid \<mapsto> (h_ts h, key))"
    by (auto simp: map_add_def map_of_dpop split: option.splits)
  from root_or_anchor [OF m st] rid obtain p where p: "anchor (bm_epoch m) (tmap m) rid = Some p"
    "t_root p = None \<or> t_root p = Some rid" by blast
  have "linked (bm_epoch m) (tmap m) (map_of ?ev)"
    unfolding E by (rule linked_insert [OF ok(3) [unfolded linked_ok_def] p])
  moreover have "evidence_ok (m\<lparr>bm_evidence := ?ev\<rparr>)"
  proof -
    have old: "\<forall>e \<in> set (dpop rid (bm_evidence m)). fst (snd e) \<le> h_ts h"
      using ok(4) ts by (auto simp: evidence_ok_def dpop_def)
    moreover have "dict_ok ?ev"
      using ok(4) by (auto simp: evidence_ok_def dict_ok_def dkeys_dpop)
    moreover have "sorted (map (fst \<circ> snd) ?ev)"
      using old ok(4) by (auto simp: evidence_ok_def sorted_append sorted_dpop)
    ultimately show ?thesis using ts by (auto simp: evidence_ok_def)
  qed
  moreover have "spent (cadd ''credential_open_hooks'' 1 (bm_counts m)) = spent (bm_counts m)"
    by (rule spent_other) (simp add: spent_keys_def)
  moreover have "length (dpop rid (bm_evidence m)) \<le> length (bm_evidence m)"
    by (rule length_dpop_le)
  ultimately show ?thesis
    using ok unfolding eq bm_ok_def
    by (simp add: tasks_ok_def zero_ok_def linked_ok_def evidence_ok_def accounted_def cget_cadd)
qed

lemma observe_open_frame:
  "bm_epoch (observe_open event h key rid m) = bm_epoch m
   \<and> bm_ttl (observe_open event h key rid m) = bm_ttl m
   \<and> bm_max (observe_open event h key rid m) = bm_max m
   \<and> cget (bm_counts (observe_open event h key rid m)) ''unresolved_root_generation''
      = cget (bm_counts m) ''unresolved_root_generation''
   \<and> cget (bm_counts (observe_open event h key rid m)) ''advisories''
      = cget (bm_counts m) ''advisories''"
  by (simp add: observe_open_def Let_def cget_cadd)

lemma connect_refusal_plain: "connect_refusal event h = Some k \<Longrightarrow> plain_key k"
  by (auto simp: connect_refusal_def Let_def split: if_splits)

text \<open>What an advisory says, given the memory it was drawn from.\<close>

definition advised :: "memory \<Rightarrow> bytes \<Rightarrow> header \<Rightarrow> ident \<Rightarrow> advisory \<Rightarrow> bool" where
  "advised m event h key a \<longleftrightarrow> connect_refusal event h = None
     \<and> (a_root a, a_precursor_ns a, a_precursor a) \<in> set (bm_evidence m)
     \<and> a_precursor_ns a < a_attempt_ns a \<and> a_attempt_ns a = h_ts h \<and> a_identity a = key
     \<and> a_scope a = (if a_precursor a = key then ''direct_same_task_only''
                    else ''verified_task_lineage'')
     \<and> a_episode a = cget (bm_counts m) ''advisories'' + 1"

text \<open>The memory after an advisory was drawn: as \<open>steady\<close>, with one advisory more.\<close>

definition spending :: "memory \<Rightarrow> memory \<Rightarrow> bool" where
  "spending m m' \<longleftrightarrow> bm_epoch m' = bm_epoch m \<and> bm_ttl m' = bm_ttl m \<and> bm_max m' = bm_max m
     \<and> bm_last m' = bm_last m \<and> set (bm_evidence m') \<subseteq> set (bm_evidence m)
     \<and> cget (bm_counts m') ''unresolved_root_generation''
         = cget (bm_counts m) ''unresolved_root_generation''
     \<and> cget (bm_counts m') ''advisories'' = cget (bm_counts m) ''advisories'' + 1"

lemma linked_dpop: "linked ep T (map_of d) \<Longrightarrow> linked ep T (map_of (dpop r d))"
  by (erule linked_fewer) (simp add: map_of_dpop split: if_splits)

lemma observe_connect_ok:
  assumes m: "bm_ok m" and c: "observe_connect event h key rid m = (m', y)"
  shows "bm_ok m' \<and> (y = None \<longrightarrow> steady m m') \<and> (\<forall>a. y = Some a \<longrightarrow> advised m event h key a
    \<and> a_root a = rid \<and> emap m' rid = None \<and> spending m m')"
proof (cases "connect_refusal event h")
  case (Some k)
  with connect_refusal_plain [OF this] m c show ?thesis
    by (auto simp: observe_connect_def bm_ok_count steady_count)
next
  case None
  let ?m1 = "count ''non_loopback_connect_attempts'' m"
  have m1: "bm_ok ?m1" "steady m ?m1" using m by (simp_all add: bm_ok_count steady_count)
  show ?thesis
  proof (cases "emap m rid")
    case no: None
    with None c have "m' = count ''connect_without_direct_precursor'' ?m1" "y = None"
      by (simp_all add: observe_connect_def)
    with m1 show ?thesis by (auto simp: bm_ok_count intro: steady_then)
  next
    case (Some p)
    obtain pts src where p: "p = (pts, src)" by fastforce
    show ?thesis
    proof (cases "h_ts h \<le> pts")
      case True
      with None Some p c have "m' = clear ''unsafe_ordering'' True ?m1" "y = None"
        by (simp_all add: observe_connect_def)
      with m1 show ?thesis by (auto simp: bm_ok_clear intro: steady_then)
    next
      case False
      let ?m2 = "count ''advisories'' (?m1\<lparr>bm_evidence := dpop rid (bm_evidence ?m1)\<rparr>)"
      let ?scope = "if src = key then ''direct_same_task_only'' else ''verified_task_lineage''"
      let ?m3 = "count (?scope @ ''_advisories'') ?m2"
      note ok = bm_okD [OF m1(1)]
      have "dict_ok (bm_evidence ?m1)" using ok(4) by (simp add: evidence_ok_def)
      from length_dpop [OF this, of rid] Some
      have len: "length (dpop rid (bm_evidence m)) + 1 = length (bm_evidence m)" by simp
      have sp: "spent (cadd ''advisories'' 1 (bm_counts ?m1)) = spent (bm_counts ?m1) + 1"
        by (rule spent_cadd) (simp add: spent_keys_def)
      have "linked_ok ?m2"
        using linked_dpop [OF ok(3) [unfolded linked_ok_def]] by (simp add: linked_ok_def)
      moreover have "evidence_ok ?m2"
        using ok(4) by (auto simp: evidence_ok_def sorted_dpop) (auto simp: dpop_def)
      moreover have "accounted ?m2"
        using ok(5) len sp by (simp add: accounted_def cget_cadd)
      moreover have "tasks_ok ?m2" "zero_ok ?m2"
        using ok(1,2) by (simp_all add: tasks_ok_def zero_ok_def)
      ultimately have m2: "bm_ok ?m2" by (simp add: bm_ok_def)
      have "spending m ?m3" by (auto simp: spending_def cget_cadd dpop_def)
      moreover have "bm_ok ?m3" using m2 by (auto intro!: bm_ok_count)
      moreover from None Some p False c have "m' = ?m3" "y = Some \<lparr>a_scope = ?scope,
          a_identity = key, a_precursor = src, a_root = rid, a_precursor_ns = pts,
          a_attempt_ns = h_ts h, a_episode = cget (bm_counts ?m3) ''advisories''\<rparr>"
        by (auto simp: observe_connect_def advise_def Let_def)
      moreover have "cget (bm_counts ?m3) ''advisories'' = cget (bm_counts m) ''advisories'' + 1"
        by (auto simp: cget_cadd)
      moreover have "(rid, pts, src) \<in> set (bm_evidence m)"
        using Some p by (simp add: map_of_SomeD)
      moreover have "emap ?m3 rid = None" by (simp add: map_of_dpop)
      ultimately show ?thesis
        using None False by (simp add: advised_def)
    qed
  qed
qed

subsection \<open>\<open>observe\<close> as a whole\<close>

definition leader :: "header \<Rightarrow> bool" where
  "leader h \<longleftrightarrow> h_flags h AND 1536 = 0 \<and> h_pid h \<noteq> 0 \<and> h_tgid h = h_pid h \<and> h_start h \<noteq> 0"

definition source_of :: "string \<Rightarrow> header \<Rightarrow> ident" where
  "source_of ep h = (ep, h_cgroup h, h_pid h, h_start h)"

text \<open>
  What happens to the memory between the check of the order and the answer: the evidence grows by
  the precursor of an eligible open of a leader at most, and an advisory is drawn from it.
\<close>

definition tracked :: "memory \<Rightarrow> bytes \<Rightarrow> memory \<Rightarrow> advisory option res \<Rightarrow> bool" where
  "tracked m event m' r \<longleftrightarrow> (let h = unpack_header event; key = source_of (bm_epoch m) h in
     bm_ok m' \<and> bm_epoch m' = bm_epoch m \<and> bm_ttl m' = bm_ttl m \<and> bm_max m' = bm_max m
     \<and> bm_last m' = bm_last m
     \<and> cget (bm_counts m') ''unresolved_root_generation''
        = cget (bm_counts m) ''unresolved_root_generation''
     \<and> cget (bm_counts m') ''advisories'' = cget (bm_counts m) ''advisories''
        + (case r of Inr (Some a) \<Rightarrow> 1 | _ \<Rightarrow> 0)
     \<and> (\<forall>x \<in> set (bm_evidence m'). x \<in> set (bm_evidence m)
          \<or> h_kind h = 6 \<and> leader h \<and> opens_credential event h \<and> snd x = (h_ts h, key))
     \<and> (\<forall>a. r = Inr (Some a) \<longrightarrow> h_kind h = 8 \<and> leader h
          \<and> emap m' (a_root a) = None \<and> (\<exists>m1. steady m m1 \<and> advised m1 event h key a)))"

lemma tracked_quiet:
  assumes "bm_ok m'" "steady m m'" "\<And>a. r \<noteq> Inr (Some a)"
  shows "tracked m event m' r"
  using assms by (auto simp: tracked_def Let_def steady_def split: sum.split option.split)

lemma tracked_after:
  assumes "steady m m1" "tracked m1 event m' r"
  shows "tracked m event m' r"
  using assms unfolding tracked_def Let_def
  by (auto simp: steady_def) (metis (no_types, lifting) steady_def steady_trans subset_iff)+

lemma observe_task_ok:
  assumes m: "bm_ok m" and st: "tmap m (h_cgroup h, h_pid h) = Some st" "t_start st = h_start h"
    and ts: "bm_last m = Some (h_ts h)" and h: "h = unpack_header event" and ld: "leader h"
    and o: "observe_task event h st m = (m', r)"
  shows "tracked m event m' r"
proof -
  define key where "key = source_of (bm_epoch m) h"
  have key': "(bm_epoch m, h_cgroup h, h_pid h, h_start h) = key"
    by (simp add: key_def source_of_def)
  have kid: "key = ident_of (bm_epoch m) (h_cgroup h, h_pid h) st"
    using st(2) by (simp add: key_def source_of_def ident_of_def)
  consider "h_kind h = 3" | "h_kind h = 1" | "h_kind h \<noteq> 3" "h_kind h \<noteq> 1" "t_blocked st"
    | "h_kind h \<noteq> 3" "h_kind h \<noteq> 1" "\<not> t_blocked st" by blast
  then show ?thesis
  proof cases
    case 1
    with o key' have "m' = observe_exit (h_cgroup h) (h_pid h) key st m" "r = Inr None"
      by (auto simp: observe_task_def)
    with observe_exit_ok [OF m st(1) kid] show ?thesis by (simp add: tracked_quiet)
  next
    case 2
    obtain x y where f: "fork event key st (h_flags h) m = (x, y)" by fastforce
    with 2 o key' have "m' = x" "\<And>a. r \<noteq> Inr (Some a)"
      by (auto simp: observe_task_def Let_def split: sum.splits)
    with fork_ok [OF m st f [folded key']] show ?thesis by (simp add: tracked_quiet)
  next
    case 3
    with o have "m' = count ''blocked_thread_generation'' m" "r = Inr None"
      by (auto simp: observe_task_def Let_def)
    with m show ?thesis by (simp add: tracked_quiet bm_ok_count steady_count)
  next
    case 4
    define rid where "rid = root_or st key"
    have ro: "root_of key st m = (m, Some rid)" unfolding rid_def by (rule root_of_ok [OF m st(1)])
    consider "h_kind h = 6" | "h_kind h = 8" | "h_kind h \<noteq> 6" "h_kind h \<noteq> 8" by blast
    then show ?thesis
    proof cases
      case 1
      with o 4 ro key' have m': "m' = observe_open event h key rid m" and r: "r = Inr None"
        by (auto simp: observe_task_def Let_def)
      have "bm_ok m'"
        unfolding m' by (rule observe_open_ok [OF m st(1) 4(3) rid_def [unfolded kid] ts])
      moreover have "bm_last m' = bm_last m" by (simp add: m' observe_open_def Let_def)
      ultimately show ?thesis
        using observe_open_frame [of event h key rid m]
          observe_open_evidence [of _ event h key rid m] 1 ld r
        unfolding tracked_def Let_def h [symmetric] key_def [symmetric] m' by fastforce
    next
      case 2
      obtain y where c: "observe_connect event h key rid m = (m', y)" and r: "r = Inr y"
        using o 4 2 ro key' by (cases "observe_connect event h key rid m")
          (auto simp: observe_task_def Let_def)
      from observe_connect_ok [OF m c] 2 ld r show ?thesis
        unfolding tracked_def Let_def h [symmetric] key_def [symmetric]
        by (cases y) (auto simp: steady_def spending_def intro: exI [of _ m])
    next
      case 3
      with o 4 ro key' have "m' = m" "r = Inr None" by (auto simp: observe_task_def Let_def)
      with m show ?thesis by (simp add: tracked_quiet)
    qed
  qed
qed

lemma observe_ordered_ok:
  assumes m: "bm_ok m" and ts: "bm_last m = Some (h_ts h)" and h: "h = unpack_header event"
    and o: "observe_ordered event h m = (m', r)"
  shows "tracked m event m' r"
proof -
  have cl: "tracked m event (clear k True m) (Inr None)" if "plain_key k" for k
    using m that by (simp add: tracked_quiet bm_ok_clear steady_clear)
  consider (health) "h_kind h = 14" | (flags) "h_kind h \<noteq> 14" "h_flags h AND 1536 \<noteq> 0"
    | (zero) "h_kind h \<noteq> 14" "h_flags h AND 1536 = 0" "h_pid h = 0 \<or> h_tgid h = 0 \<or> h_start h = 0"
    | (thread) "h_kind h \<noteq> 14" "h_flags h AND 1536 = 0" "\<not> (h_pid h = 0 \<or> h_tgid h = 0 \<or> h_start h = 0)"
        "h_pid h \<noteq> h_tgid h"
    | (lead) "h_kind h \<noteq> 14" "leader h"
    unfolding leader_def by metis
  then show ?thesis
  proof cases
    case health
    with o have "m' = observe_health event m" "r = Inr None" by (auto simp: observe_ordered_def)
    with observe_health_ok [OF m] show ?thesis by (simp add: tracked_quiet)
  next
    case flags
    with o have "m' = clear ''uncertain_process'' True m" "r = Inr None"
      by (auto simp: observe_ordered_def)
    with cl show ?thesis by simp
  next
    case zero
    with o have "m' = clear ''unresolved_generation'' True m" "r = Inr None"
      by (auto simp: observe_ordered_def)
    with cl show ?thesis by simp
  next
    case thread
    obtain x y where b: "block_thread (h_cgroup h) (h_tgid h) m = (x, y)" by fastforce
    with thread o have "m' = x" "\<And>a. r \<noteq> Inr (Some a)"
      by (auto simp: observe_ordered_def split: sum.splits)
    with block_thread_ok [OF m b] show ?thesis by (simp add: tracked_quiet)
  next
    case lead
    define m1 where "m1 = (if h_kind h = 3 \<and> (h_cgroup h, h_pid h) \<notin> set (dkeys (bm_tasks m))
        then count ''untracked_exit'' m else m)"
    have m1: "bm_ok m1" "steady m m1"
      using m by (simp_all add: m1_def bm_ok_count steady_count)
    obtain m2 r2 where t: "task (h_cgroup h) (h_pid h) (h_start h) m1 = (m2, r2)" by fastforce
    have ldr: "h_flags h AND 1536 = 0" "h_pid h \<noteq> 0" "h_tgid h = h_pid h" "h_start h \<noteq> 0"
      using lead(2) by (simp_all add: leader_def)
    have eq: "(case task (h_cgroup h) (h_pid h) (h_start h) m1 of
        (m2, Inl e) \<Rightarrow> (m2, Inl e) | (m2, Inr st) \<Rightarrow> observe_task event h st m2) = (m', r)"
      using o lead(1) ldr unfolding observe_ordered_def m1_def by (simp add: Let_def)
    show ?thesis
    proof (cases r2)
      case (Inl e)
      from task_spec [OF m1(1) t] Inl have "bm_ok m2" "steady m1 m2" by (auto simp: moves_steady)
      moreover from eq t Inl have "m' = m2" "r = Inl e" by simp_all
      ultimately show ?thesis using m1(2) by (auto intro: tracked_quiet steady_trans)
    next
      case (Inr st)
      note m2 = task_ok [OF m1(1) t [unfolded Inr] ldr(4)]
      have st: "tmap m2 (h_cgroup h, h_pid h) = Some st" "t_start st = h_start h"
        using m2(2) by (simp_all add: admitted_def)
      have sd: "steady m m2" using m1(2) moves_steady [OF m2(3)] by (rule steady_trans)
      have ts2: "bm_last m2 = Some (h_ts h)" using sd ts by (simp add: steady_def)
      have "observe_task event h st m2 = (m', r)"
        using eq t Inr by simp
      from tracked_after [OF sd observe_task_ok [OF m2(1) st ts2 h lead(2) this]] show ?thesis .
    qed
  qed
qed

end
