(* ===== verification/Behavior_Properties.thy ===== *)
theory Behavior_Properties
  imports Behavior_Observe
begin

section \<open>What the advisory replay guarantees\<close>

text \<open>
  \<open>observe\<close> as an \<open>output_machine\<close>: the invariant is kept by every event and every advisory is
  \<open>sound\<close>.  The properties of runs follow: where an advisory comes from, the bounds of the tracker,
  the accounting of precursors, the numbering of the episodes; then what single kinds of events do,
  and the equality of \<open>replay\<close> over a framed source with a run over its payloads.
\<close>

subsection \<open>One event\<close>

definition precursor_event :: "string \<Rightarrow> bytes \<Rightarrow> int \<Rightarrow> ident \<Rightarrow> bool" where
  "precursor_event ep e t src \<longleftrightarrow> (let h = unpack_header e in
     valid_event e \<and> h_kind h = 6 \<and> leader h \<and> opens_credential e h
     \<and> h_ts h = t \<and> source_of ep h = src)"

definition attempt_event :: "string \<Rightarrow> bytes \<Rightarrow> int \<Rightarrow> ident \<Rightarrow> bool" where
  "attempt_event ep e t src \<longleftrightarrow> (let h = unpack_header e in
     valid_event e \<and> h_kind h = 8 \<and> leader h \<and> connect_refusal e h = None
     \<and> h_ts h = t \<and> source_of ep h = src)"

definition sound :: "memory \<Rightarrow> bytes \<Rightarrow> advisory \<Rightarrow> bool" where
  "sound m e a \<longleftrightarrow> attempt_event (bm_epoch m) e (a_attempt_ns a) (a_identity a)
     \<and> (a_root a, a_precursor_ns a, a_precursor a) \<in> set (bm_evidence m)
     \<and> a_precursor_ns a < a_attempt_ns a \<and> a_attempt_ns a - a_precursor_ns a < bm_ttl m
     \<and> a_scope a = (if a_precursor a = a_identity a then ''direct_same_task_only''
                    else ''verified_task_lineage'')
     \<and> a_episode a = cget (bm_counts m) ''advisories'' + 1"

definition observed :: "memory \<Rightarrow> bytes \<Rightarrow> memory \<Rightarrow> advisory option res \<Rightarrow> bool" where
  "observed m e m' r \<longleftrightarrow> bm_ok m' \<and> bm_epoch m' = bm_epoch m \<and> bm_ttl m' = bm_ttl m
     \<and> bm_max m' = bm_max m
     \<and> cget (bm_counts m') ''unresolved_root_generation''
        = cget (bm_counts m) ''unresolved_root_generation''
     \<and> cget (bm_counts m') ''advisories'' = cget (bm_counts m) ''advisories''
        + (case r of Inr (Some a) \<Rightarrow> 1 | _ \<Rightarrow> 0)
     \<and> (\<forall>q t src. (q, t, src) \<in> set (bm_evidence m') \<longrightarrow> (q, t, src) \<in> set (bm_evidence m)
          \<or> precursor_event (bm_epoch m) e t src)
     \<and> (\<forall>a. r = Inr (Some a) \<longrightarrow> sound m e a \<and> emap m' (a_root a) = None)"

lemma observed_quiet:
  assumes "bm_ok m'" "steady m m'" "\<And>a. r \<noteq> Inr (Some a)"
  shows "observed m e m' r"
  using assms by (auto simp: observed_def steady_def split: sum.split option.split)

lemma bm_ok_later:
  assumes "bm_ok m" "bm_last m = None \<or> (\<exists>l. bm_last m = Some l \<and> l \<le> t)"
  shows "bm_ok (m\<lparr>bm_last := Some t\<rparr>)"
proof -
  have "evidence_ok (m\<lparr>bm_last := Some t\<rparr>)"
    using bm_okD(4) [OF assms(1)] assms(2) by (fastforce simp: evidence_ok_def)
  with assms(1) show ?thesis
    by (simp add: bm_ok_def tasks_ok_def zero_ok_def linked_ok_def accounted_def)
qed

lemma observe_observed:
  assumes m: "bm_ok m" and o: "observe m e = (m', r)"
  shows "observed m e m' r"
proof -
  define h where "h = unpack_header e"
  have inv: "observed m e (clear ''invalid_input'' True m) (Inl x)" for x
    using m by (simp add: observed_quiet bm_ok_clear steady_clear)
  show ?thesis
  proof (cases "length e < 88 \<or> \<not> valid_event e")
    case True
    with o inv show ?thesis by (auto simp: observe_def split: if_splits)
  next
    case valid: False
    let ?m1 = "count ''frames'' m"
    have m1: "bm_ok ?m1" using m by (simp add: bm_ok_count)
    show ?thesis
    proof (cases "case bm_last ?m1 of None \<Rightarrow> False | Some l \<Rightarrow> h_ts h < l")
      case True
      let ?c = "clear ''unsafe_ordering'' True ?m1"
      have c: "bm_ok ?c" using m1 by (simp add: bm_ok_clear)
      have "steady m ?c" using steady_then(2) [OF steady_count] by simp
      from o valid True have m': "m' = ?c\<lparr>bm_last := Some (h_ts h)\<rparr>" "r = Inr None"
        unfolding h_def by (auto simp: observe_def Let_def split: option.splits)
      have "bm_ok m'"
        using c unfolding m' by (simp add: bm_ok_def tasks_ok_def zero_ok_def linked_ok_def
            accounted_def evidence_ok_def)
      then show ?thesis
        using \<open>steady m ?c\<close> unfolding m' by (auto simp: observed_def steady_def)
    next
      case False
      let ?m2 = "?m1\<lparr>bm_last := Some (h_ts h)\<rparr>"
      let ?m3 = "expire (h_ts h) ?m2"
      have m2: "bm_ok ?m2" using False by (intro bm_ok_later [OF m1]) (auto split: option.splits)
      have m3: "bm_ok ?m3" using m2 by (rule bm_ok_expire)
      have st: "steady ?m2 ?m3" by (rule steady_expire)
      have "observe_ordered e h ?m3 = (m', r)"
        using o valid False unfolding h_def
        by (auto simp: observe_def Let_def split: option.splits if_splits)
      from observe_ordered_ok [OF m3 _ h_def this] have tr: "tracked ?m3 e m' r" by simp
      have ep: "bm_epoch ?m3 = bm_epoch m" "bm_ttl ?m3 = bm_ttl m" "bm_max ?m3 = bm_max m" by simp_all
      have ct: "cget (bm_counts ?m3) ''advisories'' = cget (bm_counts m) ''advisories''"
        "cget (bm_counts ?m3) ''unresolved_root_generation''
           = cget (bm_counts m) ''unresolved_root_generation''"
        and ev: "set (bm_evidence ?m3) \<subseteq> set (bm_evidence m)"
        using st by (simp_all add: steady_def cget_cadd)
      have snd: "sound m e a" if a: "r = Inr (Some a)" for a
      proof -
        from tr a obtain m4 where m4: "h_kind h = 8" "leader h" "steady ?m3 m4"
          "advised m4 e h (source_of (bm_epoch m) h) a"
          unfolding tracked_def Let_def h_def [symmetric] ep by blast
        from m4(3,4) have in3: "(a_root a, a_precursor_ns a, a_precursor a) \<in> set (bm_evidence ?m3)"
          by (auto simp: advised_def steady_def)
        from expire_young [OF m2 in3] m4(4) have "a_attempt_ns a - a_precursor_ns a < bm_ttl m"
          by (simp add: advised_def)
        with in3 ev m4 ct(1) valid show ?thesis
          by (auto simp: sound_def attempt_event_def Let_def advised_def steady_def h_def)
      qed
      show ?thesis
        unfolding observed_def
      proof (intro conjI allI impI)
        fix q t src
        assume "(q, t, src) \<in> set (bm_evidence m')"
        with tr have "(q, t, src) \<in> set (bm_evidence ?m3) \<or> h_kind h = 6 \<and> leader h
            \<and> opens_credential e h \<and> (t, src) = (h_ts h, source_of (bm_epoch m) h)"
          unfolding tracked_def Let_def h_def [symmetric] ep by fastforce
        with ev valid show "(q, t, src) \<in> set (bm_evidence m) \<or> precursor_event (bm_epoch m) e t src"
          by (auto simp: precursor_event_def Let_def h_def)
      qed (use tr ct snd ep in \<open>auto simp: tracked_def Let_def\<close>)
    qed
  qed
qed

interpretation bm: output_machine observe bm_ok
    "\<lambda>m e y. \<forall>a. y = Some a \<longrightarrow> sound m e a"
proof unfold_locales
  fix m e y
  assume m: "bm_ok m"
  obtain m' r where o: "observe m e = (m', r)" by fastforce
  from observe_observed [OF m o] o show "bm_ok (fst (observe m e))" by (simp add: observed_def)
  assume "snd (observe m e) = Inr y"
  with observe_observed [OF m o] o show "\<forall>a. y = Some a \<longrightarrow> sound m e a"
    by (auto simp: observed_def)
qed

subsection \<open>Runs\<close>

lemma init_fields:
  assumes "init scaled mt se uuid = Inr m"
  shows "bm_tasks m = [] \<and> bm_evidence m = [] \<and> bm_counts m = [] \<and> bm_last m = None
    \<and> bm_health m = None \<and> 1 \<le> bm_ttl m \<and> 1 \<le> bm_max m"
  using assms by (auto simp: init_def split: option.splits limit_arg.splits if_splits)

lemma init_bm_ok: "init scaled mt se uuid = Inr m \<Longrightarrow> bm_ok m"
  using init_fields [of scaled mt se uuid m] bare_linked [of m]
  by (simp add: bm_ok_def tasks_ok_def zero_ok_def bare_def evidence_ok_def
      accounted_def spent_def spent_keys_def)

text \<open>Every pending precursor was opened by an event of the history.\<close>

definition explained :: "bytes list \<Rightarrow> memory \<Rightarrow> bool" where
  "explained hs m \<longleftrightarrow> (\<forall>q t src. (q, t, src) \<in> set (bm_evidence m) \<longrightarrow>
     (\<exists>i < length hs. precursor_event (bm_epoch m) (hs ! i) t src))"

definition drawn :: "string \<Rightarrow> int \<Rightarrow> bytes list \<Rightarrow> advisory \<Rightarrow> bool" where
  "drawn ep ttl es a \<longleftrightarrow> (\<exists>i j. i < j \<and> j < length es
     \<and> precursor_event ep (es ! i) (a_precursor_ns a) (a_precursor a)
     \<and> attempt_event ep (es ! j) (a_attempt_ns a) (a_identity a))
     \<and> a_precursor_ns a < a_attempt_ns a \<and> a_attempt_ns a - a_precursor_ns a < ttl
     \<and> a_scope a = (if a_precursor a = a_identity a then ''direct_same_task_only''
                    else ''verified_task_lineage'')"

lemma drawn_step:
  assumes ex: "explained hs m" and s: "sound m e a"
  shows "drawn (bm_epoch m) (bm_ttl m) (hs @ e # es) a"
proof -
  from ex s obtain i where i: "i < length hs"
    "precursor_event (bm_epoch m) (hs ! i) (a_precursor_ns a) (a_precursor a)"
    unfolding explained_def sound_def by blast
  have "(hs @ e # es) ! i = hs ! i" "(hs @ e # es) ! length hs = e"
    using i(1) by (simp_all add: nth_append)
  moreover from s have "attempt_event (bm_epoch m) e (a_attempt_ns a) (a_identity a)"
    by (simp add: sound_def)
  ultimately have "\<exists>i j. i < j \<and> j < length (hs @ e # es)
      \<and> precursor_event (bm_epoch m) ((hs @ e # es) ! i) (a_precursor_ns a) (a_precursor a)
      \<and> attempt_event (bm_epoch m) ((hs @ e # es) ! j) (a_attempt_ns a) (a_identity a)"
    using i by (intro exI [of _ i] exI [of _ "length hs"]) simp
  with s show ?thesis unfolding drawn_def sound_def by simp
qed

lemma explained_step:
  assumes ex: "explained hs m" and o: "observed m e m' r"
  shows "explained (hs @ [e]) m'"
  unfolding explained_def
proof (intro allI impI)
  fix q t src
  assume "(q, t, src) \<in> set (bm_evidence m')"
  with o have new: "(q, t, src) \<in> set (bm_evidence m) \<or> precursor_event (bm_epoch m) e t src"
    and ep: "bm_epoch m' = bm_epoch m" by (auto simp: observed_def)
  from new show "\<exists>i < length (hs @ [e]). precursor_event (bm_epoch m') ((hs @ [e]) ! i) t src"
  proof
    assume "(q, t, src) \<in> set (bm_evidence m)"
    with ex obtain i where "i < length hs" "precursor_event (bm_epoch m) (hs ! i) t src"
      unfolding explained_def by blast
    with ep show ?thesis by (intro exI [of _ i]) (simp add: nth_append)
  next
    assume "precursor_event (bm_epoch m) e t src"
    with ep show ?thesis by (intro exI [of _ "length hs"]) simp
  qed
qed

lemma run_drawn:
  "bm_ok m \<Longrightarrow> explained hs m \<Longrightarrow> run_until observe m es = (m', ys, x) \<Longrightarrow>
     Some a \<in> set ys \<Longrightarrow> drawn (bm_epoch m) (bm_ttl m) (hs @ es) a"
proof (induction es arbitrary: hs m ys)
  case Nil
  then show ?case by simp
next
  case (Cons e es)
  obtain m1 r where o: "observe m e = (m1, r)" by fastforce
  note ob = observe_observed [OF Cons.prems(1) o]
  show ?case
  proof (cases r)
    case (Inl err)
    with Cons.prems(3,4) o show ?thesis by auto
  next
    case (Inr y)
    obtain m2 zs x2 where run: "run_until observe m1 es = (m2, zs, x2)" by (metis prod_cases3)
    with Cons.prems(3) o Inr have ys: "ys = y # zs" and fin: "run_until observe m1 es = (m', zs, x)"
      by auto
    show ?thesis
    proof (cases "y = Some a")
      case True
      with ob Inr have "sound m e a" by (simp add: observed_def)
      from drawn_step [OF Cons.prems(2) this] show ?thesis .
    next
      case False
      with ys Cons.prems(4) have a: "Some a \<in> set zs" by auto
      have "bm_ok m1" "bm_epoch m1 = bm_epoch m" "bm_ttl m1 = bm_ttl m"
        using ob by (simp_all add: observed_def)
      with Cons.IH [OF _ explained_step [OF Cons.prems(2) ob] fin a] show ?thesis by simp
    qed
  qed
qed

text \<open>Advisories are numbered consecutively.\<close>

fun advisories :: "advisory option list \<Rightarrow> advisory list" where
  "advisories [] = []"
| "advisories (None # ys) = advisories ys"
| "advisories (Some a # ys) = a # advisories ys"

lemma run_episodes:
  "bm_ok m \<Longrightarrow> run_until observe m es = (m', ys, x) \<Longrightarrow>
     map a_episode (advisories ys) = [cget (bm_counts m) ''advisories'' + 1..cget (bm_counts m') ''advisories'']
     \<and> cget (bm_counts m) ''advisories'' \<le> cget (bm_counts m') ''advisories''
     \<and> cget (bm_counts m') ''unresolved_root_generation''
        = cget (bm_counts m) ''unresolved_root_generation''"
proof (induction es arbitrary: m ys)
  case Nil
  then show ?case by simp
next
  case (Cons e es)
  obtain m1 r where o: "observe m e = (m1, r)" by fastforce
  note ob = observe_observed [OF Cons.prems(1) o]
  then have m1: "bm_ok m1" by (simp add: observed_def)
  show ?case
  proof (cases r)
    case (Inl err)
    with Cons.prems(2) o ob show ?thesis by (simp add: observed_def)
  next
    case (Inr y)
    obtain m2 zs x2 where run: "run_until observe m1 es = (m2, zs, x2)" by (metis prod_cases3)
    with Cons.prems(2) o Inr have ys: "ys = y # zs" "m2 = m'" "x2 = x" by auto
    note IH = Cons.IH [OF m1 run [unfolded ys(2,3)]]
    show ?thesis
    proof (cases y)
      case None
      with IH ys ob Inr show ?thesis by (simp add: observed_def)
    next
      case (Some a)
      let ?n = "cget (bm_counts m) ''advisories''"
      from ob Inr Some have a: "a_episode a = ?n + 1" "cget (bm_counts m1) ''advisories'' = ?n + 1"
        "cget (bm_counts m1) ''unresolved_root_generation''
          = cget (bm_counts m) ''unresolved_root_generation''"
        by (simp_all add: observed_def sound_def)
      with IH ys Some upto_rec1 [of "?n + 1" "cget (bm_counts m') ''advisories''"] show ?thesis
        by simp
    qed
  qed
qed

text \<open>The pending precursors are no more than the tracked tasks: distinct roots have distinct slots.\<close>

lemma evidence_bound:
  assumes "bm_ok m"
  shows "length (bm_evidence m) \<le> length (bm_tasks m)"
proof -
  let ?K = "set (dkeys (bm_evidence m))"
  have live: "\<exists>p. anchor (bm_epoch m) (tmap m) r = Some p" if "r \<in> ?K" for r
  proof -
    have "emap m r \<noteq> None" using that by (simp add: map_of_eq_None_iff)
    from linkedD_evidence [OF bm_okD(3) [OF assms, unfolded linked_ok_def] this] show ?thesis by blast
  qed
  have inj: "inj_on slot_of ?K"
  proof (rule inj_onI)
    fix r q
    assume "r \<in> ?K" "q \<in> ?K" and eq: "slot_of r = slot_of q"
    with live obtain p p' where "anchor (bm_epoch m) (tmap m) r = Some p"
      "anchor (bm_epoch m) (tmap m) q = Some p'" by blast
    from this [THEN anchor_slot] eq show "r = q" by simp
  qed
  have "slot_of ` ?K \<subseteq> set (dkeys (bm_tasks m))"
  proof
    fix s
    assume "s \<in> slot_of ` ?K"
    then obtain r where "r \<in> ?K" "s = slot_of r" by blast
    with live [of r] anchor_slot [of "bm_epoch m" "tmap m" r] have "tmap m s \<noteq> None" by auto
    then show "s \<in> set (dkeys (bm_tasks m))" by (simp add: map_of_eq_None_iff)
  qed
  then have "card ?K \<le> card (set (dkeys (bm_tasks m)))"
    using card_inj_on_le [OF inj] by simp
  moreover have "card ?K = length (bm_evidence m)"
    using bm_okD(4) [OF assms] by (metis evidence_ok_def dict_ok_def distinct_card length_map)
  moreover have "card (set (dkeys (bm_tasks m))) \<le> length (bm_tasks m)"
    by (metis card_length length_map)
  ultimately show ?thesis by simp
qed

lemma run_frame:
  "bm_ok m \<Longrightarrow> run_until observe m es = (m', ys, x) \<Longrightarrow>
     bm_epoch m' = bm_epoch m \<and> bm_ttl m' = bm_ttl m \<and> bm_max m' = bm_max m"
proof (induction es arbitrary: m ys)
  case Nil
  then show ?case by simp
next
  case (Cons e es)
  obtain m1 r where o: "observe m e = (m1, r)" by fastforce
  note ob = observe_observed [OF Cons.prems(1) o]
  obtain m2 zs x2 where run: "run_until observe m1 es = (m2, zs, x2)" by (metis prod_cases3)
  from Cons.prems(2) o run Cons.IH [of m1] ob show ?case
    by (cases r) (auto simp: observed_def)
qed

lemma run_bm_ok: "bm_ok m \<Longrightarrow> run_until observe m es = (m', ys, x) \<Longrightarrow> bm_ok m'"
  using bm.run_inv [of m es] by simp

subsection \<open>Exclusions, losses, exits\<close>

text \<open>A slot whose generation is excluded answers no event of it and takes no precursor.\<close>

lemma task_blocked:
  assumes m: "bm_ok m" and v: "tmap m (cg, pid) = Some v" "t_blocked v"
    "t_start v = 0 \<or> t_start v = start"
  shows "\<exists>m' st. task cg pid start m = (m', Inr st) \<and> t_blocked st \<and> bm_evidence m' = bm_evidence m"
proof -
  have "task_resolve cg pid start m = (m, Some v)"
    using v by (simp add: task_resolve_def)
  then show ?thesis
    using v by (simp add: task_def task_touch_def Let_def)
qed

lemma task_of_blocked:
  assumes "t_blocked st" "h_kind h \<noteq> 1"
  shows "set (bm_evidence (fst (observe_task e h st m))) \<subseteq> set (bm_evidence m)
    \<and> (\<forall>a. snd (observe_task e h st m) \<noteq> Inr (Some a))"
  using assms
  by (auto simp: observe_task_def Let_def observe_exit_def dpop_def)

subsection \<open>Replaying a framed source\<close>

text \<open>A source without errors and empty pieces, and the frames the collector writes to it.\<close>

definition clean :: "source \<Rightarrow> bool" where
  "clean s \<longleftrightarrow> (\<forall>p \<in> set s. \<exists>c. p = Piece c \<and> c \<noteq> [])"

lemma clean_Cons: "clean (p # s) \<longleftrightarrow> (\<exists>c. p = Piece c \<and> c \<noteq> []) \<and> clean s"
  by (auto simp: clean_def)

lemma clean_bytes_Nil: "clean s \<Longrightarrow> source_bytes s = [] \<longleftrightarrow> s = []"
  by (cases s) (auto simp: clean_Cons)

lemma read_some_clean:
  assumes "clean s" "0 < n"
  shows "\<exists>c s'. read_some n s = (Inr c, s') \<and> clean s' \<and> source_bytes s = c @ source_bytes s'
    \<and> length c \<le> n \<and> (c = [] \<longrightarrow> source_bytes s = [])"
proof (cases s)
  case Nil
  then show ?thesis by (simp add: clean_def)
next
  case (Cons p t)
  with assms obtain d where p: "p = Piece d" "d \<noteq> []" "clean t" by (auto simp: clean_Cons)
  show ?thesis
  proof (cases "length d \<le> n")
    case True
    with Cons p show ?thesis by simp
  next
    case False
    with p have "clean (Piece (drop n d) # t)" by (simp add: clean_Cons)
    with False Cons p assms(2) show ?thesis by auto
  qed
qed

lemma exact_clean:
  "clean s \<Longrightarrow> length data \<le> n \<Longrightarrow> n - length data \<le> length (source_bytes s) \<Longrightarrow>
     \<exists>s'. exact n eof data s = (Inr (Some (data @ take (n - length data) (source_bytes s))), s')
       \<and> clean s' \<and> source_bytes s' = drop (n - length data) (source_bytes s)"
proof (induction n eof data s rule: exact.induct)
  case (1 n eof data s)
  show ?case
  proof (cases "length data < n")
    case False
    with "1.prems" show ?thesis by (simp add: exact.simps [of n eof data s])
  next
    case True
    from read_some_clean [OF "1.prems"(1), of "n - length data"] True obtain c s1
      where rs: "read_some (n - length data) s = (Inr c, s1)" and s1: "clean s1"
        "source_bytes s = c @ source_bytes s1" "length c \<le> n - length data"
        "c = [] \<longrightarrow> source_bytes s = []" by auto
    have ne: "c \<noteq> []" using s1(4) "1.prems"(3) True by auto
    have "exact n eof data s = exact n eof (data @ c) s1"
      using True rs ne by (simp add: exact.simps [of n eof data s])
    moreover from "1.IH" [OF True rs [symmetric] refl ne s1(1)] s1 "1.prems" True
    have "\<exists>s'. exact n eof (data @ c) s1 = (Inr (Some ((data @ c)
        @ take (n - length (data @ c)) (source_bytes s1))), s')
       \<and> clean s' \<and> source_bytes s' = drop (n - length (data @ c)) (source_bytes s1)" by simp
    ultimately show ?thesis using s1(2,3) True by simp
  qed
qed

lemma exact_short:
  "clean s \<Longrightarrow> length data + length (source_bytes s) < n \<Longrightarrow>
     \<exists>s'. exact n eof data s =
       (if eof \<and> data @ source_bytes s = [] then Inr None else Inl (ValueError ''TRUNCATED_EOF''), s')"
proof (induction n eof data s rule: exact.induct)
  case (1 n eof data s)
  then have lt: "length data < n" by simp
  from read_some_clean [OF "1.prems"(1), of "n - length data"] lt obtain c s1
    where rs: "read_some (n - length data) s = (Inr c, s1)" and s1: "clean s1"
      "source_bytes s = c @ source_bytes s1" "length c \<le> n - length data"
      "c = [] \<longrightarrow> source_bytes s = []" by auto
  show ?case
  proof (cases "c = []")
    case True
    with rs lt s1(4) show ?thesis by (simp add: exact.simps [of n eof data s])
  next
    case False
    then have "exact n eof data s = exact n eof (data @ c) s1"
      using lt rs by (simp add: exact.simps [of n eof data s])
    moreover from "1.IH" [OF lt rs [symmetric] refl False s1(1)] s1 "1.prems"
    have "\<exists>s'. exact n eof (data @ c) s1 =
       (if eof \<and> (data @ c) @ source_bytes s1 = [] then Inr None
        else Inl (ValueError ''TRUNCATED_EOF''), s')" by simp
    ultimately show ?thesis using s1(2) by simp
  qed
qed

text \<open>How the answer of \<open>read_frame\<close> depends on the bytes that are left.\<close>

definition frame_of :: "bytes \<Rightarrow> bytes option res \<times> bytes" where
  "frame_of b = (if b = [] then (Inr None, [])
     else if length b < 12 then (Inl (ValueError ''TRUNCATED_EOF''), [])
     else let h = unpack_frame (take 12 b); n = nat (fh_size h) in
       if \<not> (fh_magic h = ebpf_magic \<and> fh_version h = 1 \<and> fh_little h = 1 \<and> fh_reserved h = 0)
       then (Inl (ValueError ''INVALID_WIRE_HEADER''), [])
       else if \<not> (104 \<le> fh_size h \<and> fh_size h \<le> 376)
       then (Inl (ValueError ''INVALID_FRAME_LENGTH''), [])
       else if length b < 12 + n then (Inl (ValueError ''TRUNCATED_EOF''), [])
       else (Inr (Some (take n (drop 12 b))), drop (12 + n) b))"

lemma read_frame_clean:
  assumes "clean s"
  shows "\<exists>s'. read_frame s = (fst (frame_of (source_bytes s)), s')
    \<and> ((\<exists>d. fst (frame_of (source_bytes s)) = Inr (Some d)) \<longrightarrow>
        clean s' \<and> source_bytes s' = snd (frame_of (source_bytes s)))"
proof (cases "length (source_bytes s) < 12")
  case True
  with exact_short [OF assms, of "[]" 12 True] show ?thesis
    by (auto simp: read_frame_def frame_of_def)
next
  case False
  let ?b = "source_bytes s"
  let ?h = "unpack_frame (take 12 ?b)" and ?n = "nat (fh_size (unpack_frame (take 12 ?b)))"
  from exact_clean [OF assms, of "[]" 12 True] False obtain s1
    where s1: "exact 12 True [] s = (Inr (Some (take 12 ?b)), s1)" "clean s1"
      "source_bytes s1 = drop 12 ?b" by auto
  have ne: "?b \<noteq> []" using False by auto
  show ?thesis
  proof (cases "(fh_magic ?h = ebpf_magic \<and> fh_version ?h = 1 \<and> fh_little ?h = 1 \<and> fh_reserved ?h = 0)
      \<and> 104 \<le> fh_size ?h \<and> fh_size ?h \<le> 376")
    case False
    with s1 ne \<open>\<not> length ?b < 12\<close> show ?thesis
      by (auto simp: read_frame_def frame_of_def Let_def)
  next
    case hdr: True
    show ?thesis
    proof (cases "length ?b < 12 + ?n")
      case True
      have "length ([]::bytes) + length (source_bytes s1) < ?n"
        using True False s1(3) hdr by simp
      from exact_short [OF s1(2) this, of False] s1 ne hdr True False show ?thesis
        by (auto simp: read_frame_def frame_of_def Let_def)
    next
      case full: False
      then have "?n - length ([]::bytes) \<le> length (source_bytes s1)" using s1(3) by simp
      from exact_clean [OF s1(2) _ this, of False] s1 ne hdr full False show ?thesis
        by (auto simp: read_frame_def frame_of_def Let_def add.commute)
    qed
  qed
qed

text \<open>So \<open>replay\<close> does not see how the source cuts its bytes into pieces.\<close>

lemma replay_bytes:
  "clean s \<Longrightarrow> clean t \<Longrightarrow> source_bytes s = source_bytes t \<Longrightarrow> replay s m = replay t m"
proof (induction "length (source_bytes s)" arbitrary: s t m rule: less_induct)
  case less
  let ?f = "frame_of (source_bytes s)"
  from read_frame_clean [OF less.prems(1)] obtain s' where s': "read_frame s = (fst ?f, s')"
    "(\<exists>d. fst ?f = Inr (Some d)) \<longrightarrow> clean s' \<and> source_bytes s' = snd ?f" by blast
  from read_frame_clean [OF less.prems(2)] less.prems(3) obtain t' where t': "read_frame t = (fst ?f, t')"
    "(\<exists>d. fst ?f = Inr (Some d)) \<longrightarrow> clean t' \<and> source_bytes t' = snd ?f" by auto
  show ?case
  proof (cases "\<exists>d. fst ?f = Inr (Some d)")
    case False
    with s'(1) t'(1) show ?thesis
      by (auto simp: replay.simps [of s m] replay.simps [of t m] split: sum.splits option.splits)
  next
    case True
    then obtain d where d: "fst ?f = Inr (Some d)" by blast
    have "length (source_bytes s') < length (source_bytes s)"
      using read_frame_shrinks s'(1) d by simp
    moreover have "clean s'" "clean t'" "source_bytes s' = source_bytes t'"
      using s'(2) t'(2) True by auto
    ultimately have "replay s' x = replay t' x" for x by (rule less.hyps)
    with s'(1) t'(1) d show ?thesis
      by (simp add: replay.simps [of s m] replay.simps [of t m])
  qed
qed

lemma frame_of_frame:
  assumes "104 \<le> length p" "length p \<le> 376"
  shows "frame_of (frame_bytes p @ x) = (Inr (Some p), x)"
proof -
  have "fits 4 (int (length p))" using assms by (simp add: fits_def)
  note u = unpack_pack_frame [OF this, of "[]"]
  have "take 12 (frame_bytes p @ x) = pack_frame (int (length p))"
    by (simp add: frame_bytes_def)
  moreover have "frame_bytes p @ x \<noteq> []" using length_frame_bytes [of p] by fastforce
  ultimately show ?thesis
    using u assms by (simp add: frame_of_def Let_def) (simp add: frame_bytes_def)
qed

text \<open>Replaying the collector's frames is a run of \<open>observe\<close> over the payloads.\<close>

lemma replay_frames:
  "clean s \<Longrightarrow> \<forall>p \<in> set ps. 104 \<le> length p \<and> length p \<le> 376 \<Longrightarrow>
     source_bytes s = concat (map frame_bytes ps) \<Longrightarrow>
     replay s m = (case run_until observe m ps of (m', ys, x) \<Rightarrow> (advisories ys, m', x))"
proof (induction ps arbitrary: s m)
  case Nil
  from read_frame_clean [OF Nil.prems(1)] Nil.prems(3) show ?case
    by (auto simp: replay.simps [of s m] frame_of_def)
next
  case (Cons p ps)
  have f: "frame_of (source_bytes s) = (Inr (Some p), concat (map frame_bytes ps))"
    using Cons.prems(2,3) frame_of_frame [of p] by simp
  from read_frame_clean [OF Cons.prems(1)] f obtain s' where s': "read_frame s = (Inr (Some p), s')"
    "clean s'" "source_bytes s' = concat (map frame_bytes ps)" by auto
  obtain m1 r where o: "observe m p = (m1, r)" by fastforce
  show ?case
  proof (cases r)
    case (Inl e)
    with s'(1) o show ?thesis by (simp add: replay.simps [of s m])
  next
    case (Inr y)
    obtain m2 ys x where run: "run_until observe m1 ps = (m2, ys, x)" by (metis prod_cases3)
    with Cons.IH [OF s'(2) _ s'(3), of m1] Cons.prems(2) s'(1) o Inr show ?thesis
      by (cases y) (simp_all add: replay.simps [of s m])
  qed
qed

end
