(* ===== verification/Behavior_Claims.thy ===== *)
theory Behavior_Claims
  imports Behavior_Properties
begin

section \<open>Properties of the advisory replay\<close>

text \<open>
  The properties of \<open>behavior_memory.py\<close>, each with a concrete input at which its hypotheses hold:
  a stream in which a task opens a credential file, forks, and its child attempts a connection.
\<close>

subsection \<open>Sample events\<close>

definition sample_header :: "int \<Rightarrow> int \<Rightarrow> int \<Rightarrow> int \<Rightarrow> int \<Rightarrow> int \<Rightarrow> header" where
  "sample_header ts pid start kind flags sz = \<lparr>h_ts = ts, h_cgroup = 7, h_start = start,
     h_pid = pid, h_tgid = pid, h_npid = 0, h_ntgid = 0, h_ppid = 0, h_uid = 0, h_gid = 0,
     h_cpu = 0, h_result = 0, h_size = sz, h_flags = flags, h_schema = 1, h_kind = kind,
     h_comm = replicate 16 0\<rparr>"

definition sample_open :: "int \<Rightarrow> int \<Rightarrow> bytes" where
  "sample_open ts pid = header_bytes (sample_header ts pid 5 6 0 376) @ replicate 24 0
     @ to_le 4 1 @ to_le 4 1 @ map word_of_int (ucode ''/etc/shadow'') @ replicate 245 0"

definition sample_fork :: "int \<Rightarrow> int \<Rightarrow> int \<Rightarrow> bytes" where
  "sample_fork ts pid child = header_bytes (sample_header ts pid 5 1 2048 360)
     @ to_le 4 pid @ to_le 4 child @ to_le 4 0 @ to_le 4 child @ to_le 8 9 @ replicate 248 0"

definition sample_connect :: "int \<Rightarrow> int \<Rightarrow> int \<Rightarrow> bytes" where
  "sample_connect ts pid start = header_bytes (sample_header ts pid start 8 16 200)
     @ replicate 64 0 @ to_le 2 2 @ replicate 30 0 @ [93, 184, 216, 34] @ replicate 12 0"

definition sample_health :: "int \<Rightarrow> int \<Rightarrow> bytes" where
  "sample_health ts loss = header_bytes (sample_header ts 0 0 14 0 128)
     @ to_le 8 loss @ replicate 32 0"

definition sample_memory :: memory where
  "sample_memory = \<lparr>bm_ttl = 3600000000000, bm_max = 4, bm_epoch = ''e'', bm_tasks = [],
     bm_evidence = [], bm_counts = [], bm_last = None, bm_health = None, bm_next = 0\<rparr>"

definition sample_stream :: "bytes list" where
  "sample_stream = [sample_open 10 100, sample_fork 20 100 101, sample_connect 30 101 9]"

lemma sample_run: "map (map_option a_scope) (fst (snd (run_until observe sample_memory sample_stream)))
    = [None, None, Some ''verified_task_lineage'']"
  by code_simp

lemma sample_init: "init (Some 3600000000000) (PyInt 4) (Some ''e'') ''u'' = Inr sample_memory"
  by (simp add: init_def sample_memory_def)

lemma sample_ok: "bm_ok sample_memory"
  by (rule init_bm_ok [OF sample_init])

lemma sample_run_obtain:
  obtains m' ys x a where "run_until observe sample_memory sample_stream = (m', ys, x)"
    "Some a \<in> set ys" "a_scope a = ''verified_task_lineage''"
proof -
  obtain m' ys x where r: "run_until observe sample_memory sample_stream = (m', ys, x)"
    by (metis prod_cases3)
  from sample_run r have ys: "map (map_option a_scope) ys = [None, None, Some ''verified_task_lineage'']"
    by simp
  have "Some ''verified_task_lineage'' \<in> set (map (map_option a_scope) ys)"
    unfolding ys by simp
  then obtain a where "Some a \<in> set ys" "a_scope a = ''verified_task_lineage''"
    by (auto simp: eq_commute [of "Some _"])
  with r that show ?thesis by blast
qed

subsection \<open>Runs\<close>

text \<open>
  C1. Every advisory of a replay that starts from a constructed memory comes from two events of
  the stream: an eligible credential open by the precursor identity, and later in the stream an
  attempt, by the advised identity, to connect to a remote destination; the attempt's timestamp is
  after the open's and less than the retention later, and the scope tells whether the two
  identities are the same.
\<close>

theorem advisory_provenance:
  assumes "init scaled mt se uuid = Inr m" and "run_until observe m es = (m', ys, x)"
    and "Some a \<in> set ys"
  shows "drawn (bm_epoch m) (bm_ttl m) es a"
  using run_drawn [OF init_bm_ok [OF assms(1)], of "[]" es m' ys x a] assms init_fields [OF assms(1)]
  by (simp add: explained_def)

theorem advisory_provenance_witness:
  "\<exists>m' ys x a. run_until observe sample_memory sample_stream = (m', ys, x) \<and> Some a \<in> set ys
     \<and> drawn ''e'' 3600000000000 sample_stream a"
proof -
  obtain m' ys x a where r: "run_until observe sample_memory sample_stream = (m', ys, x)"
    "Some a \<in> set ys" by (rule sample_run_obtain)
  from advisory_provenance [OF sample_init r] r show ?thesis by (auto simp: sample_memory_def)
qed

text \<open>
  C2. The tracker is bounded and anchored at every moment of a replay: after any stream the memory
  satisfies its invariant \<open>bm_ok\<close>, tracks at most \<open>max_tasks\<close> tasks, and has no more pending
  precursors than tracked tasks.
\<close>

theorem tracker_bounded:
  assumes "init scaled mt se uuid = Inr m" and "run_until observe m es = (m', ys, x)"
  shows "bm_ok m' \<and> int (length (bm_tasks m')) \<le> bm_max m
    \<and> length (bm_evidence m') \<le> length (bm_tasks m')"
  using run_bm_ok [OF init_bm_ok [OF assms(1)] assms(2)] run_frame [OF init_bm_ok [OF assms(1)] assms(2)]
    evidence_bound [of m'] by (simp add: bm_ok_def tasks_ok_def)

theorem tracker_bounded_witness:
  "\<exists>m' ys x. run_until observe sample_memory sample_stream = (m', ys, x)
     \<and> int (length (bm_tasks m')) \<le> 4 \<and> length (bm_evidence m') \<le> length (bm_tasks m')"
proof -
  obtain m' ys x a where r: "run_until observe sample_memory sample_stream = (m', ys, x)"
    by (rule sample_run_obtain)
  from tracker_bounded [OF sample_init r] r show ?thesis by (auto simp: sample_memory_def)
qed

text \<open>
  C3. Accounting of a replay: the precursors spent on advisories, dropped by a reset, by retention,
  by a reused pid, by eviction or by an exit, and those still pending, are together at most the
  credential opens counted; so there are never more advisories than eligible opens.
\<close>

theorem precursors_accounted:
  assumes "init scaled mt se uuid = Inr m" and "run_until observe m es = (m', ys, x)"
  shows "sum_list (map (cget (bm_counts m')) [''advisories'', ''reset_precursors_dropped'',
      ''retention_precursors_dropped'', ''reuse_precursors_dropped'',
      ''capacity_precursors_dropped'', ''exit_precursors_dropped'']) + int (length (bm_evidence m'))
    \<le> cget (bm_counts m') ''credential_open_hooks''"
  using bm_okD(5) [OF run_bm_ok [OF init_bm_ok [OF assms(1)] assms(2)]]
  unfolding accounted_def spent_def spent_keys_def .

theorem precursors_accounted_witness:
  "\<exists>m' ys x. run_until observe sample_memory sample_stream = (m', ys, x)
     \<and> sum_list (map (cget (bm_counts m')) [''advisories'', ''reset_precursors_dropped'',
      ''retention_precursors_dropped'', ''reuse_precursors_dropped'',
      ''capacity_precursors_dropped'', ''exit_precursors_dropped'']) + int (length (bm_evidence m'))
      \<le> cget (bm_counts m') ''credential_open_hooks''"
proof -
  obtain m' ys x a where r: "run_until observe sample_memory sample_stream = (m', ys, x)"
    by (rule sample_run_obtain)
  from precursors_accounted [OF sample_init r] r show ?thesis by blast
qed

text \<open>
  C8. The episodes of the advisories of a replay are 1, 2, 3, ... in the order they are emitted, up
  to the counter \<open>advisories\<close>; and the recovery branch \<open>unresolved_root_generation\<close> of \<open>root\<close> is
  never taken: its counter stays 0 whatever the stream.
\<close>

theorem episodes_consecutive:
  assumes "init scaled mt se uuid = Inr m" and "run_until observe m es = (m', ys, x)"
  shows "map a_episode (advisories ys) = [1..cget (bm_counts m') ''advisories'']
    \<and> cget (bm_counts m') ''unresolved_root_generation'' = 0"
  using run_episodes [OF init_bm_ok [OF assms(1)] assms(2)] init_fields [OF assms(1)] by simp

theorem episodes_consecutive_witness:
  "\<exists>m' ys x. run_until observe sample_memory sample_stream = (m', ys, x)
     \<and> map a_episode (advisories ys) = [1..cget (bm_counts m') ''advisories'']"
proof -
  obtain m' ys x a where r: "run_until observe sample_memory sample_stream = (m', ys, x)"
    by (rule sample_run_obtain)
  from episodes_consecutive [OF sample_init r] r show ?thesis by blast
qed

subsection \<open>Single events\<close>

text \<open>
  An advisory consumes its precursor: after \<open>observe\<close> answers with one, the root of the family
  has no pending precursor, and the count of advisories went up by one.
\<close>

theorem advisory_consumes:
  assumes "bm_ok m" and "observe m e = (m', Inr (Some a))"
  shows "(a_root a, a_precursor_ns a, a_precursor a) \<in> set (bm_evidence m)
    \<and> map_of (bm_evidence m') (a_root a) = None
    \<and> a_episode a = cget (bm_counts m') ''advisories''
    \<and> cget (bm_counts m') ''advisories'' = cget (bm_counts m) ''advisories'' + 1"
  using observe_observed [OF assms] by (simp add: observed_def sound_def)

lemma sample_connect_step:
  "\<exists>m m' a. bm_ok m \<and> observe m (sample_connect 30 101 9) = (m', Inr (Some a))"
proof -
  let ?pre = "[sample_open 10 100, sample_fork 20 100 101]" and ?e = "sample_connect 30 101 9"
  let ?m = "fst (run_until observe sample_memory ?pre)"
  have "case snd (observe ?m ?e) of Inr (Some a) \<Rightarrow> True | _ \<Rightarrow> False"
    by code_simp
  then have "\<exists>m' a. observe ?m ?e = (m', Inr (Some a))"
    by (cases "observe ?m ?e") (auto split: sum.splits option.splits)
  moreover have "bm_ok ?m"
    using bm.run_inv [OF sample_ok, of ?pre] .
  ultimately show ?thesis by blast
qed

theorem advisory_consumes_witness:
  "\<exists>m m' a. observe m (sample_connect 30 101 9) = (m', Inr (Some a))
     \<and> map_of (bm_evidence m') (a_root a) = None"
proof -
  obtain m m' a where "bm_ok m" "observe m (sample_connect 30 101 9) = (m', Inr (Some a))"
    using sample_connect_step by blast
  from advisory_consumes [OF this] this show ?thesis by blast
qed

subsection \<open>Losses and exclusions\<close>

definition excluded :: "memory \<Rightarrow> (slot \<times> int) list" where
  "excluded m = map (\<lambda>e. (fst e, t_start (snd e))) (filter (\<lambda>e. t_blocked (snd e)) (bm_tasks m))"

definition only_exclusions :: "memory \<Rightarrow> memory \<Rightarrow> bool" where
  "only_exclusions m m' \<longleftrightarrow> bm_evidence m' = [] \<and> excluded m' = excluded m
     \<and> (\<forall>e \<in> set (bm_tasks m'). t_blocked (snd e) \<and> t_root (snd e) = None \<and> \<not> t_kids (snd e))"

lemma renew_starts: "map (\<lambda>e. (fst e, t_start (snd e))) (renew n d) = map (\<lambda>e. (fst e, t_start (snd e))) d"
  by (induction d arbitrary: n) auto

lemma renew_blocked: "e \<in> set (renew n d) \<Longrightarrow>
    t_blocked (snd e) \<and> t_root (snd e) = None \<and> \<not> t_kids (snd e)"
  by (induction d arbitrary: n) auto

lemma clear_exclusions:
  assumes "bm_evidence m' = bm_evidence (clear k True x)" "bm_tasks m' = bm_tasks (clear k True x)"
    and "bm_tasks x = bm_tasks m"
  shows "only_exclusions m m'"
proof -
  let ?kept = "filter (\<lambda>e. t_blocked (snd e)) (bm_tasks m)"
  have t: "bm_tasks m' = renew (bm_next x) ?kept"
    using assms(2,3) by (simp add: clear_tasks)
  have "filter (\<lambda>e. t_blocked (snd e)) (bm_tasks m') = bm_tasks m'"
    unfolding t using renew_blocked by (intro filter_True) blast
  then have "excluded m' = excluded m" by (simp add: excluded_def t renew_starts)
  then show ?thesis using assms(1) renew_blocked unfolding only_exclusions_def t by simp
qed

definition lossy :: "memory \<Rightarrow> bytes \<Rightarrow> bool" where
  "lossy m e \<longleftrightarrow> (let h = unpack_header e; loss = take 3 (health_values e) @ drop 4 (health_values e) in
     (case bm_last m of None \<Rightarrow> False | Some l \<Rightarrow> h_ts h < l)
     \<or> h_kind h = 14 \<and> (case bm_health m of None \<Rightarrow> list_ex (\<lambda>v. v \<noteq> 0) loss | Some l \<Rightarrow> l \<noteq> loss))"

text \<open>
  C4. A loss signal empties the memory: when a valid HEALTH event reports loss counters that differ
  from the last ones (or are nonzero at the first report), or when any valid event goes back in
  time, then no precursor is pending afterwards, and the tasks that are left are exactly the
  excluded ones tracked before, with their start tokens, still excluded and in no family.
\<close>

theorem loss_forgets:
  assumes "valid_event e" and "88 \<le> length e" and "lossy m e"
  shows "only_exclusions m (fst (observe m e))"
proof (cases "\<exists>l. bm_last m = Some l \<and> h_ts (unpack_header e) < l")
  case True
  with assms(1,2) show ?thesis
    by (intro clear_exclusions [of _ "''unsafe_ordering''" "count ''frames'' m"])
      (auto simp: observe_def Let_def)
next
  case False
  let ?x = "expire (h_ts (unpack_header e)) (count ''frames'' m\<lparr>bm_last := Some (h_ts (unpack_header e))\<rparr>)"
  let ?loss = "take 3 (health_values e) @ drop 4 (health_values e)"
  from False assms(3) have k: "h_kind (unpack_header e) = 14"
    and l: "(bm_health ?x = None \<and> list_ex (\<lambda>v. v \<noteq> 0) ?loss)
      \<or> (bm_health ?x \<noteq> None \<and> bm_health ?x \<noteq> Some ?loss)"
    by (auto simp: lossy_def Let_def split: option.splits)
  have "fst (observe m e) = observe_health e ?x"
    using assms(1,2) False k by (auto simp: observe_def observe_ordered_def Let_def split: option.splits)
  then show ?thesis
    by (intro clear_exclusions [of _ "''health_loss_or_counter_reset''" ?x])
      (simp_all only: observe_health_def Let_def if_P [OF l], simp_all)
qed

theorem loss_forgets_witness:
  "only_exclusions sample_memory (fst (observe sample_memory (sample_health 5 3)))"
  by (rule loss_forgets) code_simp+

lemma observe_ordered_leader:
  "leader h \<Longrightarrow> h_kind h \<noteq> 14 \<Longrightarrow> observe_ordered e h x =
    (case task (h_cgroup h) (h_pid h) (h_start h)
        (if h_kind h = 3 \<and> (h_cgroup h, h_pid h) \<notin> set (dkeys (bm_tasks x))
         then count ''untracked_exit'' x else x) of
       (m2, Inl e) \<Rightarrow> (m2, Inl e) | (m2, Inr st) \<Rightarrow> observe_task e h st m2)"
  by (simp add: observe_ordered_def leader_def Let_def)

text \<open>
  C5. A task excluded as multi-threaded stays silent: while its slot holds an excluded entry of the
  same generation (or of an unknown one), no event of that task yields an advisory or adds a
  precursor.
\<close>

theorem excluded_task_silent:
  assumes "bm_ok m" and "leader (unpack_header e)" and "h_kind (unpack_header e) \<noteq> 1"
    and "map_of (bm_tasks m) (h_cgroup (unpack_header e), h_pid (unpack_header e)) = Some v"
    and "t_blocked v" and "t_start v = 0 \<or> t_start v = h_start (unpack_header e)"
  shows "set (bm_evidence (fst (observe m e))) \<subseteq> set (bm_evidence m)
    \<and> (\<forall>a. snd (observe m e) \<noteq> Inr (Some a))"
proof (cases "length e < 88 \<or> \<not> valid_event e \<or> (\<exists>l. bm_last m = Some l \<and> h_ts (unpack_header e) < l)")
  case True
  then show ?thesis by (auto simp: observe_def Let_def)
next
  case False
  let ?h = "unpack_header e"
  let ?m1 = "count ''frames'' m\<lparr>bm_last := Some (h_ts ?h)\<rparr>"
  let ?x = "expire (h_ts ?h) ?m1"
  have eq: "observe m e = observe_ordered e ?h ?x"
    using False by (auto simp: observe_def Let_def split: option.splits)
  have "bm_ok (count ''frames'' m)" using assms(1) by (simp add: bm_ok_count)
  from bm_ok_later [OF this, of "h_ts ?h"] False have "bm_ok ?m1"
    by (cases "bm_last m") (auto simp: not_less)
  then have x: "bm_ok ?x" by (rule bm_ok_expire)
  have sub: "set (bm_evidence ?x) \<subseteq> set (bm_evidence m)"
    using steady_expire [of ?m1 "h_ts ?h"] by (simp add: steady_def)
  show ?thesis
  proof (cases "h_kind ?h = 14")
    case True
    have "steady ?x (observe_health e ?x)" using observe_health_ok [OF x] by blast
    with eq True sub show ?thesis by (auto simp: observe_ordered_def steady_def)
  next
    case False
    define m2 where "m2 = (if h_kind ?h = 3 \<and> (h_cgroup ?h, h_pid ?h) \<notin> set (dkeys (bm_tasks ?x))
        then count ''untracked_exit'' ?x else ?x)"
    have m2: "bm_ok m2" "bm_tasks m2 = bm_tasks m" "bm_evidence m2 = bm_evidence ?x"
      using x by (simp_all add: m2_def bm_ok_count)
    have "map_of (bm_tasks m2) (h_cgroup ?h, h_pid ?h) = Some v" using m2(2) assms(4) by simp
    from task_blocked [OF m2(1) this assms(5,6)] obtain m3 st
      where t: "task (h_cgroup ?h) (h_pid ?h) (h_start ?h) m2 = (m3, Inr st)" "t_blocked st"
        "bm_evidence m3 = bm_evidence m2" by blast
    have "observe_ordered e ?h ?x = observe_task e ?h st m3"
      unfolding observe_ordered_leader [OF assms(2) False] m2_def [symmetric] t(1) by simp
    with task_of_blocked [OF t(2) assms(3), of e m3] t(3) m2(3) sub eq show ?thesis by auto
  qed
qed

definition sample_excluded :: memory where
  "sample_excluded = fst (observe sample_memory (header_bytes
     ((sample_header 10 100 5 8 16 200)\<lparr>h_tgid := 101\<rparr>) @ replicate 112 0))"

theorem excluded_task_silent_witness:
  "\<forall>a. snd (observe sample_excluded (sample_open 20 101)) \<noteq> Inr (Some a)"
proof -
  have "bm_ok sample_excluded" unfolding sample_excluded_def by (rule bm.step_inv [OF sample_ok])
  moreover have "map_of (bm_tasks sample_excluded) (h_cgroup (unpack_header (sample_open 20 101)),
      h_pid (unpack_header (sample_open 20 101)))
    = Some \<lparr>t_oid = 0, t_start = 0, t_blocked = True, t_root = None, t_kids = False\<rparr>"
    by code_simp
  moreover have "leader (unpack_header (sample_open 20 101))"
    "h_kind (unpack_header (sample_open 20 101)) \<noteq> 1" by code_simp+
  ultimately show ?thesis using excluded_task_silent by simp
qed

subsection \<open>Families\<close>


text \<open>
  The exit of a root, or of a member with children, invalidates the family: afterwards no
  tracked task belongs to it, its root is gone, it has no pending precursor, and the tasks of other
  families are untouched.
\<close>

theorem root_exit_drops_family:
  assumes "bm_ok m" and "map_of (bm_tasks m) (cg, pid) = Some st"
    and "key = (bm_epoch m, cg, pid, t_start st)"
    and "t_root st = None \<or> t_kids st \<or> t_root st = Some key"
    and "r = (case t_root st of None \<Rightarrow> key | Some q \<Rightarrow> q)"
  shows "map_of (bm_evidence (observe_exit cg pid key st m)) r = None
    \<and> (\<forall>s. map_of (bm_tasks (observe_exit cg pid key st m)) s =
        (case map_of (bm_tasks m) s of None \<Rightarrow> None
         | Some v \<Rightarrow> if t_root v = Some r \<or> (bm_epoch m, fst s, snd s, t_start v) = r
             then None else Some v))"
proof -
  have "observe_exit cg pid key st m = drop_family r ''exit'' m"
    using assms(4,5) by (auto simp: observe_exit_def root_or_def)
  then show ?thesis
    using tmap_drop_family [OF bm_okD(1) [OF assms(1)], of r "''exit''"]
    by (simp add: map_of_dpop ident_of_def cong: option.case_cong)
qed

text \<open>A parent that forked a child and opened a credential file.\<close>

definition sample_family :: memory where
  "sample_family = fst (run_until observe sample_memory [sample_open 10 100, sample_fork 20 100 101])"

lemma sample_family_ok: "bm_ok sample_family"
  unfolding sample_family_def by (rule bm.run_inv [OF sample_ok])

lemma sample_family_tasks: "bm_tasks sample_family =
    [((7, 100), \<lparr>t_oid = 0, t_start = 5, t_blocked = False, t_root = Some (''e'', 7, 100, 5), t_kids = True\<rparr>),
     ((7, 101), \<lparr>t_oid = 1, t_start = 9, t_blocked = False, t_root = Some (''e'', 7, 100, 5), t_kids = False\<rparr>)]"
  by code_simp


theorem root_exit_drops_family_witness:
  "map_of (bm_evidence (observe_exit 7 100 (''e'', 7, 100, 5)
      \<lparr>t_oid = 0, t_start = 5, t_blocked = False, t_root = Some (''e'', 7, 100, 5), t_kids = True\<rparr>
      sample_family)) (''e'', 7, 100, 5) = None"
proof -
  have "bm_epoch sample_family = ''e''" by code_simp
  moreover have "map_of (bm_tasks sample_family) (7, 100) = Some
      \<lparr>t_oid = 0, t_start = 5, t_blocked = False, t_root = Some (''e'', 7, 100, 5), t_kids = True\<rparr>"
    using sample_family_tasks by simp
  ultimately show ?thesis
    using root_exit_drops_family [OF sample_family_ok, of 7 100 _ "(''e'', 7, 100, 5)" "(''e'', 7, 100, 5)"]
    by simp
qed

lemma task_fresh:
  assumes "\<forall>s \<in> set (dkeys (bm_tasks m)). snd s \<noteq> pid" and "int (length (bm_tasks m)) < bm_max m"
    and tk: "tasks_ok m"
  shows "\<exists>v m'. task cg pid start m = (m', Inr v) \<and> tmap m' = (tmap m)((cg, pid) \<mapsto> v)
    \<and> t_oid v = bm_next m \<and> t_start v = start \<and> t_root v = None \<and> \<not> t_blocked v
    \<and> bm_evidence m' = bm_evidence m \<and> bm_counts m' = bm_counts m"
proof -
  let ?s = "(cg, pid)"
  have new: "?s \<notin> set (dkeys (bm_tasks m))" using assms(1) by fastforce
  then have none: "tmap m ?s = None" by (simp add: map_of_eq_None_iff)
  have "\<not> list_ex (\<lambda>e. snd (fst e) = pid \<and> fst (fst e) \<noteq> cg) (bm_tasks m)"
    "\<not> list_ex (\<lambda>e. snd (fst e) = pid \<and> t_blocked (snd e)
        \<and> (t_start (snd e) = 0 \<or> t_start (snd e) = start)) (bm_tasks m)"
    using assms(1) by (auto simp: list_ex_iff)
  define v where "v = \<lparr>t_oid = bm_next m, t_start = start, t_blocked = False, t_root = None, t_kids = False\<rparr>"
  define m1 where "m1 = m\<lparr>bm_tasks := bm_tasks m @ [(?s, v)], bm_next := Suc (bm_next m)\<rparr>"
  have res: "task_resolve cg pid start m = (m, None)"
    using none \<open>\<not> list_ex (\<lambda>e. snd (fst e) = pid \<and> fst (fst e) \<noteq> cg) (bm_tasks m)\<close>
    by (simp add: task_resolve_def)
  have adm: "task_admit cg pid start m = (m1, Inr v)"
    using assms(2) \<open>\<not> list_ex (\<lambda>e. snd (fst e) = pid \<and> t_blocked (snd e) \<and> _ e) (bm_tasks m)\<close>
    by (simp add: task_admit_def task_create_def Let_def dset_new [OF new] m1_def v_def)
  obtain m2 v' where t: "task_touch cg pid start v m1 = (m2, v')" by fastforce
  have v': "v' = v" using t by (auto simp: task_touch_def Let_def v_def)
  have T1: "tmap m1 = (tmap m)(?s \<mapsto> v)"
    using none by (auto simp: m1_def map_add_def fun_eq_iff split: option.splits)
  have tk1: "tasks_ok m1"
    using tk new assms(2) unfolding tasks_ok_def m1_def by (auto simp: dict_ok_def v_def)
  have "tmap (mutate v m1) = (tmap m1)(?s \<mapsto> v)"
    by (rule tmap_mutate [OF tk1]) (simp_all add: T1)
  moreover have "bm_tasks m2 = move_to_end ?s (bm_tasks (mutate v m1))"
    using t v' by (auto simp: task_touch_def Let_def)
  then have "tmap m2 = tmap (mutate v m1)" by (intro ext) (simp only: map_of_move_to_end)
  ultimately have T2: "tmap m2 = (tmap m)(?s \<mapsto> v)" by (simp add: T1)
  have "bm_evidence m2 = bm_evidence m" "bm_counts m2 = bm_counts m"
    using t by (auto simp: task_touch_def Let_def m1_def)
  with T2 res adm t v' show ?thesis by (simp add: task_def) (simp add: v_def)
qed

text \<open>
  A verified fork edge links the child to its parent's family: for a leader parent that is
  tracked and not excluded, and a child whose identity the event exports and whose pid is not
  tracked, with room in the table, \<open>fork\<close> adds the child as a member of the parent's family, makes
  the parent a member with children, keeps every other task and every precursor and counts the edge.
\<close>

theorem fork_links_child:
  assumes "bm_ok m" and "map_of (bm_tasks m) (cg, pid) = Some st" and "\<not> t_blocked st"
    and "key = (bm_epoch m, cg, pid, t_start st)" and "flags AND 2048 \<noteq> 0"
    and "rd 4 e 88 = pid" and "rd 4 e 92 = child" and "rd 4 e 96 = 0" and "rd 4 e 100 = child"
    and "rd 8 e 104 = start" and "child \<noteq> 0" and "child \<noteq> pid" and "start \<noteq> 0"
    and "\<forall>s \<in> set (dkeys (bm_tasks m)). snd s \<noteq> child" and "int (length (bm_tasks m)) < bm_max m"
    and "r = (case t_root st of None \<Rightarrow> key | Some q \<Rightarrow> q)"
  shows "\<exists>m' v. fork e key st flags m = (m', Inr ())
    \<and> map_of (bm_tasks m') = (map_of (bm_tasks m))
        ((cg, pid) \<mapsto> st\<lparr>t_root := Some r, t_kids := True\<rparr>, (cg, child) \<mapsto> v)
    \<and> t_start v = start \<and> t_root v = Some r \<and> \<not> t_blocked v \<and> bm_evidence m' = bm_evidence m
    \<and> cget (bm_counts m') ''verified_fork_edges'' = cget (bm_counts m) ''verified_fork_edges'' + 1"
proof -
  have tk: "tasks_ok m" using assms(1) by (rule bm_okD)
  obtain c m2 where t: "task cg child start m = (m2, Inr c)" and c: "tmap m2 = (tmap m)((cg, child) \<mapsto> c)"
    "t_oid c = bm_next m" "t_start c = start" "t_root c = None" "\<not> t_blocked c"
    "bm_evidence m2 = bm_evidence m" "bm_counts m2 = bm_counts m"
    using task_fresh [OF assms(14,15) tk] by blast
  have m2: "bm_ok m2" using task_ok(1) [OF assms(1) t assms(13)] .
  have p2: "tmap m2 (cg, pid) = Some st" using c(1) assms(2,12) by simp
  have none: "tmap m (cg, child) = None"
    using assms(14) by (fastforce simp: map_of_eq_None_iff)
  let ?p = "st\<lparr>t_root := Some r, t_kids := True\<rparr>" and ?c = "c\<lparr>t_root := Some r\<rparr>"
  let ?m3 = "count ''verified_fork_edges'' (mutate ?c (mutate ?p m2))"
  have r: "r = root_or st key" using assms(16) by (simp add: root_or_def)
  note ro = root_of_ok [OF assms(1,2), of key] root_of_ok [OF m2 p2, of key]
  have "fork_child cg pid child start key st (root_or st key) m = (?m3, Inr ())"
    using t p2 ro(2) by (simp add: fork_child_def r)
  then have "fork e key st flags m = (?m3, Inr ())"
    using assms ro(1) none by (simp add: fork_def Let_def)
  moreover have T1: "tmap (mutate ?p m2) = (tmap m2)((cg, pid) \<mapsto> ?p)"
    by (rule tmap_mutate [OF bm_okD(1) [OF m2] p2]) simp
  have "tmap (mutate ?c (mutate ?p m2)) = (tmap (mutate ?p m2))((cg, child) \<mapsto> ?c)"
    by (rule tmap_mutate [OF tasks_ok_mutate [OF bm_okD(1) [OF m2]], where w = c])
      (use T1 c(1) assms(12) in simp_all)
  then have "tmap ?m3 = (tmap m)((cg, pid) \<mapsto> ?p, (cg, child) \<mapsto> ?c)"
    using T1 c(1) assms(12) by (auto simp: fun_eq_iff)
  ultimately show ?thesis
    using c by (intro exI [of _ ?m3] exI [of _ ?c]) (simp add: cget_cadd)
qed

theorem fork_links_child_witness:
  "\<exists>m'. fork (sample_fork 30 101 102) (''e'', 7, 101, 9)
      \<lparr>t_oid = 1, t_start = 9, t_blocked = False, t_root = Some (''e'', 7, 100, 5), t_kids = False\<rparr>
      2048 sample_family = (m', Inr ()) \<and> bm_evidence m' = bm_evidence sample_family"
proof -
  have "bm_epoch sample_family = ''e''" "bm_max sample_family = 4" by code_simp+
  moreover have "rd 4 (sample_fork 30 101 102) 88 = 101" "rd 4 (sample_fork 30 101 102) 92 = 102"
    "rd 4 (sample_fork 30 101 102) 96 = 0" "rd 4 (sample_fork 30 101 102) 100 = 102"
    "rd 8 (sample_fork 30 101 102) 104 = 9" "(2048::int) AND 2048 \<noteq> 0" by code_simp+
  ultimately show ?thesis
    using fork_links_child [OF sample_family_ok, of 7 101 "\<lparr>t_oid = 1, t_start = 9, t_blocked = False,
        t_root = Some (''e'', 7, 100, 5), t_kids = False\<rparr>" "(''e'', 7, 101, 9)" 2048
        "sample_fork 30 101 102" 102 9 "(''e'', 7, 100, 5)"] sample_family_tasks by auto
qed

end
