(* ===== verification/Replay_Claims.thy ===== *)
theory Replay_Claims
  imports Behavior_Claims
begin

section \<open>Properties of the replay of a source, of the path pattern and of the program\<close>

text \<open>
  What \<open>replay\<close> does with a source: the frames the collector wrote are observed one by one however
  the source cuts its bytes, and a truncated stream ends in an error after its complete frames.
  The credential pattern has a declarative form, and the exit status of the program tells whether
  the replay was complete.
\<close>

lemma frame_of_truncated:
  assumes "104 \<le> length p" "length p \<le> 376" "0 < k" "k < length (frame_bytes p)"
  shows "frame_of (take k (frame_bytes p)) = (Inl (ValueError ''TRUNCATED_EOF''), [])"
proof -
  have ne: "take k (frame_bytes p) \<noteq> []"
    using assms(3,4) by (metis length_greater_0_conv length_take min_less_iff_conj less_trans)
  show ?thesis
  proof (cases "k < 12")
    case True
    with ne assms(4) show ?thesis by (simp add: frame_of_def)
  next
    case False
    have "fits 4 (int (length p))" using assms by (simp add: fits_def)
    note u = unpack_pack_frame [OF this, of "[]"]
    have "take 12 (take k (frame_bytes p)) = pack_frame (int (length p))"
      using False by (simp add: frame_bytes_def min_absorb1)
    with u False ne assms show ?thesis by (simp add: frame_of_def Let_def)
  qed
qed

lemma replay_truncated:
  "clean s \<Longrightarrow> \<forall>q \<in> set ps. 104 \<le> length q \<and> length q \<le> 376 \<Longrightarrow> 104 \<le> length p \<Longrightarrow>
     length p \<le> 376 \<Longrightarrow> 0 < k \<Longrightarrow> k < length (frame_bytes p) \<Longrightarrow>
     source_bytes s = concat (map frame_bytes ps) @ take k (frame_bytes p) \<Longrightarrow>
     run_until observe m ps = (m', ys, None) \<Longrightarrow>
     replay s m = (advisories ys, clear ''invalid_input'' True m', Some (ValueError ''TRUNCATED_EOF''))"
proof (induction ps arbitrary: s m ys)
  case Nil
  from read_frame_clean [OF Nil.prems(1)] frame_of_truncated [OF Nil.prems(3-6)] Nil.prems(7,8)
  show ?case by (auto simp: replay.simps [of s m'])
next
  case (Cons q ps)
  have f: "frame_of (source_bytes s) = (Inr (Some q), concat (map frame_bytes ps) @ take k (frame_bytes p))"
    using Cons.prems(2,7) frame_of_frame [of q] by simp
  from read_frame_clean [OF Cons.prems(1)] f obtain s' where s': "read_frame s = (Inr (Some q), s')"
    "clean s'" "source_bytes s' = concat (map frame_bytes ps) @ take k (frame_bytes p)" by auto
  obtain m1 r where o: "observe m q = (m1, r)" by fastforce
  from Cons.prems(8) o obtain y where y: "r = Inr y" by (cases r) auto
  obtain m2 zs x where run: "run_until observe m1 ps = (m2, zs, x)" by (metis prod_cases3)
  with Cons.prems(8) o y have ys: "ys = y # zs" "m2 = m'" "x = None" by auto
  have "replay s' m1 = (advisories zs, clear ''invalid_input'' True m', Some (ValueError ''TRUNCATED_EOF''))"
    by (rule Cons.IH [OF s'(2) _ Cons.prems(3-6) s'(3)]) (use Cons.prems(2) run ys in auto)
  with s'(1) o y ys(1) show ?case by (cases y) (simp_all add: replay.simps [of s m])
qed

subsection \<open>Properties\<close>

text \<open>
  C6. Replaying a source that delivers the collector's frames, cut into pieces anywhere, is a run of
  \<open>observe\<close> over the payloads: it yields the advisories of the run in order, ends with the run's
  memory, and raises what the run raises.
\<close>

theorem replay_is_run:
  assumes "clean s" and "\<forall>p \<in> set ps. 104 \<le> length p \<and> length p \<le> 376"
    and "source_bytes s = concat (map frame_bytes ps)"
  shows "replay s m = (case run_until observe m ps of (m', ys, x) \<Rightarrow> (advisories ys, m', x))"
  using assms by (rule replay_frames)

theorem replay_is_run_witness:
  "replay [Piece (frame_bytes (sample_open 10 100)), Piece (frame_bytes (sample_connect 30 100 5))]
      sample_memory
    = (case run_until observe sample_memory [sample_open 10 100, sample_connect 30 100 5] of
         (m', ys, x) \<Rightarrow> (advisories ys, m', x))"
proof (rule replay_is_run)
  have "frame_bytes (sample_open 10 100) \<noteq> []" "frame_bytes (sample_connect 30 100 5) \<noteq> []"
    by (simp_all add: frame_bytes_def pack_frame_def ebpf_magic_def)
  then show "clean [Piece (frame_bytes (sample_open 10 100)), Piece (frame_bytes (sample_connect 30 100 5))]"
    by (simp add: clean_def)
  show "\<forall>p \<in> set [sample_open 10 100, sample_connect 30 100 5]. 104 \<le> length p \<and> length p \<le> 376"
    by code_simp
qed simp

text \<open>
  C7. A truncated stream is reported: when the source delivers complete frames and then a proper,
  nonempty part of one more, the replay yields the advisories of the complete frames, then raises
  \<open>TRUNCATED_EOF\<close>, with the memory cleared of every precursor.
\<close>

theorem replay_reports_truncation:
  assumes "clean s" and "\<forall>q \<in> set ps. 104 \<le> length q \<and> length q \<le> 376"
    and "104 \<le> length p" and "length p \<le> 376" and "0 < k" and "k < length (frame_bytes p)"
    and "source_bytes s = concat (map frame_bytes ps) @ take k (frame_bytes p)"
    and "run_until observe m ps = (m', ys, None)"
  shows "replay s m =
    (advisories ys, clear ''invalid_input'' True m', Some (ValueError ''TRUNCATED_EOF''))"
  using assms by (rule replay_truncated)

theorem replay_reports_truncation_witness:
  "replay [Piece (take 50 (frame_bytes (sample_open 10 100)))] sample_memory
    = ([], clear ''invalid_input'' True sample_memory, Some (ValueError ''TRUNCATED_EOF''))"
proof -
  have "length (sample_open 10 100) = 376" by code_simp
  then show ?thesis
    using replay_reports_truncation [of "[Piece (take 50 (frame_bytes (sample_open 10 100)))]" "[]"
        "sample_open 10 100" 50 sample_memory sample_memory "[]"]
    by (simp add: clean_def) (simp add: frame_bytes_def pack_frame_def ebpf_magic_def)
qed

text \<open>
  The program does not see the pieces of its input: two sources with the same bytes give the
  same standard output, the same error record and the same exit status.
\<close>

theorem pieces_irrelevant:
  assumes "clean s" and "clean t" and "source_bytes s = source_bytes t"
  shows "run_main (Some s) m = run_main (Some t) m"
  using replay_bytes [OF assms, of m] by (simp add: run_main_def)

theorem pieces_irrelevant_witness:
  "run_main (Some [Piece [69, 66], Piece [80]]) sample_memory
    = run_main (Some [Piece [69], Piece [66, 80]]) sample_memory"
  by (rule pieces_irrelevant) (simp_all add: clean_def)


lemma segment_between_iff:
  "segment_between pre suf p \<longleftrightarrow> (\<exists>x. x \<noteq> [] \<and> 47 \<notin> set x \<and> p = pre @ x @ suf)"
proof
  assume s: "segment_between pre suf p"
  let ?x = "take (length p - length pre - length suf) (drop (length pre) p)"
  have "p = take (length pre) p @ ?x @ drop (length p - length suf) p"
  proof -
    have "drop (length pre) p = ?x @ drop (length p - length pre - length suf) (drop (length pre) p)"
      by (rule append_take_drop_id [symmetric])
    moreover have "drop (length p - length pre - length suf) (drop (length pre) p)
        = drop (length p - length suf) p"
      using s by (simp add: segment_between_def add.commute)
    ultimately show ?thesis by (metis append_take_drop_id)
  qed
  with s show "\<exists>x. x \<noteq> [] \<and> 47 \<notin> set x \<and> p = pre @ x @ suf"
    by (intro exI [of _ ?x]) (auto simp: segment_between_def)
next
  assume "\<exists>x. x \<noteq> [] \<and> 47 \<notin> set x \<and> p = pre @ x @ suf"
  then show "segment_between pre suf p" by (auto simp: segment_between_def)
qed

text \<open>
  The paths that count as credentials are exactly \<open>/etc/shadow\<close>, \<open>/etc/gshadow\<close>, the host keys
  \<open>/etc/ssh/ssh_host_X_key\<close>, and the four kinds of private keys \<open>id_K\<close> in \<open>/root/.ssh\<close> and in
  \<open>/home/U/.ssh\<close>, where \<open>X\<close> and \<open>U\<close> are nonempty and contain no slash; nothing before or after.
\<close>

theorem credential_paths:
  "credential p \<longleftrightarrow> p = ucode ''/etc/shadow'' \<or> p = ucode ''/etc/gshadow''
     \<or> (\<exists>x. x \<noteq> [] \<and> 47 \<notin> set x \<and> p = ucode ''/etc/ssh/ssh_host_'' @ x @ ucode ''_key'')
     \<or> (\<exists>k. k \<in> set key_kinds \<and> p = ucode ''/root/.ssh/id_'' @ k)
     \<or> (\<exists>k u. k \<in> set key_kinds \<and> u \<noteq> [] \<and> 47 \<notin> set u
          \<and> p = ucode ''/home/'' @ u @ ucode ''/.ssh/id_'' @ k)"
  unfolding credential_def segment_between_iff list_ex_iff by auto

end
