(* ===== verification/Decode_Events.thy ===== *)
theory Decode_Events
  imports Wire
begin

section \<open>The event decoder: \<open>tools/decode-events.py\<close>\<close>

text \<open>
  \<open>decode_event\<close> turns a payload into the dictionary that is printed as a line of JSON: the fields
  of the common header, and the fields of its kind of event as a variant of \<open>body\<close>.  An event of
  another schema version or of an unknown kind raises \<open>UnsupportedEvent\<close>, which \<open>frames\<close> skips;
  any other defect raises \<open>ValueError\<close> and ends the decoding.
\<close>

subsection \<open>Data\<close>

record net_fields =
  n_duration :: int
  n_netns_id :: int
  n_netns_cookie :: int
  n_socket_cookie :: int
  n_retval :: int
  n_bytes_requested :: int
  n_sockfd :: int
  n_backlog :: int
  n_src_scope :: int
  n_dst_scope :: int
  n_family :: int
  n_socket_type :: int
  n_src_port :: int
  n_dst_port :: int
  n_old_state :: int
  n_new_state :: int
  n_protocol :: int
  n_src_ip :: "pystr option"
  n_dst_ip :: "pystr option"

datatype body =
    Fork (parent_pid: int) (child_pid: int) "int option" "int option"
  | Exec (parent_pid: int) (child_pid: int) pystr
  | Exit (parent_pid: int) (child_pid: int) int
  | SyscallEnter int
  | SyscallExit int int
  | File int int int int int int pystr
  | Network net_fields
  | Health int int int int int

text \<open>
  The dictionary: \<open>ev_head\<close> holds the fourteen integers from \<open>timestamp_ns\<close> to \<open>schema_version\<close>,
  \<open>ev_type\<close> and \<open>ev_comm\<close> the name of the kind and the decoded command.
\<close>

record event =
  ev_head :: header
  ev_type :: string
  ev_comm :: pystr
  ev_body :: body

definition event_name :: "int \<Rightarrow> string option" where
  "event_name k = map_of [(1, ''PROCESS_FORK''), (2, ''PROCESS_EXEC''), (3, ''PROCESS_EXIT''),
     (4, ''SYSCALL_ENTER''), (5, ''SYSCALL_EXIT''), (6, ''FILE_OPEN''), (7, ''FILE_UNLINK''),
     (8, ''NETWORK_CONNECT''), (9, ''NETWORK_BIND''), (10, ''NETWORK_LISTEN''),
     (11, ''NETWORK_ACCEPT''), (12, ''NETWORK_UDP_SEND''), (13, ''NETWORK_TCP_STATE''),
     (14, ''HEALTH'')] k"

definition event_size :: "int \<Rightarrow> int option" where
  "event_size k = (if 1 \<le> k \<and> k \<le> 7 then Some 376 else if 8 \<le> k \<and> k \<le> 13 then Some 200
     else if k = 14 then Some 128 else None)"

subsection \<open>Decoding a payload\<close>

definition c_string :: "bytes \<Rightarrow> pystr" where
  "c_string v = utf8_decode on_backslash (until_nul v)"

definition ip_string :: "int \<Rightarrow> bytes \<Rightarrow> bool \<Rightarrow> pystr option" where
  "ip_string family v valid =
    (if \<not> valid then None
     else if family = 2 then Some (ip_text (V4 (take 4 v)))
     else if family = 10 then Some (ip_text (V6 (take 16 v)))
     else None)"

text \<open>A signed field of \<open>n\<close> bytes.\<close>

definition rds :: "nat \<Rightarrow> bytes \<Rightarrow> nat \<Rightarrow> int" where
  "rds n b a = le_sint (bslice b a (a + n))"

definition network_fields :: "int \<Rightarrow> bytes \<Rightarrow> net_fields" where
  "network_fields flags p = \<lparr>n_duration = rd 8 p 88, n_netns_id = rd 8 p 96,
     n_netns_cookie = rd 8 p 104, n_socket_cookie = rd 8 p 112, n_retval = rds 8 p 120,
     n_bytes_requested = rd 8 p 128, n_sockfd = rd 4 p 136, n_backlog = rds 4 p 140,
     n_src_scope = rd 4 p 144, n_dst_scope = rd 4 p 148, n_family = rd 2 p 152,
     n_socket_type = rd 2 p 154, n_src_port = rd 2 p 156, n_dst_port = rd 2 p 158,
     n_old_state = rd 2 p 160, n_new_state = rd 2 p 162, n_protocol = rd 1 p 164,
     n_src_ip = ip_string (rd 2 p 152) (bslice p 168 184) (flags AND 32 \<noteq> 0),
     n_dst_ip = ip_string (rd 2 p 152) (bslice p 184 200) (flags AND 16 \<noteq> 0)\<rparr>"

definition event_body :: "int \<Rightarrow> int \<Rightarrow> bytes \<Rightarrow> body" where
  "event_body kind flags p =
    (if kind = 1 then
       (let valid = (flags AND 2048 \<noteq> 0) in
        Fork (rd 4 p 88) (rd 4 p 92) (if valid then Some (rd 4 p 100) else None)
          (if valid then Some (rd 8 p 104) else None))
     else if kind = 2 then Exec (rd 4 p 88) (rd 4 p 92) (c_string (bslice p 104 360))
     else if kind = 3 then Exit (rd 4 p 88) (rd 4 p 92) (rds 4 p 96)
     else if kind = 4 then SyscallEnter (rd 4 p 88)
     else if kind = 5 then SyscallExit (rd 4 p 88) (rds 8 p 96)
     else if kind = 6 \<or> kind = 7 then
       File (rd 8 p 88) (rd 8 p 96) (rd 4 p 104) (rd 4 p 108) (rd 4 p 112) (rd 4 p 116)
         (c_string (bslice p 120 376))
     else if 8 \<le> kind \<and> kind \<le> 13 then Network (network_fields flags p)
     else Health (rd 8 p 88) (rd 8 p 96) (rd 8 p 104) (rd 8 p 112) (rd 8 p 120))"

definition decode_event :: "bytes \<Rightarrow> event res" where
  "decode_event p =
    (if length p < 88 then Inl (ValueError ''short event payload'')
     else let h = unpack_header p in
       if h_schema h \<noteq> 1 then Inl (UnsupportedEvent ''unsupported schema version'')
       else (case (event_size (h_kind h), event_name (h_kind h)) of
           (Some expected, Some name) \<Rightarrow>
             (if h_size h \<noteq> int (length p)
              then Inl (ValueError ''event size does not match frame payload'')
              else if int (length p) \<noteq> expected then Inl (ValueError ''invalid payload size'')
              else Inr \<lparr>ev_head = h, ev_type = name, ev_comm = c_string (h_comm h),
                ev_body = event_body (h_kind h) (h_flags h) p\<rparr>)
         | _ \<Rightarrow> Inl (UnsupportedEvent ''unknown event type'')))"

subsection \<open>The frames of a file\<close>

text \<open>
  \<open>frames(stream)\<close> over the bytes of the file: \<open>stream.read(n)\<close> returns the next \<open>n\<close> bytes, or what
  is left.  The result is the list of the events it yields and the error that ends it.
\<close>

definition frame_check :: "frame_hdr \<Rightarrow> py_error option" where
  "frame_check h =
    (if fh_magic h \<noteq> ebpf_magic \<or> fh_version h \<noteq> 1 \<or> fh_little h \<noteq> 1
     then Some (ValueError ''unsupported binary frame'')
     else if fh_reserved h \<noteq> 0 then Some (ValueError ''non-zero reserved frame field'')
     else if fh_size h < 88 \<or> 376 < fh_size h then Some (ValueError ''invalid frame payload size'')
     else None)"

function frames :: "bytes \<Rightarrow> event list \<times> py_error option" where
  "frames b =
    (if b = [] then ([], None)
     else if length b < 12 then ([], Some (ValueError ''truncated frame header''))
     else let h = unpack_frame b; n = nat (fh_size h) in
       (case frame_check h of
          Some e \<Rightarrow> ([], Some e)
        | None \<Rightarrow>
           (if length (drop 12 b) < n then ([], Some (ValueError ''truncated frame payload''))
            else (case decode_event (take n (drop 12 b)) of
                Inl (UnsupportedEvent _) \<Rightarrow> frames (drop (12 + n) b)
              | Inl e \<Rightarrow> ([], Some e)
              | Inr ev \<Rightarrow> apfst (Cons ev) (frames (drop (12 + n) b))))))"
  by pat_completeness auto
termination
  by (relation "measure length") auto

declare frames.simps [simp del]

text \<open>
  \<open>main\<close>: an event type that is given and nonempty filters the events; with \<open>--count\<close> only their
  number is printed, once all were decoded; otherwise a line per event, up to the error.
\<close>

definition decode_main :: "bool \<Rightarrow> string option \<Rightarrow> bytes \<Rightarrow> event list \<times> nat option \<times> py_error option" where
  "decode_main counting event_type b =
    (let (evs, err) = frames b;
         shown = (case event_type of None \<Rightarrow> evs
           | Some t \<Rightarrow> if t = [] then evs else filter (\<lambda>e. ev_type e = t) evs)
     in if counting then ([], if err = None then Some (length shown) else None, err)
        else (shown, None, err))"

subsection \<open>Lemmas\<close>

lemma event_name_size: "event_size k \<noteq> None \<longleftrightarrow> event_name k \<noteq> None"
  by (auto simp: event_size_def event_name_def)

lemma decode_event_Inr:
  "decode_event p = Inr ev \<longleftrightarrow>
     88 \<le> length p \<and> h_schema (unpack_header p) = 1
     \<and> h_size (unpack_header p) = int (length p)
     \<and> event_size (h_kind (unpack_header p)) = Some (int (length p))
     \<and> event_name (h_kind (unpack_header p)) = Some (ev_type ev)
     \<and> ev = \<lparr>ev_head = unpack_header p, ev_type = ev_type ev,
          ev_comm = c_string (h_comm (unpack_header p)),
          ev_body = event_body (h_kind (unpack_header p)) (h_flags (unpack_header p)) p\<rparr>"
  by (auto simp: decode_event_def Let_def split: option.splits if_splits)

lemma c_string_padded:
  assumes "\<forall>c \<in> set s. is_scalar c \<and> c \<noteq> 0"
  shows "c_string (utf8_encode s @ replicate n 0) = s"
proof -
  have "until_nul (utf8_encode s @ replicate n 0) = concat (map utf8_encode1 s)"
    using until_nul_padded [OF utf8_encode_no_nul [OF assms]] map_uint_utf8_encode assms by simp
  then show ?thesis
    using utf8_decode_encode [of s on_backslash] assms by (simp add: c_string_def)
qed

text \<open>One frame of the collector, whatever follows.\<close>

lemma frames_frame:
  assumes "88 \<le> length p" "length p \<le> 376"
  shows "frames (frame_bytes p @ x) =
    (case decode_event p of
       Inl (UnsupportedEvent _) \<Rightarrow> frames x
     | Inl e \<Rightarrow> ([], Some e)
     | Inr ev \<Rightarrow> apfst (Cons ev) (frames x))"
proof -
  have f: "fits 4 (int (length p))" using assms by (simp add: fits_def)
  define b where "b = frame_bytes p @ x"
  have u: "unpack_frame b = \<lparr>fh_magic = ebpf_magic, fh_version = 1,
      fh_little = 1, fh_reserved = 0, fh_size = int (length p)\<rparr>"
    using unpack_pack_frame [OF f] by (simp add: b_def frame_bytes_def)
  have d: "drop 12 b = p @ x" "drop (12 + length p) b = x"
    by (simp_all add: b_def frame_bytes_def)
  have len: "\<not> length b < 12" by (simp add: b_def)
  then have ne: "b \<noteq> []" by auto
  have n: "nat (fh_size (unpack_frame b)) = length p" by (simp add: u)
  have chk: "frame_check (unpack_frame b) = None" using assms by (simp add: u frame_check_def)
  have "frames b =
    (case decode_event p of
       Inl (UnsupportedEvent _) \<Rightarrow> frames (drop (12 + length p) b)
     | Inl e \<Rightarrow> ([], Some e)
     | Inr ev \<Rightarrow> apfst (Cons ev) (frames (drop (12 + length p) b)))"
    unfolding frames.simps [of b] Let_def n using ne len d(1) chk by simp
  then show ?thesis unfolding d(2) by (simp only: b_def)
qed

lemma frames_stream:
  assumes "\<forall>p \<in> set ps. 88 \<le> length p \<and> length p \<le> 376 \<and> (\<exists>ev. decode_event p = Inr ev)"
  shows "frames (concat (map frame_bytes ps)) = (map (\<lambda>p. projr (decode_event p)) ps, None)"
  using assms
proof (induction ps)
  case Nil
  then show ?case by (simp add: frames.simps [of "[]"])
next
  case (Cons p ps)
  then show ?case
    using frames_frame [of p "concat (map frame_bytes ps)"] by auto
qed

end
