(* ===== verification/Py_Parse.thy ===== *)
theory Py_Parse
  imports Py_Text
begin

section \<open>Parsing text: lines, fields and integers\<close>

text \<open>
  The string methods of Python that the tools parse their inputs with, on strings as lists of code
  points, and the sequencing of fallible computations.
\<close>

subsection \<open>Results in sequence\<close>

fun bind_res :: "'a res \<Rightarrow> ('a \<Rightarrow> 'b res) \<Rightarrow> 'b res" where
  "bind_res (Inl e) f = Inl e"
| "bind_res (Inr a) f = f a"

lemma bind_res_Inr: "bind_res x f = Inr b \<longleftrightarrow> (\<exists>a. x = Inr a \<and> f a = Inr b)"
  by (cases x) auto

subsection \<open>Fields and lines\<close>

text \<open>\<open>str.split(c)\<close> for one separator.\<close>

fun split_on :: "int \<Rightarrow> pystr \<Rightarrow> pystr list" where
  "split_on c [] = [[]]"
| "split_on c (x # xs) =
     (case split_on c xs of
        p # ps \<Rightarrow> if x = c then [] # p # ps else (x # p) # ps
      | [] \<Rightarrow> [[]])"

lemma split_on_nonempty: "split_on c s \<noteq> []"
  by (induction s) (auto split: list.splits)

text \<open>The lines of a text file, with the newline translation of \<open>open\<close>; a line keeps its newline.\<close>

fun file_lines_from :: "pystr \<Rightarrow> pystr \<Rightarrow> pystr list" where
  "file_lines_from acc [] = (if acc = [] then [] else [rev acc])"
| "file_lines_from acc (c # cs) =
     (if c = 10 then rev (10 # acc) # file_lines_from [] cs
      else if c = 13 then
        rev (10 # acc) # file_lines_from [] (if take 1 cs = [10] then drop 1 cs else cs)
      else file_lines_from (c # acc) cs)"

definition file_lines :: "pystr \<Rightarrow> pystr list" where
  "file_lines s = file_lines_from [] s"

text \<open>\<open>str.isspace\<close> and \<open>str.strip()\<close>.\<close>

definition is_space :: "int \<Rightarrow> bool" where
  "is_space c \<longleftrightarrow> (9 \<le> c \<and> c \<le> 13) \<or> (28 \<le> c \<and> c \<le> 32) \<or> c = 133 \<or> c = 160 \<or> c = 5760
     \<or> (8192 \<le> c \<and> c \<le> 8202) \<or> c = 8232 \<or> c = 8233 \<or> c = 8239 \<or> c = 8287 \<or> c = 12288"

definition strip :: "pystr \<Rightarrow> pystr" where
  "strip s = rev (dropWhile is_space (rev (dropWhile is_space s)))"

subsection \<open>Integers\<close>

definition is_digit :: "int \<Rightarrow> bool" where
  "is_digit c \<longleftrightarrow> 48 \<le> c \<and> c \<le> 57"

definition digits_value :: "pystr \<Rightarrow> int" where
  "digits_value s = foldl (\<lambda>n c. 10 * n + (c - 48)) 0 s"

text \<open>
  \<open>int(text)\<close> for ASCII text: blanks around, an optional sign, digits with single underscores between
  them.  Python accepts the decimal digits of other scripts too; no input of the tools has them.
\<close>

fun digit_groups :: "pystr \<Rightarrow> bool" where
  "digit_groups [] = False"
| "digit_groups [c] = is_digit c"
| "digit_groups (c # d # cs) =
     (is_digit c \<and> (if d = 95 then digit_groups cs else digit_groups (d # cs)))"

definition parse_int :: "pystr \<Rightarrow> int res" where
  "parse_int text =
    (let s = strip text; sign = (take 1 s = [45]);
         body = (if sign \<or> take 1 s = [43] then drop 1 s else s)
     in if digit_groups body
        then Inr ((if sign then - 1 else 1) * digits_value (filter (\<lambda>c. c \<noteq> 95) body))
        else Inl (ValueError ''invalid literal for int''))"

text \<open>\<open>str.isdigit\<close> of an ASCII text.\<close>

definition isdigit_text :: "pystr \<Rightarrow> bool" where
  "isdigit_text s \<longleftrightarrow> s \<noteq> [] \<and> list_all is_digit s"

text \<open>\<open>str.startswith\<close>.\<close>

definition starts_with :: "pystr \<Rightarrow> pystr \<Rightarrow> bool" where
  "starts_with s t \<longleftrightarrow> take (length t) s = t"

lemma parse_int_samples:
  "parse_int (ucode '' 12'') = Inr 12" "parse_int (ucode ''-1_000'') = Inr (- 1000)"
  "parse_int (ucode ''+7'' @ [10]) = Inr 7" "isl (parse_int (ucode ''1__0''))"
  "isl (parse_int (ucode ''_1''))" "isl (parse_int [])" "isl (parse_int (ucode ''1_''))"
  "isl (parse_int (ucode ''- 1''))"
  by code_simp+

end
