(* ===== verification/Handoff_Samples.thy ===== *)
theory Handoff_Samples
  imports Decode_Events Py_Parse
begin

section \<open>The sample generator: \<open>tools/generate-handoff-samples.py\<close>\<close>

text \<open>
  The generator packs nineteen records of schema version 1, one per kind of event and scenario, into
  a binary file and writes a manifest that gives each scenario its lines.  The builders are modelled
  with their packing errors: \<open>struct.pack\<close> raises when a value does not fit its field.
\<close>

subsection \<open>\<open>struct.pack\<close>\<close>

text \<open>An unsigned and a signed integer of \<open>n\<close> bytes, an \<open>n\<close>s field, and \<open>n\<close> pad bytes.\<close>

datatype fld = U nat int | S nat int | Raw nat bytes | Pad nat

fun fld_ok :: "fld \<Rightarrow> bool" where
  "fld_ok (U n x) = fits n x"
| "fld_ok (S n x) = sfits n x"
| "fld_ok (Raw n b) = True"
| "fld_ok (Pad n) = True"

fun fld_bytes :: "fld \<Rightarrow> bytes" where
  "fld_bytes (U n x) = to_le n x"
| "fld_bytes (S n x) = to_le n x"
| "fld_bytes (Raw n b) = take n (b @ replicate n 0)"
| "fld_bytes (Pad n) = replicate n 0"

definition struct_pack :: "fld list \<Rightarrow> bytes res" where
  "struct_pack fs = (if list_all fld_ok fs then Inr (concat (map fld_bytes fs)) else Inl StructError)"

subsection \<open>Text and addresses\<close>

text \<open>\<open>str.encode\<close> raises \<open>UnicodeEncodeError\<close> (a \<open>ValueError\<close>) on a surrogate.\<close>

definition fixed_bytes :: "pystr \<Rightarrow> nat \<Rightarrow> bytes res" where
  "fixed_bytes value n =
    (if list_all is_scalar value then
       let encoded = utf8_encode value;
           cut = (if n \<le> length encoded then take (n - 1) encoded else encoded)
       in Inr (cut @ replicate (n - length cut) 0)
     else Inl (ValueError ''surrogates not allowed''))"

text \<open>An IPv4 octet: one to three ASCII digits, no leading zero, at most 255.\<close>

definition parse_octet :: "pystr \<Rightarrow> byte option" where
  "parse_octet s =
    (if s = [] \<or> \<not> list_all is_digit s \<or> 3 < length s then None
     else if s \<noteq> [48] \<and> hd s = 48 then None
     else if 255 < digits_value s then None
     else Some (word_of_int (digits_value s)))"

definition parse_ipv4 :: "pystr \<Rightarrow> bytes option" where
  "parse_ipv4 s =
    (let parts = map parse_octet (split_on 46 s) in
     if length parts = 4 \<and> list_all (\<lambda>p. p \<noteq> None) parts then Some (map the parts) else None)"

text \<open>An IPv6 group: one to four hexadecimal digits.\<close>

definition hex_value :: "int \<Rightarrow> int option" where
  "hex_value c = (if is_digit c then Some (c - 48)
     else if 97 \<le> c \<and> c \<le> 102 then Some (c - 87)
     else if 65 \<le> c \<and> c \<le> 70 then Some (c - 55) else None)"

definition parse_group :: "pystr \<Rightarrow> bytes option" where
  "parse_group s =
    (if s = [] \<or> \<not> list_all (\<lambda>c. hex_value c \<noteq> None) s \<or> 4 < length s then None
     else let n = foldl (\<lambda>n c. 16 * n + the (hex_value c)) 0 s in
       Some [word_of_int (n div 256), word_of_int (n mod 256)])"

text \<open>\<open>_ip_int_from_string\<close>: an embedded IPv4 tail counts for two groups, \<open>::\<close> for the missing ones.\<close>

definition join_groups :: "pystr list \<Rightarrow> bytes option" where
  "join_groups gs = (let ps = map parse_group gs in
     if list_all (\<lambda>p. p \<noteq> None) ps then Some (concat (map the ps)) else None)"

definition ipv6_tail :: "pystr list \<Rightarrow> (pystr list \<times> bytes) option" where
  "ipv6_tail parts =
    (if 46 \<in> set (last parts)
     then map_option (\<lambda>b. (butlast parts, b)) (parse_ipv4 (last parts))
     else Some (parts, []))"

definition ipv6_groups :: "pystr list \<Rightarrow> nat \<Rightarrow> bytes option" where
  "ipv6_groups parts tail_groups =
    (let n = length parts + tail_groups; all = parts @ replicate tail_groups [48];
         skips = filter (\<lambda>i. all ! i = []) [1..<n - 1] in
     if 9 < n \<or> 1 < length skips then None
     else (case skips of
         [] \<Rightarrow> if n = 8 \<and> hd all \<noteq> [] \<and> last all \<noteq> [] then join_groups parts else None
       | k # _ \<Rightarrow>
         (let hi = (if all ! 0 = [] then k - 1 else k);
              lo = (if last all = [] then n - k - 2 else n - k - 1)
          in if all ! 0 = [] \<and> hi \<noteq> 0 \<or> last all = [] \<and> lo \<noteq> 0 \<or> 7 < hi + lo then None
             else (case (join_groups (take hi parts),
                         join_groups (take (lo - tail_groups) (drop (length parts - (lo - tail_groups)) parts))) of
                 (Some a, Some b) \<Rightarrow> Some (a @ replicate (2 * (8 - (hi + lo))) 0 @ b)
               | _ \<Rightarrow> None))))"

text \<open>\<open>_split_scope_id\<close>: one percent sign may separate the address from a nonempty scope.\<close>

definition strip_scope :: "pystr \<Rightarrow> pystr option" where
  "strip_scope s =
    (if 37 \<notin> set s then Some s
     else let scope = tl (dropWhile (\<lambda>c. c \<noteq> 37) s) in
       if scope = [] \<or> 37 \<in> set scope then None else Some (takeWhile (\<lambda>c. c \<noteq> 37) s))"

definition parse_ipv6 :: "pystr \<Rightarrow> bytes option" where
  "parse_ipv6 s =
    (case (if 47 \<in> set s then None else strip_scope s) of
       None \<Rightarrow> None
     | Some a \<Rightarrow>
       (let parts = split_on 58 a in
        if a = [] \<or> length parts < 3 then None
        else (case ipv6_tail parts of
            None \<Rightarrow> None
          | Some (ps, tl4) \<Rightarrow>
              map_option (\<lambda>g. g @ tl4) (ipv6_groups ps (if tl4 = [] then 0 else 2)))))"

definition parse_ip :: "pystr \<Rightarrow> ip res" where
  "parse_ip s = (case parse_ipv4 s of Some b \<Rightarrow> Inr (V4 b)
     | None \<Rightarrow> (case parse_ipv6 s of Some b \<Rightarrow> Inr (V6 b)
         | None \<Rightarrow> Inl (ValueError ''does not appear to be an IPv4 or IPv6 address'')))"

lemma parse_ip_samples:
  "parse_ip (ucode ''203.0.113.10'') = Inr (V4 [203, 0, 113, 10])"
  "parse_ip (ucode ''::1'') = Inr (V6 (replicate 15 0 @ [1]))"
  "parse_ip (ucode ''2001:db8::1'') = Inr (V6 ([32, 1, 13, 184] @ replicate 11 0 @ [1]))"
  "parse_ip (ucode ''::ffff:1.2.3.4'') = Inr (V6 (replicate 10 0 @ [255, 255, 1, 2, 3, 4]))"
  "parse_ip (ucode ''1:2:3:4:5:6:7:8'') = Inr (V6 [0, 1, 0, 2, 0, 3, 0, 4, 0, 5, 0, 6, 0, 7, 0, 8])"
  "parse_ip (ucode ''fe80::'') = Inr (V6 ([254, 128] @ replicate 14 0))"
  "\<not> isl (parse_ip (ucode ''::''))" "isl (parse_ip (ucode ''1::2::3''))" "isl (parse_ip (ucode ''01.2.3.4''))"
  "parse_ip (ucode ''::1%eth0'') = Inr (V6 (replicate 15 0 @ [1]))"
  "isl (parse_ip (ucode '':1:2:3:4:5:6:7''))" "isl (parse_ip (ucode ''1.2.3''))"
  by code_simp+

fun packed :: "ip \<Rightarrow> bytes" where
  "packed (V4 b) = b"
| "packed (V6 b) = b"

definition address :: "pystr \<Rightarrow> (int \<times> bytes) res" where
  "address value = bind_res (parse_ip value) (\<lambda>parsed.
     let family = (case parsed of V4 _ \<Rightarrow> 2 | V6 _ \<Rightarrow> 10) in
     Inr (family, packed parsed @ replicate (16 - length (packed parsed)) 0))"

subsection \<open>The record builders\<close>

definition task_start :: "int \<Rightarrow> int" where
  "task_start pid = (if pid = 0 then 0 else 9000000000 + pid * 1000)"

text \<open>\<open>COMMON.pack\<close>: every field has to fit its width.\<close>

definition pack_common :: "header \<Rightarrow> bytes res" where
  "pack_common h = struct_pack [U 8 (h_ts h), U 8 (h_cgroup h), U 8 (h_start h), U 4 (h_pid h),
     U 4 (h_tgid h), U 4 (h_npid h), U 4 (h_ntgid h), U 4 (h_ppid h), U 4 (h_uid h), U 4 (h_gid h),
     U 4 (h_cpu h), S 4 (h_result h), U 4 (h_size h), U 4 (h_flags h), U 2 (h_schema h),
     U 2 (h_kind h), Raw 16 (h_comm h)]"

definition common_header :: "int \<Rightarrow> int \<Rightarrow> int \<Rightarrow> int \<Rightarrow> int \<Rightarrow> int \<Rightarrow> int \<Rightarrow> int \<Rightarrow> int \<Rightarrow> int \<Rightarrow> bytes
    \<Rightarrow> header" where
  "common_header ts kind sz pid ppid uid cgroup start result flags comm =
     \<lparr>h_ts = ts, h_cgroup = cgroup, h_start = start, h_pid = pid, h_tgid = pid, h_npid = pid,
      h_ntgid = pid, h_ppid = ppid, h_uid = uid, h_gid = uid, h_cpu = 2, h_result = result,
      h_size = sz, h_flags = flags, h_schema = 1, h_kind = kind, h_comm = comm\<rparr>"

definition common :: "int \<Rightarrow> int \<Rightarrow> int \<Rightarrow> int \<Rightarrow> int \<Rightarrow> int \<Rightarrow> int \<Rightarrow> int \<Rightarrow> int \<Rightarrow> int \<Rightarrow> pystr
    \<Rightarrow> bytes res" where
  "common ts kind sz pid ppid uid cgroup start result flags comm =
     bind_res (fixed_bytes comm 16) (\<lambda>c.
       pack_common (common_header ts kind sz pid ppid uid cgroup start result flags c))"

definition host_record :: "bytes \<Rightarrow> bytes \<Rightarrow> bytes res" where
  "host_record head payload =
    (let record = head @ payload in
     if 376 < length record then Inl (ValueError ''host event exceeds schema-v1 size'')
     else Inr (record @ replicate (376 - length record) 0))"

definition process_record :: "int \<Rightarrow> int \<Rightarrow> int \<Rightarrow> int \<Rightarrow> pystr \<Rightarrow> pystr \<Rightarrow> int \<Rightarrow> int option
    \<Rightarrow> int option \<Rightarrow> bytes res" where
  "process_record kind ts pid ppid comm filename exit_code parent child =
     bind_res (common ts kind 376 pid ppid 1000 4242 (task_start pid)
        (if kind = 3 then exit_code else 0) 0 comm) (\<lambda>head.
     bind_res (fixed_bytes filename 256) (\<lambda>name.
     bind_res (struct_pack [U 4 (case parent of None \<Rightarrow> if kind = 1 then pid else ppid | Some p \<Rightarrow> p),
        U 4 (case child of None \<Rightarrow> pid | Some c \<Rightarrow> c), S 4 exit_code, U 4 0, Raw 256 name])
     (\<lambda>payload. host_record head payload)))"

definition syscall_record :: "int \<Rightarrow> int \<Rightarrow> int \<Rightarrow> int \<Rightarrow> int \<Rightarrow> int \<Rightarrow> bytes res" where
  "syscall_record kind ts pid ppid syscall_id return_value =
     bind_res (common ts kind 376 pid ppid 1000 4242 (task_start pid) return_value 0 (ucode ''curl''))
     (\<lambda>head. bind_res (struct_pack [U 4 syscall_id, U 4 0, S 8 return_value])
     (\<lambda>payload. host_record head payload))"

definition file_record :: "int \<Rightarrow> int \<Rightarrow> int \<Rightarrow> int \<Rightarrow> pystr \<Rightarrow> pystr \<Rightarrow> int \<Rightarrow> int \<Rightarrow> int \<Rightarrow> int
    \<Rightarrow> bytes res" where
  "file_record kind ts pid ppid comm path inode directory_inode operation flags =
     bind_res (common ts kind 376 pid ppid 1000 4242 (task_start pid) 0 flags comm) (\<lambda>head.
     bind_res (fixed_bytes path 256) (\<lambda>p.
     bind_res (struct_pack [U 8 inode, U 8 directory_inode, U 4 2049, U 4 0, U 4 0, U 4 operation,
        Raw 256 p]) (\<lambda>payload. host_record head payload)))"

text \<open>The arguments of \<open>network_record\<close>, the keyword ones with their defaults.\<close>

record net_args =
  na_kind :: int
  na_ts :: int
  na_pid :: int
  na_ppid :: int
  na_comm :: pystr
  na_src :: pystr
  na_sport :: int
  na_dst :: pystr
  na_dport :: int
  na_protocol :: int
  na_retval :: int
  na_socket_type :: int
  na_bytes :: int
  na_backlog :: int
  na_old :: int
  na_new :: int
  na_uncertain :: bool
  na_src_valid :: bool
  na_dst_valid :: bool
  na_cookie :: "int option"

definition net_call :: "int \<Rightarrow> int \<Rightarrow> int \<Rightarrow> int \<Rightarrow> string \<Rightarrow> string \<Rightarrow> int \<Rightarrow> string \<Rightarrow> int \<Rightarrow> int
    \<Rightarrow> net_args" where
  "net_call kind ts pid ppid comm src sport dst dport protocol = \<lparr>na_kind = kind, na_ts = ts,
     na_pid = pid, na_ppid = ppid, na_comm = ucode comm, na_src = ucode src, na_sport = sport,
     na_dst = ucode dst, na_dport = dport, na_protocol = protocol, na_retval = 0,
     na_socket_type = 1, na_bytes = 0, na_backlog = 0, na_old = 0, na_new = 0,
     na_uncertain = False, na_src_valid = True, na_dst_valid = True, na_cookie = None\<rparr>"

definition net_flags :: "net_args \<Rightarrow> int" where
  "net_flags a = (64 OR 128 OR 256) OR (if na_src_valid a then 32 else 0)
     OR (if na_dst_valid a then 16 else 0) OR (if na_uncertain a then 512 else 0)"

definition network_record :: "net_args \<Rightarrow> bytes res" where
  "network_record a =
     bind_res (address (na_src a)) (\<lambda>(family, source).
     bind_res (address (na_dst a)) (\<lambda>(destination_family, destination).
     if family \<noteq> destination_family
     then Inl (ValueError ''sample endpoints must use the same address family'')
     else bind_res (common (na_ts a) (na_kind a) 200 (na_pid a) (na_ppid a) 1000 4242
            (task_start (na_pid a)) (na_retval a) (net_flags a) (na_comm a)) (\<lambda>head.
       bind_res (struct_pack [U 8 120000, U 8 4026531993, U 8 9001,
          U 8 (case na_cookie a of None \<Rightarrow> 7000 + na_pid a | Some c \<Rightarrow> c), S 8 (na_retval a),
          U 8 (na_bytes a), U 4 5, S 4 (na_backlog a), U 4 0, U 4 0, U 2 family,
          U 2 (na_socket_type a), U 2 (na_sport a), U 2 (na_dport a), U 2 (na_old a),
          U 2 (na_new a), U 1 (na_protocol a), Pad 3, Raw 16 source, Raw 16 destination])
       (\<lambda>payload.
         if length (head @ payload) \<noteq> 200
         then Inl (ValueError ''invalid generated network record size'')
         else Inr (head @ payload)))))"

definition health_record :: "int \<Rightarrow> int \<Rightarrow> int \<Rightarrow> int \<Rightarrow> int \<Rightarrow> int \<Rightarrow> bytes res" where
  "health_record ts queue_dropped priority_dropped ringbuf_lost filtered rate_limited =
     bind_res (common ts 14 128 9000 1 65534 0 (task_start 9000) 0 1024 (ucode ''ebpf-agent'')) (\<lambda>head.
     bind_res (struct_pack [U 8 queue_dropped, U 8 priority_dropped, U 8 ringbuf_lost,
        U 8 filtered, U 8 rate_limited]) (\<lambda>payload.
       if length (head @ payload) \<noteq> 128 then Inl (ValueError ''invalid generated health record size'')
       else Inr (head @ payload)))"

subsection \<open>The samples\<close>

text \<open>\<open>add\<close> appends a record with its scenario; a builder that raises ends the construction.\<close>

definition sample_calls :: "(string \<times> bytes res) list" where
  "sample_calls = (let base = 10000000000; web = ''normal_web_service''; egress = ''suspicious_shell_egress'' in
    [(web, process_record 1 (base + 1) 1100 1 (ucode ''systemd'') [] 0 None (Some 1101)),
     (web, process_record 2 (base + 2) 1101 1 (ucode ''nginx'') (ucode ''/usr/sbin/nginx'') 0 None None),
     (web, network_record ((net_call 9 (base + 3) 1101 1 ''nginx'' ''0.0.0.0'' 443 ''0.0.0.0'' 0 6)
        \<lparr>na_dst_valid := False\<rparr>)),
     (web, network_record ((net_call 10 (base + 4) 1101 1 ''nginx'' ''0.0.0.0'' 443 ''0.0.0.0'' 0 6)
        \<lparr>na_backlog := 128, na_src_valid := False, na_dst_valid := False\<rparr>)),
     (web, network_record (net_call 11 (base + 5) 1101 1 ''nginx''
        ''198.51.100.23'' 53000 ''192.0.2.10'' 443 6)),
     (web, file_record 6 (base + 6) 1101 1 (ucode ''nginx'') (ucode ''/var/log/nginx/access.log'')
        12001 0 1 0),
     (web, process_record 3 (base + 7) 1101 1 (ucode ''nginx'') [] 0 None None),
     (egress, process_record 2 (base + 20) 2201 1101 (ucode ''sh'') (ucode ''/bin/sh'') 0 None None),
     (egress, process_record 2 (base + 21) 2202 2201 (ucode ''curl'') (ucode ''/usr/bin/curl'') 0 None None),
     (egress, syscall_record 4 (base + 22) 2202 2201 257 0),
     (egress, file_record 6 (base + 23) 2202 2201 (ucode ''curl'') (ucode ''/etc/shadow'') 13001 0 1 0),
     (egress, syscall_record 5 (base + 24) 2202 2201 257 3),
     (egress, network_record ((net_call 8 (base + 25) 2202 2201 ''curl''
        ''192.0.2.10'' 41000 ''203.0.113.10'' 4444 6)\<lparr>na_cookie := Some 9202\<rparr>)),
     (egress, file_record 7 (base + 26) 2202 2201 (ucode ''curl'') (ucode ''audit.log'') 13002 900 2 4),
     (''failed_connection'', network_record ((net_call 8 (base + 40) 3301 1 ''python3''
        ''0.0.0.0'' 0 ''203.0.113.20'' 22 6)\<lparr>na_retval := - 111, na_src_valid := False\<rparr>)),
     (''udp_dns_like'', network_record ((net_call 12 (base + 50) 4401 1 ''resolver''
        ''192.0.2.10'' 53053 ''203.0.113.53'' 53 17)
        \<lparr>na_socket_type := 2, na_bytes := 32, na_retval := 32\<rparr>)),
     (''tcp_state_uncertain'', network_record ((net_call 13 (base + 60) 0 0 []
        ''192.0.2.10'' 41000 ''203.0.113.10'' 4444 6)
        \<lparr>na_old := 2, na_new := 1, na_uncertain := True, na_cookie := Some 9202\<rparr>)),
     (''healthy_collection'', health_record (base + 70) 0 0 0 0 0),
     (''degraded_collection'', health_record (base + 80) 25 1 3 40 12)])"

fun collect :: "(string \<times> bytes res) list \<Rightarrow> (string \<times> bytes) list res" where
  "collect [] = Inr []"
| "collect ((s, r) # cs) = bind_res r (\<lambda>b. bind_res (collect cs) (\<lambda>es. Inr ((s, b) # es)))"

record scenario =
  sc_id :: string
  sc_truth :: string
  sc_start :: nat
  sc_end :: nat
  sc_count :: nat

text \<open>The dictionary \<open>definitions\<close> with its ground truths; the prose descriptions are left out.\<close>

definition scenario_truths :: "(string \<times> string) list" where
  "scenario_truths = [(''normal_web_service'', ''normal''), (''suspicious_shell_egress'', ''suspicious''),
     (''failed_connection'', ''context_only''), (''udp_dns_like'', ''normal''),
     (''tcp_state_uncertain'', ''context_only''), (''healthy_collection'', ''telemetry''),
     (''degraded_collection'', ''telemetry_degraded'')]"

definition scenario_lines :: "string \<Rightarrow> (string \<times> bytes) list \<Rightarrow> nat list" where
  "scenario_lines s events = map Suc (filter (\<lambda>i. fst (events ! i) = s) [0..<length events])"

text \<open>\<open>min\<close> and \<open>max\<close> of an empty list raise \<open>ValueError\<close>.\<close>

fun scenarios :: "(string \<times> string) list \<Rightarrow> (string \<times> bytes) list \<Rightarrow> scenario list res" where
  "scenarios [] events = Inr []"
| "scenarios ((s, truth) # ds) events =
     (let lines = scenario_lines s events in
      if lines = [] then Inl (ValueError ''min() arg is an empty sequence'')
      else bind_res (scenarios ds events) (\<lambda>rest.
        Inr (\<lparr>sc_id = s, sc_truth = truth, sc_start = fold min (tl lines) (hd lines),
          sc_end = fold max (tl lines) (hd lines), sc_count = length lines\<rparr> # rest)))"

definition build_samples :: "((string \<times> bytes) list \<times> scenario list) res" where
  "build_samples = bind_res (collect sample_calls) (\<lambda>events.
     bind_res (scenarios scenario_truths events) (\<lambda>ss. Inr (events, ss)))"

text \<open>\<open>main\<close>: the binary file and the scenarios of the manifest.\<close>

definition generate_main :: "(bytes \<times> scenario list) res" where
  "generate_main = bind_res build_samples (\<lambda>(events, ss).
     if list_all (\<lambda>e. fits 4 (int (length (snd e)))) events
     then Inr (concat (map (\<lambda>e. frame_bytes (snd e)) events), ss) else Inl StructError)"

end
