(* ===== verification/Handoff_Bundle.thy ===== *)
theory Handoff_Bundle
  imports Handoff_Samples
begin

section \<open>The bundle validator: \<open>tools/validate-handoff-bundle.py\<close>\<close>

text \<open>
  The checks on the decoded sample events and the scenario ranges, and the check of the checksum
  file against the files of the bundle.  A bundle is the dictionary from relative POSIX paths to the
  contents of its regular files.  The hash function, the JSON parser and the optional
  \<open>jsonschema\<close> package are parameters or left out: events are the dictionaries the decoder writes.
\<close>

subsection \<open>The sample events\<close>

definition event_types :: "string list" where
  "event_types = [''PROCESS_FORK'', ''PROCESS_EXEC'', ''PROCESS_EXIT'', ''SYSCALL_ENTER'',
     ''SYSCALL_EXIT'', ''FILE_OPEN'', ''FILE_UNLINK'', ''NETWORK_CONNECT'', ''NETWORK_BIND'',
     ''NETWORK_LISTEN'', ''NETWORK_ACCEPT'', ''NETWORK_UDP_SEND'', ''NETWORK_TCP_STATE'', ''HEALTH'']"

definition documentation_networks :: "bytes list" where
  "documentation_networks = [[192, 0, 2], [198, 51, 100], [203, 0, 113]]"

text \<open>The keys of the dictionary of an event.\<close>

fun body_keys :: "body \<Rightarrow> string list" where
  "body_keys (Fork _ _ _ _) = [''parent_pid'', ''child_pid'', ''child_tgid'', ''child_task_start_ns'']"
| "body_keys (Exec _ _ _) = [''parent_pid'', ''child_pid'', ''filename'']"
| "body_keys (Exit _ _ _) = [''parent_pid'', ''child_pid'', ''exit_code_raw'']"
| "body_keys (SyscallEnter _) = [''syscall_id'']"
| "body_keys (SyscallExit _ _) = [''syscall_id'', ''return_value'']"
| "body_keys (File _ _ _ _ _ _ _) = [''inode'', ''directory_inode'', ''device'', ''open_flags'',
     ''mode'', ''operation'', ''path'']"
| "body_keys (Network _) = [''duration_ns'', ''netns_id'', ''netns_cookie'', ''socket_cookie'',
     ''retval'', ''bytes_requested'', ''sockfd'', ''backlog'', ''src_scope_id'', ''dst_scope_id'',
     ''family'', ''socket_type'', ''src_port'', ''dst_port'', ''old_state'', ''new_state'',
     ''protocol'', ''src_ip'', ''dst_ip'']"
| "body_keys (Health _ _ _ _ _) = [''writer_queue_dropped'', ''writer_priority_dropped'',
     ''kernel_ringbuf_lost'', ''network_filtered'', ''network_rate_limited'']"

definition event_keys :: "event \<Rightarrow> string list" where
  "event_keys e = [''timestamp_ns'', ''cgroup_id'', ''task_start_ns'', ''pid'', ''tgid'',
     ''namespace_pid'', ''namespace_tgid'', ''ppid'', ''uid'', ''gid'', ''cpu'', ''result'', ''size'',
     ''flags'', ''schema_version'', ''event_type'', ''comm''] @ body_keys (ev_body e)"

definition forbidden :: "string list" where
  "forbidden = [''label'', ''ground_truth'', ''scenario'', ''is_malicious'']"

text \<open>One generation per thread group, by start token and parent.\<close>

fun check_identities :: "(int, int \<times> int) pydict \<Rightarrow> event list \<Rightarrow> unit res" where
  "check_identities ids [] = Inr ()"
| "check_identities ids (e # es) =
     (let h = ev_head e in
      if h_tgid h = 0 \<or> ev_type e = ''HEALTH'' then check_identities ids es
      else let identity = (h_start h, h_ppid h) in
        (case map_of ids (h_tgid h) of
           None \<Rightarrow> check_identities (dset (h_tgid h) identity ids) es
         | Some previous \<Rightarrow>
             if previous \<noteq> identity then Inl (ValueError ''inconsistent process identity'')
             else check_identities ids es))"

fun net_of :: "event \<Rightarrow> net_fields option" where
  "net_of e = (case ev_body e of Network n \<Rightarrow> Some n | _ \<Rightarrow> None)"

definition is_net :: "string \<Rightarrow> (net_fields \<Rightarrow> bool) \<Rightarrow> event \<Rightarrow> bool" where
  "is_net t P e \<longleftrightarrow> ev_type e = t \<and> (case net_of e of None \<Rightarrow> False | Some n \<Rightarrow> P n)"

definition forks_have_execs :: "event list \<Rightarrow> bool" where
  "forks_have_execs es \<longleftrightarrow>
     list_all (\<lambda>c. c \<in> set (map (\<lambda>e. h_pid (ev_head e)) (filter (\<lambda>e. ev_type e = ''PROCESS_EXEC'') es)))
       (map (\<lambda>e. child_pid (ev_body e)) (filter (\<lambda>e. ev_type e = ''PROCESS_FORK'') es))"

text \<open>\<open>next(...)\<close> raises \<open>StopIteration\<close> where no event matches.\<close>

definition check_cookies :: "event list \<Rightarrow> unit res" where
  "check_cookies es =
    (case find (is_net ''NETWORK_CONNECT'' (\<lambda>n. n_dst_port n = 4444 \<and> n_retval n = 0)) es of
       None \<Rightarrow> Inl (RuntimeErr ''StopIteration'')
     | Some connect \<Rightarrow>
       (case find (is_net ''NETWORK_TCP_STATE'' (\<lambda>n. n_dst_port n = 4444)) es of
          None \<Rightarrow> Inl (RuntimeErr ''StopIteration'')
        | Some state \<Rightarrow>
          (if map_option n_socket_cookie (net_of connect) \<noteq> map_option n_socket_cookie (net_of state)
           then Inl (ValueError ''connect/TCP-state socket_cookie correlation is broken'')
           else Inr ())))"

definition documented :: "ip \<Rightarrow> bool" where
  "documented a = (case a of V4 b \<Rightarrow> take 3 b \<in> set documentation_networks | V6 _ \<Rightarrow> False)"

definition check_address :: "pystr option \<Rightarrow> unit res" where
  "check_address v = (case v of None \<Rightarrow> Inr ()
     | Some s \<Rightarrow> if s = ucode ''0.0.0.0'' \<or> s = ucode ''::'' then Inr ()
         else bind_res (parse_ip s) (\<lambda>a. if documented a then Inr ()
           else Inl (ValueError ''non-documentation sample address'')))"

fun check_addresses :: "event list \<Rightarrow> unit res" where
  "check_addresses [] = Inr ()"
| "check_addresses (e # es) =
     (case net_of e of
        None \<Rightarrow> check_addresses es
      | Some n \<Rightarrow> bind_res (check_address (n_src_ip n)) (\<lambda>_.
          bind_res (check_address (n_dst_ip n)) (\<lambda>_. check_addresses es)))"

subsection \<open>The scenario ranges\<close>

text \<open>The covered lines in the order of the manifest; the ranges are given as in its JSON.\<close>

fun cover :: "nat \<Rightarrow> scenario list \<Rightarrow> nat list res" where
  "cover n [] = Inr []"
| "cover n (s # ss) =
     (if sc_start s < 1 \<or> n < sc_end s \<or> sc_end s < sc_start s
      then Inl (ValueError ''invalid scenario line range'')
      else if sc_count s \<noteq> sc_end s - sc_start s + 1
      then Inl (ValueError ''scenario count mismatch'')
      else bind_res (cover n ss) (\<lambda>c. Inr ([sc_start s..<sc_end s + 1] @ c)))"

definition check_cover :: "nat \<Rightarrow> scenario list \<Rightarrow> unit res" where
  "check_cover n ss = bind_res (cover n ss) (\<lambda>covered.
     if sort covered \<noteq> [1..<n + 1]
     then Inl (ValueError ''scenario ranges must cover every event exactly once'') else Inr ())"

definition health_ok :: "event list \<Rightarrow> bool \<Rightarrow> bool" where
  "health_ok es degraded \<longleftrightarrow> list_ex (\<lambda>e. case ev_body e of
       Health q p k f r \<Rightarrow> if degraded then 0 < q \<and> 0 < k else q = 0 \<and> k = 0 | _ \<Rightarrow> False) es"

text \<open>The checks of \<open>validate_samples\<close> on the events, in order.\<close>

definition validate_events :: "event list \<Rightarrow> bool \<Rightarrow> scenario list \<Rightarrow> nat res" where
  "validate_events es labels_embedded ss =
    (if set (map ev_type es) \<noteq> set event_types
     then Inl (ValueError ''sample does not cover every schema-v1 event type'')
     else if list_ex (\<lambda>e. list_ex (\<lambda>k. k \<in> set (event_keys e)) forbidden) es
     then Inl (ValueError ''ground-truth labels leaked into event records'')
     else bind_res (check_identities [] es) (\<lambda>_.
       if \<not> forks_have_execs es
       then Inl (ValueError ''fork child is missing its correlated exec sample'')
       else bind_res (check_cookies es) (\<lambda>_. bind_res (check_addresses es) (\<lambda>_.
         if labels_embedded then Inl (ValueError ''manifest must keep labels separate from events'')
         else bind_res (check_cover (length es) ss) (\<lambda>_.
           if \<not> health_ok es False then Inl (ValueError ''healthy HEALTH fixture missing'')
           else if \<not> health_ok es True then Inl (ValueError ''degraded HEALTH fixture missing'')
           else Inr (length es))))))"

subsection \<open>The checksum file\<close>

text \<open>Where \<open>str.splitlines\<close> splits, after the newline translation of text files.\<close>

definition line_end :: "int \<Rightarrow> bool" where
  "line_end c \<longleftrightarrow> (10 \<le> c \<and> c \<le> 13) \<or> (28 \<le> c \<and> c \<le> 30) \<or> c = 133 \<or> c = 8232 \<or> c = 8233"

fun splitlines_from :: "pystr \<Rightarrow> pystr \<Rightarrow> pystr list" where
  "splitlines_from acc [] = (if acc = [] then [] else [rev acc])"
| "splitlines_from acc (c # cs) =
     (if line_end c then
        rev acc # splitlines_from [] (if c = 13 \<and> take 1 cs = [10] then drop 1 cs else cs)
      else splitlines_from (c # acc) cs)"

text \<open>\<open>line.partition("  ")\<close>: the part before the first double space, whether there is one, the rest.\<close>

fun partition2 :: "pystr \<Rightarrow> pystr \<times> bool \<times> pystr" where
  "partition2 (c # d # cs) =
     (if c = 32 \<and> d = 32 then ([], True, cs)
      else (case partition2 (d # cs) of (a, f, b) \<Rightarrow> (c # a, f, b)))"
| "partition2 s = (s, False, [])"

text \<open>\<open>PurePosixPath(relative).parts\<close> without the root: empty and dot components vanish.\<close>

definition path_parts :: "pystr \<Rightarrow> pystr list" where
  "path_parts s = filter (\<lambda>p. p \<noteq> [] \<and> p \<noteq> [46]) (split_on 47 s)"

definition sums_name :: pystr where
  "sums_name = ucode ''SHA256SUMS''"

definition base_name :: "pystr \<Rightarrow> pystr" where
  "base_name s = last (split_on 47 s)"

fun check_lines :: "(bytes \<Rightarrow> pystr) \<Rightarrow> (pystr, bytes) pydict \<Rightarrow> pystr list \<Rightarrow> pystr list res" where
  "check_lines dig files [] = Inr []"
| "check_lines dig files (l # ls) =
     (case partition2 l of (expected, separator, relative) \<Rightarrow>
      if \<not> separator \<or> length expected \<noteq> 64 then Inl (ValueError ''malformed SHA256SUMS line'')
      else if take 1 relative = [47] \<or> [46, 46] \<in> set (path_parts relative)
      then Inl (ValueError ''unsafe checksum path'')
      else (case map_of files (join_with 47 (path_parts relative)) of
          None \<Rightarrow> Inl (ValueError ''checksummed file missing'')
        | Some b \<Rightarrow>
            (if dig b \<noteq> expected then Inl (ValueError ''checksum mismatch'')
             else bind_res (check_lines dig files ls) (\<lambda>c. Inr (relative # c)))))"

text \<open>The lines come from the decoded text of the file at the root of the bundle.\<close>

definition validate_checksums :: "(bytes \<Rightarrow> pystr) \<Rightarrow> (pystr, bytes) pydict \<Rightarrow> pystr \<Rightarrow> unit res" where
  "validate_checksums dig files sums =
     bind_res (check_lines dig files (splitlines_from [] sums)) (\<lambda>checked.
       if set checked \<noteq> set (filter (\<lambda>p. base_name p \<noteq> sums_name) (dkeys files))
       then Inl (ValueError ''checksum coverage mismatch'') else Inr ())"

definition required_files :: "string list" where
  "required_files = [''AI_HANDOFF_GUIDE.md'', ''BUNDLE_MANIFEST.json'', ''SHA256SUMS'',
     ''bin/host-events-static'', ''docs/event-schema-v1.md'', ''docs/event-schema-v1.schema.json'',
     ''docs/VALIDATION_REPORT.md'', ''include/agent_events.h'', ''samples/events-v1.bin'',
     ''samples/events-v1.ndjson'', ''samples/scenario-manifest.json'', ''tools/decode-events.py'',
     ''tools/generate-handoff-samples.py'', ''tools/validate-handoff-bundle.py'']"

text \<open>
  \<open>main\<close>: the required files, then the metadata (a parsed dictionary whose \<open>sample_event_count\<close> may
  be missing) and the samples (the result of \<open>validate_samples\<close> on the parsed files), then the
  checksums.
\<close>

definition bundle_main :: "(bytes \<Rightarrow> pystr) \<Rightarrow> (pystr, bytes) pydict \<Rightarrow> int option res \<Rightarrow> nat res
    \<Rightarrow> pystr \<Rightarrow> nat res" where
  "bundle_main dig files metadata samples sums =
    (if list_ex (\<lambda>r. map_of files (ucode r) = None) required_files
     then Inl (ValueError ''required files missing'')
     else bind_res metadata (\<lambda>count. bind_res samples (\<lambda>n.
       (case count of
          None \<Rightarrow> Inl (KeyErr ''sample_event_count'')
        | Some m \<Rightarrow>
            if m \<noteq> int n then Inl (ValueError ''BUNDLE_MANIFEST sample_event_count mismatch'')
            else bind_res (validate_checksums dig files sums) (\<lambda>_. Inr n)))))"

end
