(* ===== verification/Handoff_Claims.thy ===== *)
theory Handoff_Claims
  imports Handoff_Bundle
begin

section \<open>Properties of the decoder, the sample generator and the bundle validator\<close>

text \<open>
  What the generator packs the decoder gives back, record kind by record kind; the decoder skips
  what its schema does not know and reports a truncated file; the generated samples decode and
  pass every check of the validator; and what passes the validator has the promised coverage.
\<close>

subsection \<open>Packing and reading back\<close>

lemma struct_pack_Inr: "struct_pack fs = Inr b \<longleftrightarrow> list_all fld_ok fs \<and> b = concat (map fld_bytes fs)"
  by (auto simp: struct_pack_def)

lemma fixed_bytes_length: "fixed_bytes s n = Inr b \<Longrightarrow> 0 < n \<Longrightarrow> length b = n"
  by (auto simp: fixed_bytes_def Let_def split: if_splits)

lemma fixed_bytes_read:
  assumes "fixed_bytes s n = Inr b" "\<forall>c \<in> set s. c \<noteq> 0" "length (utf8_encode s) < n"
  shows "c_string b = s"
  using assms c_string_padded [of s] by (auto simp: fixed_bytes_def Let_def list_all_iff split: if_splits)

lemma pack_common_Inr:
  assumes "length (h_comm h) = 16"
  shows "pack_common h = Inr b \<longleftrightarrow> wf_header h \<and> b = header_bytes h"
  using assms by (auto simp: pack_common_def struct_pack_Inr wf_header_def header_bytes_def)

lemma common_Inr:
  assumes "common ts kind sz pid ppid uid cg start res flags comm = Inr b"
  obtains c where "fixed_bytes comm 16 = Inr c"
    "wf_header (common_header ts kind sz pid ppid uid cg start res flags c)"
    "b = header_bytes (common_header ts kind sz pid ppid uid cg start res flags c)"
proof -
  from assms obtain c where c: "fixed_bytes comm 16 = Inr c"
    "pack_common (common_header ts kind sz pid ppid uid cg start res flags c) = Inr b"
    by (auto simp: common_def bind_res_Inr)
  have "length c = 16" using fixed_bytes_length [OF c(1)] by simp
  with c that pack_common_Inr [of "common_header ts kind sz pid ppid uid cg start res flags c" b]
  show ?thesis by (simp add: common_header_def)
qed

lemma decode_packed:
  assumes "wf_header h" "p = header_bytes h @ rest" "h_schema h = 1" "h_size h = int (length p)"
    "event_size (h_kind h) = Some (int (length p))" "event_name (h_kind h) = Some name"
  shows "decode_event p = Inr \<lparr>ev_head = h, ev_type = name, ev_comm = c_string (h_comm h),
    ev_body = event_body (h_kind h) (h_flags h) p\<rparr>"
proof -
  have u: "unpack_header p = h" using unpack_header_bytes [OF assms(1)] assms(2) by simp
  have "length (header_bytes h) = 88" using assms(1) by (simp add: wf_header_def)
  then have "88 \<le> length p" using assms(2) by simp
  with u assms(3-) show ?thesis by (simp add: decode_event_Inr)
qed

lemma host_record_Inr:
  "host_record a b = Inr p \<Longrightarrow> p = a @ b @ replicate (376 - length (a @ b)) 0 \<and> length p = 376"
  by (auto simp: host_record_def Let_def split: if_splits)

text \<open>The expected head of a host record.\<close>

definition host_head :: "int \<Rightarrow> int \<Rightarrow> int \<Rightarrow> int \<Rightarrow> int \<Rightarrow> int \<Rightarrow> header \<Rightarrow> bool" where
  "host_head kind ts pid ppid result flags h \<longleftrightarrow> h_ts h = ts \<and> h_cgroup h = 4242
     \<and> h_start h = task_start pid \<and> h_pid h = pid \<and> h_tgid h = pid \<and> h_npid h = pid
     \<and> h_ntgid h = pid \<and> h_ppid h = ppid \<and> h_uid h = 1000 \<and> h_gid h = 1000 \<and> h_cpu h = 2
     \<and> h_result h = result \<and> h_flags h = flags \<and> h_schema h = 1 \<and> h_kind h = kind"

lemma common_host_head:
  "host_head kind ts pid ppid res flags
    (common_header ts kind sz pid ppid 1000 4242 (task_start pid) res flags c)"
  by (simp add: host_head_def common_header_def)

lemma signed_back: "sfits n v \<Longrightarrow> 0 < n \<Longrightarrow> le_sint (to_le n v) = v"
  by (simp add: sfits_def le_sint_to_le)

lemmas body_reads = rd_skip rd_here bslice_skip rds_here rds_def signed_back

lemma raw_here: "length b = n \<Longrightarrow> bslice (b @ x) 0 n = b"
  by (simp add: bslice_def)

text \<open>
  Process records read back: what \<open>process_record\<close> packs for a fork, an exec or an exit, the
  decoder turns into an event with the same kind, identity, time, command and parent and child
  ids; an exec keeps its file name, an exit its code, and a fork, whose record carries no verified
  child identity, has none.
\<close>

theorem process_record_decodes:
  assumes "process_record kind ts pid ppid comm filename code parent child = Inr p"
    and "kind = 1 \<or> kind = 2 \<or> kind = 3"
    and "\<forall>c \<in> set (comm @ filename). c \<noteq> 0" and "length (utf8_encode comm) < 16"
    and "length (utf8_encode filename) < 256"
  shows "\<exists>ev. decode_event p = Inr ev
    \<and> host_head kind ts pid ppid (if kind = 3 then code else 0) 0 (ev_head ev)
    \<and> ev_comm ev = comm \<and> event_name kind = Some (ev_type ev)
    \<and> ev_body ev = (let par = (case parent of None \<Rightarrow> if kind = 1 then pid else ppid | Some q \<Rightarrow> q);
          ch = (case child of None \<Rightarrow> pid | Some q \<Rightarrow> q) in
        if kind = 1 then Fork par ch None None else if kind = 2 then Exec par ch filename
        else Exit par ch code)"
proof -
  let ?par = "case parent of None \<Rightarrow> if kind = 1 then pid else ppid | Some q \<Rightarrow> q"
  let ?ch = "case child of None \<Rightarrow> pid | Some q \<Rightarrow> q"
  let ?res = "if kind = 3 then code else 0"
  from assms(1) obtain hd name pay where
    hd: "common ts kind 376 pid ppid 1000 4242 (task_start pid) ?res 0 comm = Inr hd"
    and name: "fixed_bytes filename 256 = Inr name"
    and pay: "struct_pack [U 4 ?par, U 4 ?ch, S 4 code, U 4 0, Raw 256 name] = Inr pay"
    and p: "host_record hd pay = Inr p"
    unfolding process_record_def bind_res_Inr by blast
  from hd obtain c where c: "fixed_bytes comm 16 = Inr c" and h:
    "wf_header (common_header ts kind 376 pid ppid 1000 4242 (task_start pid) ?res 0 c)"
    "hd = header_bytes (common_header ts kind 376 pid ppid 1000 4242 (task_start pid) ?res 0 c)"
    by (rule common_Inr)
  let ?h = "common_header ts kind 376 pid ppid 1000 4242 (task_start pid) ?res 0 c"
  have len: "length hd = 88" using h by (simp add: wf_header_def)
  have nl: "length name = 256" using fixed_bytes_length [OF name] by simp
  from pay have ok: "fits 4 ?par" "fits 4 ?ch" "sfits 4 code"
    and pb: "pay = to_le 4 ?par @ to_le 4 ?ch @ to_le 4 code @ to_le 4 0 @ name"
    using nl by (simp_all add: struct_pack_Inr)
  from host_record_Inr [OF p] pb len nl have p': "p = hd @ to_le 4 ?par @ to_le 4 ?ch @ to_le 4 code
      @ to_le 4 0 @ name @ replicate 16 0" and pl: "length p = 376" by simp_all
  obtain nm where nm: "event_name kind = Some nm"
    using assms(2) by (auto simp: event_name_def)
  have sz: "event_size kind = Some (int (length p))" using assms(2) pl by (auto simp: event_size_def)
  have dec: "decode_event p = Inr \<lparr>ev_head = ?h, ev_type = nm, ev_comm = c_string c,
      ev_body = event_body kind 0 p\<rparr>"
    using decode_packed [OF h(1), of p _ nm] p' h(2) pl sz nm by (simp add: common_header_def)
  have f: "rd 4 p 88 = ?par" "rd 4 p 92 = ?ch" "rds 4 p 96 = code" "bslice p 104 360 = name"
    using ok len nl unfolding p' by (simp_all add: body_reads raw_here del: replicate.simps)
  have "c_string name = filename" "c_string c = comm"
    using fixed_bytes_read [OF name] fixed_bytes_read [OF c] assms(3-5) by auto
  then have body: "event_body kind 0 p = (if kind = 1 then Fork ?par ?ch None None
      else if kind = 2 then Exec ?par ?ch filename else Exit ?par ?ch code)"
    using assms(2) f by (auto simp: event_body_def Let_def)
  show ?thesis
    using dec body nm \<open>c_string c = comm\<close> common_host_head by (simp add: Let_def)
qed

theorem process_record_decodes_witness:
  "\<exists>p ev. process_record 2 5 7 1 (ucode ''sh'') (ucode ''/bin/sh'') 0 None None = Inr p
    \<and> decode_event p = Inr ev \<and> ev_body ev = Exec 1 7 (ucode ''/bin/sh'')"
proof -
  have "\<not> isl (process_record 2 5 7 1 (ucode ''sh'') (ucode ''/bin/sh'') 0 None None)" by code_simp
  then obtain p where p: "process_record 2 5 7 1 (ucode ''sh'') (ucode ''/bin/sh'') 0 None None = Inr p"
    by (auto simp: isl_def dest: sum.exhaust_sel) (metis sum.exhaust_sel)
  have c: "\<forall>c \<in> set (ucode ''sh'' @ ucode ''/bin/sh''). c \<noteq> 0" "length (utf8_encode (ucode ''sh'')) < 16"
    "length (utf8_encode (ucode ''/bin/sh'')) < 256" by code_simp+
  from process_record_decodes [OF p _ c] p show ?thesis by (auto simp: Let_def)
qed

text \<open>
  File records read back: what \<open>file_record\<close> packs for an open or an unlink, the decoder turns
  into the same inode numbers, operation, path, command, identity and flags, on device 2049.
\<close>

theorem file_record_decodes:
  assumes "file_record kind ts pid ppid comm path inode dir operation flags = Inr p"
    and "kind = 6 \<or> kind = 7"
    and "\<forall>c \<in> set (comm @ path). c \<noteq> 0" and "length (utf8_encode comm) < 16"
    and "length (utf8_encode path) < 256"
  shows "\<exists>ev. decode_event p = Inr ev \<and> host_head kind ts pid ppid 0 flags (ev_head ev)
    \<and> ev_comm ev = comm \<and> event_name kind = Some (ev_type ev)
    \<and> ev_body ev = File inode dir 2049 0 0 operation path"
proof -
  from assms(1) obtain hd name pay where
    hd: "common ts kind 376 pid ppid 1000 4242 (task_start pid) 0 flags comm = Inr hd"
    and name: "fixed_bytes path 256 = Inr name"
    and pay: "struct_pack [U 8 inode, U 8 dir, U 4 2049, U 4 0, U 4 0, U 4 operation, Raw 256 name] = Inr pay"
    and p: "host_record hd pay = Inr p"
    unfolding file_record_def bind_res_Inr by blast
  from hd obtain c where c: "fixed_bytes comm 16 = Inr c" and h:
    "wf_header (common_header ts kind 376 pid ppid 1000 4242 (task_start pid) 0 flags c)"
    "hd = header_bytes (common_header ts kind 376 pid ppid 1000 4242 (task_start pid) 0 flags c)"
    by (rule common_Inr)
  have len: "length hd = 88" using h by (simp add: wf_header_def)
  have nl: "length name = 256" using fixed_bytes_length [OF name] by simp
  from pay have ok: "fits 8 inode" "fits 8 dir" "fits 4 2049" "fits 4 0" "fits 4 operation"
    and pb: "pay = to_le 8 inode @ to_le 8 dir @ to_le 4 2049 @ to_le 4 0 @ to_le 4 0
      @ to_le 4 operation @ name"
    using nl by (simp_all add: struct_pack_Inr)
  from host_record_Inr [OF p] pb len nl have p': "p = hd @ to_le 8 inode @ to_le 8 dir @ to_le 4 2049
      @ to_le 4 0 @ to_le 4 0 @ to_le 4 operation @ name @ replicate 0 0" and pl: "length p = 376"
    by simp_all
  obtain nm where nm: "event_name kind = Some nm"
    using assms(2) by (auto simp: event_name_def)
  have sz: "event_size kind = Some (int (length p))" using assms(2) pl by (auto simp: event_size_def)
  have dec: "decode_event p = Inr \<lparr>ev_head = common_header ts kind 376 pid ppid 1000 4242
      (task_start pid) 0 flags c, ev_type = nm, ev_comm = c_string c, ev_body = event_body kind flags p\<rparr>"
    using decode_packed [OF h(1), of p _ nm] p' h(2) pl sz nm by (simp add: common_header_def)
  have f: "rd 8 p 88 = inode" "rd 8 p 96 = dir" "rd 4 p 104 = 2049" "rd 4 p 108 = 0" "rd 4 p 112 = 0"
    "rd 4 p 116 = operation" "bslice p 120 376 = name"
    using ok len nl unfolding p' by (simp_all add: body_reads raw_here bslice_all)
  have "c_string name = path" "c_string c = comm"
    using fixed_bytes_read [OF name] fixed_bytes_read [OF c] assms(3-5) by auto
  with assms(2) f have "event_body kind flags p = File inode dir 2049 0 0 operation path"
    by (auto simp: event_body_def Let_def)
  then show ?thesis
    using dec nm \<open>c_string c = comm\<close> common_host_head by simp
qed

theorem file_record_decodes_witness:
  "\<exists>p ev. file_record 6 5 7 1 (ucode ''sh'') (ucode ''/etc/shadow'') 3 4 1 0 = Inr p
    \<and> decode_event p = Inr ev \<and> ev_body ev = File 3 4 2049 0 0 1 (ucode ''/etc/shadow'')"
proof -
  have "\<not> isl (file_record 6 5 7 1 (ucode ''sh'') (ucode ''/etc/shadow'') 3 4 1 0)" by code_simp
  then obtain p where p: "file_record 6 5 7 1 (ucode ''sh'') (ucode ''/etc/shadow'') 3 4 1 0 = Inr p"
    by (metis sum.collapse(2))
  have c: "\<forall>c \<in> set (ucode ''sh'' @ ucode ''/etc/shadow''). c \<noteq> 0" "length (utf8_encode (ucode ''sh'')) < 16"
    "length (utf8_encode (ucode ''/etc/shadow'')) < 256" by code_simp+
  from file_record_decodes [OF p _ c] p show ?thesis by auto
qed

lemma parse_ipv4_length: "parse_ipv4 s = Some b \<Longrightarrow> length b = 4"
  by (auto simp: parse_ipv4_def Let_def split: if_splits)

lemma join_groups_length: "join_groups gs = Some b \<Longrightarrow> length b = 2 * length gs"
proof -
  assume "join_groups gs = Some b"
  then have ok: "list_all (\<lambda>p. p \<noteq> None) (map parse_group gs)"
    and b: "b = concat (map the (map parse_group gs))"
    by (auto simp: join_groups_def Let_def simp del: map_map split: if_splits)
  have "length (the (parse_group g)) = 2" if "parse_group g \<noteq> None" for g
    using that by (auto simp: parse_group_def Let_def split: if_splits)
  with ok have "length (concat (map the (map parse_group gs))) = 2 * length gs"
    by (induction gs) auto
  with b show ?thesis by simp
qed

lemma ipv6_groups_length:
  assumes g: "ipv6_groups parts t = Some b" and ne: "parts \<noteq> [] \<or> 0 < t"
  shows "length b + 2 * t = 16"
proof -
  let ?n = "length parts + t" and ?all = "parts @ replicate t [48]"
  let ?skips = "filter (\<lambda>i. ?all ! i = []) [1..<?n - 1]"
  show ?thesis
  proof (cases ?skips)
    case Nil
    with g have "?n = 8" "join_groups parts = Some b"
      by (auto simp: ipv6_groups_def Let_def split: if_splits)
    with join_groups_length [of parts b] show ?thesis by simp
  next
    case (Cons k ks)
    then have "k \<in> set ?skips" by simp
    then have k: "1 \<le> k" "k < ?n - 1" "?all ! k = []" by auto
    have kp: "k < length parts"
    proof (rule ccontr)
      assume "\<not> k < length parts"
      with k(2) have "?all ! k = [48]" by (simp add: nth_append)
      with k(3) show False by simp
    qed
    define hi where "hi = (if ?all ! 0 = [] then k - 1 else k)"
    define lo where "lo = (if last ?all = [] then ?n - k - 2 else ?n - k - 1)"
    have "ipv6_groups parts t =
      (if 9 < ?n \<or> 1 < length ?skips then None
       else if ?all ! 0 = [] \<and> hi \<noteq> 0 \<or> last ?all = [] \<and> lo \<noteq> 0 \<or> 7 < hi + lo then None
       else (case (join_groups (take hi parts),
               join_groups (take (lo - t) (drop (length parts - (lo - t)) parts))) of
           (Some a, Some b) \<Rightarrow> Some (a @ replicate (2 * (8 - (hi + lo))) 0 @ b)
         | _ \<Rightarrow> None))"
      unfolding ipv6_groups_def Let_def Cons list.case hi_def lo_def ..
    with g obtain x y where xy: "join_groups (take hi parts) = Some x"
      "join_groups (take (lo - t) (drop (length parts - (lo - t)) parts)) = Some y"
      "b = x @ replicate (2 * (8 - (hi + lo))) 0 @ y" "\<not> 7 < hi + lo"
      by (simp split: if_splits option.splits)
    have t: "last ?all = [] \<Longrightarrow> t = 0"
      using last_in_set [of "replicate t [48]"] by (cases "t = 0") (simp_all add: last_append)
    have lo: "t \<le> lo" "lo - t \<le> length parts"
    proof -
      have "t \<le> lo \<and> lo - t \<le> length parts"
      proof (cases "last ?all = []")
        case True
        then have "lo = ?n - k - 2" unfolding lo_def by (rule if_P)
        with t [OF True] show ?thesis by linarith
      next
        case False
        then have "lo = ?n - k - 1" unfolding lo_def by (rule if_not_P)
        with kp show ?thesis by linarith
      qed
      then show "t \<le> lo" "lo - t \<le> length parts" by simp_all
    qed
    have "hi \<le> k" by (simp add: hi_def)
    with kp have "hi \<le> length parts" by linarith
    then have "length x = 2 * hi" "length y = 2 * (lo - t)"
      using join_groups_length [OF xy(1)] join_groups_length [OF xy(2)] lo(2) by simp_all
    then have "length b = 2 * hi + 2 * (8 - (hi + lo)) + 2 * (lo - t)" by (simp add: xy(3))
    with xy(4) lo(1) show ?thesis by linarith
  qed
qed

lemma parse_ipv6_length: "parse_ipv6 s = Some b \<Longrightarrow> length b = 16"
proof -
  assume "parse_ipv6 s = Some b"
  then obtain a where a0: "(if 47 \<in> set s then None else strip_scope s) = Some a"
    and a: "3 \<le> length (split_on 58 a)" and m: "(case ipv6_tail (split_on 58 a) of None \<Rightarrow> None
      | Some (ps, tl4) \<Rightarrow> map_option (\<lambda>g. g @ tl4) (ipv6_groups ps (if tl4 = [] then 0 else 2))) = Some b"
    unfolding parse_ipv6_def Let_def by (auto split: option.splits if_splits)
  from m obtain ps tl4 where t: "ipv6_tail (split_on 58 a) = Some (ps, tl4)"
    and m2: "map_option (\<lambda>g. g @ tl4) (ipv6_groups ps (if tl4 = [] then 0 else 2)) = Some b"
    by (cases "ipv6_tail (split_on 58 a)") auto
  from m2 obtain g where g: "ipv6_groups ps (if tl4 = [] then 0 else 2) = Some g" and b: "b = g @ tl4"
    by (cases "ipv6_groups ps (if tl4 = [] then 0 else 2)") auto
  from t a have "tl4 = [] \<and> ps = split_on 58 a \<or> length tl4 = 4"
    by (auto simp: ipv6_tail_def parse_ipv4_length split: if_splits)
  then have "length tl4 = (if tl4 = [] then 0 else 4)" "ps \<noteq> [] \<or> (0::nat) < (if tl4 = [] then 0 else 2)"
    using a by auto
  with ipv6_groups_length [OF g] b show ?thesis by (auto split: if_splits)
qed

definition family_of :: "ip \<Rightarrow> int" where
  "family_of a = (case a of V4 _ \<Rightarrow> 2 | V6 _ \<Rightarrow> 10)"

lemma address_Inr:
  assumes "parse_ip s = Inr a"
  shows "address s = Inr (family_of a, packed a @ replicate (16 - length (packed a)) 0)"
  using assms by (simp add: address_def family_of_def Let_def)

lemma parse_ip_packed:
  assumes "parse_ip s = Inr a"
  shows "length (packed a) = (case a of V4 _ \<Rightarrow> 4 | V6 _ \<Rightarrow> 16)"
  using assms by (auto simp: parse_ip_def parse_ipv4_length parse_ipv6_length split: option.splits)

lemma ip_string_packed:
  assumes "parse_ip s = Inr a"
  shows "ip_string (family_of a) (packed a @ replicate (16 - length (packed a)) 0) v
    = (if v then Some (ip_text a) else None)"
  using parse_ip_packed [OF assms] by (cases a) (simp_all add: ip_string_def family_of_def)

lemma net_flags_bits:
  "(net_flags a AND 32 \<noteq> 0) = na_src_valid a" "(net_flags a AND 16 \<noteq> 0) = na_dst_valid a"
  by (cases "na_src_valid a"; cases "na_dst_valid a"; cases "na_uncertain a"; simp add: net_flags_def)+

text \<open>
  C12. Network records read back: from what \<open>network_record\<close> packs, the decoder recovers ports,
  protocol, states, sizes and the return value, and each address as the text of the parsed
  argument exactly when its validity flag was set, else none.
\<close>

theorem network_record_decodes:
  assumes "network_record a = Inr p" and "8 \<le> na_kind a" and "na_kind a \<le> 13"
    and "parse_ip (na_src a) = Inr src" and "parse_ip (na_dst a) = Inr dst"
    and "\<forall>c \<in> set (na_comm a). c \<noteq> 0" and "length (utf8_encode (na_comm a)) < 16"
  shows "\<exists>ev n. decode_event p = Inr ev \<and> ev_comm ev = na_comm a
    \<and> host_head (na_kind a) (na_ts a) (na_pid a) (na_ppid a) (na_retval a) (net_flags a) (ev_head ev)
    \<and> ev_body ev = Network n \<and> n_src_port n = na_sport a \<and> n_dst_port n = na_dport a
    \<and> n_protocol n = na_protocol a \<and> n_retval n = na_retval a \<and> n_backlog n = na_backlog a
    \<and> n_socket_type n = na_socket_type a \<and> n_bytes_requested n = na_bytes a
    \<and> n_old_state n = na_old a \<and> n_new_state n = na_new a
    \<and> n_src_ip n = (if na_src_valid a then Some (ip_text src) else None)
    \<and> n_dst_ip n = (if na_dst_valid a then Some (ip_text dst) else None)"
proof -
  let ?cookie = "case na_cookie a of None \<Rightarrow> 7000 + na_pid a | Some c \<Rightarrow> c"
  let ?s = "packed src @ replicate (16 - length (packed src)) 0"
  let ?d = "packed dst @ replicate (16 - length (packed dst)) 0"
  let ?fs = "[U 8 120000, U 8 4026531993, U 8 9001, U 8 ?cookie, S 8 (na_retval a),
          U 8 (na_bytes a), U 4 5, S 4 (na_backlog a), U 4 0, U 4 0, U 2 (family_of src),
          U 2 (na_socket_type a), U 2 (na_sport a), U 2 (na_dport a), U 2 (na_old a),
          U 2 (na_new a), U 1 (na_protocol a), Pad 3, Raw 16 ?s, Raw 16 ?d]"
  from assms(1) address_Inr [OF assms(4)] address_Inr [OF assms(5)] have
    fam: "family_of src = family_of dst" and "\<exists>hd pay.
      common (na_ts a) (na_kind a) 200 (na_pid a) (na_ppid a) 1000 4242 (task_start (na_pid a))
        (na_retval a) (net_flags a) (na_comm a) = Inr hd \<and> struct_pack ?fs = Inr pay
      \<and> p = hd @ pay \<and> length p = 200"
    by (auto simp: network_record_def bind_res_Inr split: if_splits)
  then obtain hd pay where
    hd: "common (na_ts a) (na_kind a) 200 (na_pid a) (na_ppid a) 1000 4242 (task_start (na_pid a))
        (na_retval a) (net_flags a) (na_comm a) = Inr hd"
    and pay: "struct_pack ?fs = Inr pay" and p: "p = hd @ pay" and pl: "length p = 200" by blast
  from hd obtain c where c: "fixed_bytes (na_comm a) 16 = Inr c" and h:
    "wf_header (common_header (na_ts a) (na_kind a) 200 (na_pid a) (na_ppid a) 1000 4242
      (task_start (na_pid a)) (na_retval a) (net_flags a) c)"
    "hd = header_bytes (common_header (na_ts a) (na_kind a) 200 (na_pid a) (na_ppid a) 1000 4242
      (task_start (na_pid a)) (na_retval a) (net_flags a) c)"
    by (rule common_Inr)
  have len: "length hd = 88" using h by (simp add: wf_header_def)
  have ls: "length ?s = 16" "length ?d = 16"
    using parse_ip_packed [OF assms(4)] parse_ip_packed [OF assms(5)] by (cases src; cases dst; simp)+
  define s d where "s = ?s" and "d = ?d"
  from pay have ok: "fits 8 ?cookie" "sfits 8 (na_retval a)" "fits 8 (na_bytes a)"
    "sfits 4 (na_backlog a)" "fits 2 (family_of src)" "fits 2 (na_socket_type a)"
    "fits 2 (na_sport a)" "fits 2 (na_dport a)" "fits 2 (na_old a)" "fits 2 (na_new a)"
    "fits 1 (na_protocol a)"
    and pb: "pay = to_le 8 120000 @ to_le 8 4026531993 @ to_le 8 9001 @ to_le 8 ?cookie
      @ to_le 8 (na_retval a) @ to_le 8 (na_bytes a) @ to_le 4 5 @ to_le 4 (na_backlog a) @ to_le 4 0
      @ to_le 4 0 @ to_le 2 (family_of src) @ to_le 2 (na_socket_type a) @ to_le 2 (na_sport a)
      @ to_le 2 (na_dport a) @ to_le 2 (na_old a) @ to_le 2 (na_new a) @ to_le 1 (na_protocol a)
      @ replicate 3 0 @ s @ d"
    unfolding struct_pack_Inr using ls by (simp_all add: s_def d_def del: to_le.simps replicate.simps)
  have lsd: "length s = 16" "length d = 16" using ls by (simp_all only: s_def d_def)
  obtain nm where nm: "event_name (na_kind a) = Some nm"
    using assms(2,3) event_name_size [of "na_kind a"] by (auto simp: event_size_def)
  have sz: "event_size (na_kind a) = Some (int (length p))"
    using assms(2,3) pl by (simp add: event_size_def)
  have dec: "decode_event p = Inr \<lparr>ev_head = common_header (na_ts a) (na_kind a) 200 (na_pid a)
      (na_ppid a) 1000 4242 (task_start (na_pid a)) (na_retval a) (net_flags a) c, ev_type = nm,
      ev_comm = c_string c, ev_body = event_body (na_kind a) (net_flags a) p\<rparr>"
    using decode_packed [OF h(1), of p pay nm] p h(2) pl sz nm by (simp add: common_header_def)
  have body: "event_body (na_kind a) (net_flags a) p = Network (network_fields (net_flags a) p)"
    using assms(2,3) by (simp add: event_body_def)
  have f: "rds 8 p 120 = na_retval a" "rd 8 p 128 = na_bytes a" "rds 4 p 140 = na_backlog a"
    "rd 2 p 152 = family_of src" "rd 2 p 154 = na_socket_type a" "rd 2 p 156 = na_sport a"
    "rd 2 p 158 = na_dport a" "rd 2 p 160 = na_old a" "rd 2 p 162 = na_new a"
    "rd 1 p 164 = na_protocol a" "bslice p 168 184 = s" "bslice p 184 200 = d"
    using ok len lsd unfolding p pb
    by (simp_all add: body_reads raw_here bslice_all del: to_le.simps replicate.simps)
  have "c_string c = na_comm a" using fixed_bytes_read [OF c] assms(6,7) by auto
  then show ?thesis
    using dec body nm f common_host_head ip_string_packed [OF assms(4)] ip_string_packed [OF assms(5)]
      fam unfolding s_def d_def by (simp add: network_fields_def net_flags_bits)
qed

theorem network_record_decodes_witness:
  "\<exists>p ev n. network_record (net_call 8 5 7 1 ''sh'' ''192.0.2.10'' 41000 ''203.0.113.10'' 4444 6) = Inr p
    \<and> decode_event p = Inr ev \<and> ev_body ev = Network n \<and> n_dst_port n = 4444"
proof -
  let ?a = "net_call 8 5 7 1 ''sh'' ''192.0.2.10'' 41000 ''203.0.113.10'' 4444 6"
  have "\<not> isl (network_record ?a)" by code_simp
  then obtain p where p: "network_record ?a = Inr p" by (metis sum.collapse(2))
  have c: "8 \<le> na_kind ?a" "na_kind ?a \<le> 13" "parse_ip (na_src ?a) = Inr (V4 [192, 0, 2, 10])"
    "parse_ip (na_dst ?a) = Inr (V4 [203, 0, 113, 10])" "\<forall>c \<in> set (na_comm ?a). c \<noteq> 0"
    "length (utf8_encode (na_comm ?a)) < 16" by code_simp+
  have "na_dport ?a = 4444" by (simp add: net_call_def)
  with network_record_decodes [OF p c] p show ?thesis by fastforce
qed

subsection \<open>Streams\<close>

definition supported :: "bytes \<Rightarrow> bool" where
  "supported p \<longleftrightarrow> (case decode_event p of Inl _ \<Rightarrow> False | Inr _ \<Rightarrow> True)"

definition skippable :: "bytes \<Rightarrow> bool" where
  "skippable p \<longleftrightarrow> (case decode_event p of Inl (UnsupportedEvent _) \<Rightarrow> True | _ \<Rightarrow> False)"

lemma frames_skip:
  "list_all (\<lambda>p. 88 \<le> length p \<and> length p \<le> 376 \<and> (supported p \<or> skippable p)) ps \<Longrightarrow>
     frames (concat (map frame_bytes ps) @ x) =
       apfst (\<lambda>es. map (\<lambda>p. projr (decode_event p)) (filter supported ps) @ es) (frames x)"
proof (induction ps)
  case Nil
  then show ?case by (cases "frames x") simp
next
  case (Cons p ps)
  then have p: "88 \<le> length p" "length p \<le> 376" "supported p \<or> skippable p"
    and IH: "frames (concat (map frame_bytes ps) @ x) =
       apfst (\<lambda>es. map (\<lambda>p. projr (decode_event p)) (filter supported ps) @ es) (frames x)" by simp_all
  show ?case
  proof (cases "decode_event p")
    case (Inr ev)
    then have "supported p" by (simp add: supported_def)
    with Inr frames_frame [OF p(1,2), of "concat (map frame_bytes ps) @ x"] IH show ?thesis
      by (cases "frames x") simp
  next
    case (Inl e)
    with p(3) have "\<not> supported p" "\<exists>s. e = UnsupportedEvent s"
      by (auto simp: supported_def skippable_def split: py_error.splits)
    with Inl frames_frame [OF p(1,2), of "concat (map frame_bytes ps) @ x"] IH show ?thesis by auto
  qed
qed

text \<open>
  The decoder is forward compatible: over frames whose payloads are decodable or of an unknown
  kind or schema version, it yields exactly the decodable ones in order and ends without an error.
\<close>

theorem unknown_events_skipped:
  assumes "list_all (\<lambda>p. 88 \<le> length p \<and> length p \<le> 376 \<and> (supported p \<or> skippable p)) ps"
  shows "frames (concat (map frame_bytes ps))
    = (map (\<lambda>p. projr (decode_event p)) (filter supported ps), None)"
  using frames_skip [OF assms, of "[]"] by (simp add: frames.simps [of "[]"])

theorem unknown_events_skipped_witness:
  "frames (frame_bytes (replicate 88 0)) = ([], None)"
proof -
  have s: "\<not> supported (replicate 88 0)" "skippable (replicate 88 0)" by code_simp+
  then show ?thesis using unknown_events_skipped [of "[replicate 88 0]"] by simp
qed

text \<open>
  C13. A truncated capture is never mistaken for a complete one: after decodable frames, a proper,
  nonempty part of a frame makes the decoder yield the events of the complete frames and raise.
\<close>

theorem truncation_raises:
  assumes "list_all (\<lambda>p. 88 \<le> length p \<and> length p \<le> 376 \<and> (supported p \<or> skippable p)) ps"
    and "88 \<le> length q" and "length q \<le> 376" and "0 < k" and "k < length (frame_bytes q)"
  shows "frames (concat (map frame_bytes ps) @ take k (frame_bytes q))
    = (map (\<lambda>p. projr (decode_event p)) (filter supported ps),
       Some (ValueError (if k < 12 then ''truncated frame header'' else ''truncated frame payload'')))"
proof -
  let ?b = "take k (frame_bytes q)"
  have len: "length ?b = k" using assms(5) by simp
  with assms(4) have ne: "?b \<noteq> []" by (metis length_greater_0_conv)
  have "frames ?b = ([], Some (ValueError (if k < 12 then ''truncated frame header''
      else ''truncated frame payload'')))"
  proof (cases "k < 12")
    case True
    with len ne show ?thesis by (simp add: frames.simps [of ?b])
  next
    case False
    have "fits 4 (int (length q))" using assms(3) by (simp add: fits_def)
    moreover have "?b = pack_frame (int (length q)) @ take (k - 12) q"
      using False by (simp add: frame_bytes_def)
    ultimately have u: "unpack_frame ?b = \<lparr>fh_magic = ebpf_magic, fh_version = 1, fh_little = 1,
        fh_reserved = 0, fh_size = int (length q)\<rparr>"
      using unpack_pack_frame by simp
    have "length (drop 12 ?b) < length q" using len False assms(5) by simp
    with False len ne u assms(2,3) show ?thesis
      by (simp add: frames.simps [of ?b] Let_def frame_check_def)
  qed
  with frames_skip [OF assms(1), of ?b] show ?thesis by simp
qed

theorem truncation_raises_witness:
  "frames (take 50 (frame_bytes (replicate 88 0)))
    = ([], Some (ValueError ''truncated frame payload''))"
  using truncation_raises [of "[]" "replicate 88 0" 50] by simp

subsection \<open>The validator\<close>

lemma cover_Inr:
  "cover n ss = Inr c \<Longrightarrow> c = concat (map (\<lambda>s. [sc_start s..<sc_end s + 1]) ss)
    \<and> list_all (\<lambda>s. 1 \<le> sc_start s \<and> sc_start s \<le> sc_end s \<and> sc_end s \<le> n
        \<and> sc_count s = sc_end s - sc_start s + 1) ss"
  by (induction ss arbitrary: c) (auto simp: bind_res_Inr split: if_splits)

lemma count_distinct: "distinct xs \<Longrightarrow> count_list xs i = (if i \<in> set xs then 1 else 0)"
  by (induction xs) auto

lemma count_ranges:
  "count_list (concat (map (\<lambda>s. [sc_start s..<sc_end s + 1]) ss)) i
    = length (filter (\<lambda>s. sc_start s \<le> i \<and> i \<le> sc_end s) ss)"
proof (induction ss)
  case (Cons s ss)
  have "count_list [sc_start s..<sc_end s + 1] i = (if sc_start s \<le> i \<and> i \<le> sc_end s then 1 else 0)"
    by (auto simp: count_distinct)
  with Cons show ?case by simp
qed simp

text \<open>
  C14. A manifest that passes the validator labels every event exactly once: each of the \<open>n\<close> lines
  lies in the range of exactly one scenario, and the event counts of the scenarios sum up to \<open>n\<close>.
\<close>

theorem cover_exactly_once:
  assumes "check_cover n ss = Inr ()" and "1 \<le> i" and "i \<le> n"
  shows "length (filter (\<lambda>s. sc_start s \<le> i \<and> i \<le> sc_end s) ss) = 1
    \<and> sum_list (map sc_count ss) = n"
proof -
  from assms(1) obtain c where c: "cover n ss = Inr c" and s: "sort c = [1..<n + 1]"
    by (auto simp: check_cover_def bind_res_Inr split: if_splits)
  note ce = cover_Inr [OF c]
  have "count_list c i = count_list (sort c) i" by (simp add: count_list_eq_length_filter filter_sort)
  also have "\<dots> = 1" unfolding s using assms(2,3) by (auto simp: count_distinct)
  finally have one: "count_list c i = 1" .
  have "length c = n" using arg_cong [OF s, of length] by simp
  moreover have "length c = sum_list (map sc_count ss)"
    using ce by (simp add: length_concat o_def list_all_iff cong: map_cong)
  ultimately show ?thesis using one count_ranges [of ss i] ce by simp
qed

theorem cover_exactly_once_witness:
  "length (filter (\<lambda>s. sc_start s \<le> 2 \<and> 2 \<le> sc_end s)
     [\<lparr>sc_id = ''b'', sc_truth = [], sc_start = 3, sc_end = 3, sc_count = 1\<rparr>,
      \<lparr>sc_id = ''a'', sc_truth = [], sc_start = 1, sc_end = 2, sc_count = 2\<rparr>]) = 1"
  using cover_exactly_once [of 3 "[\<lparr>sc_id = ''b'', sc_truth = [], sc_start = 3, sc_end = 3, sc_count = 1\<rparr>,
      \<lparr>sc_id = ''a'', sc_truth = [], sc_start = 1, sc_end = 2, sc_count = 2\<rparr>]" 2]
  by (simp add: check_cover_def upt_rec)

lemma check_lines_Inr:
  "check_lines dig files ls = Inr c \<Longrightarrow> list_all (\<lambda>l. \<exists>b. fst (snd (partition2 l))
      \<and> map_of files (join_with 47 (path_parts (snd (snd (partition2 l))))) = Some b
      \<and> dig b = fst (partition2 l)) ls
    \<and> c = map (\<lambda>l. snd (snd (partition2 l))) ls"
  by (induction ls arbitrary: c) (auto simp: bind_res_Inr split: prod.splits option.splits if_splits)

text \<open>
  C15. A bundle whose checksums validate is the bundle that was summed: every file of the bundle
  other than a checksum file has a line of the checksum file with its path and the digest of its
  contents, so no file is unlisted, missing or changed.
\<close>

theorem checksums_cover_files:
  assumes "validate_checksums dig files sums = Inr ()" and "map_of files p = Some b"
    and "base_name p \<noteq> sums_name" and "join_with 47 (path_parts p) = p"
  shows "\<exists>l. l \<in> set (splitlines_from [] sums) \<and> partition2 l = (dig b, True, p)"
proof -
  from assms(1) obtain c where c: "check_lines dig files (splitlines_from [] sums) = Inr c"
    and s: "set c = set (filter (\<lambda>p. base_name p \<noteq> sums_name) (dkeys files))"
    by (auto simp: validate_checksums_def bind_res_Inr split: if_splits)
  have "p \<in> set c" unfolding s using assms(2,3) by (force dest: map_of_SomeD)
  with check_lines_Inr [OF c] obtain l where l: "l \<in> set (splitlines_from [] sums)"
    "snd (snd (partition2 l)) = p" by auto
  with check_lines_Inr [OF c] assms(2,4) show ?thesis
    by (intro exI [of _ l]) (auto simp: list_all_iff prod_eq_iff)
qed

definition sample_digest :: "bytes \<Rightarrow> pystr" where
  "sample_digest b = replicate 64 (97 + int (length b))"

theorem checksums_cover_files_witness:
  "\<exists>l. l \<in> set (splitlines_from [] (replicate 64 98 @ [32, 32, 120, 10]))
     \<and> partition2 l = (sample_digest [0], True, [120])"
proof (rule checksums_cover_files)
  show "validate_checksums sample_digest [([120], [0])] (replicate 64 98 @ [32, 32, 120, 10]) = Inr ()"
    by code_simp
  show "base_name [120] \<noteq> sums_name" "join_with 47 (path_parts [120]) = [120]" by code_simp+
qed simp

end
