(* ===== verification/Frame_Loop.thy ===== *)
theory Frame_Loop
  imports Wire
begin

section \<open>The buffered frame loop of the readers\<close>

text \<open>
  \<open>extract.py\<close>, \<open>detect2.py\<close>, \<open>bin2traces.py\<close> and the audit tools share the loop
  \<open>while off + FRAME.size <= n\<close> over a growing buffer.  \<open>drain\<close> models it with the reader's own
  check of the frame header and its own handling of the payload, \<open>feed\<close> the loop over the chunks
  read.  Two contracts of handlers give that the chunks do not matter: \<open>stream_reader\<close> for streams
  of accepted payloads, and \<open>framed_reader\<close>, which extends it to every input.
\<close>

subsection \<open>The loops\<close>

text \<open>
  \<open>while off + FRAME.size <= n\<close> over one buffer: the header check may end the program, an
  incomplete payload ends the loop and stays in the buffer, a complete payload is handled.  The
  handler is given the buffer from the payload on and the payload size, because some readers
  address fields relative to the buffer.  The result is the state, the unread buffer and the
  error that ended the loop, if one did.
\<close>

type_synonym 's handler = "'s \<Rightarrow> bytes \<Rightarrow> nat \<Rightarrow> 's \<times> (py_error + unit)"

function drain :: "(frame_hdr \<Rightarrow> py_error option) \<Rightarrow> 's handler \<Rightarrow> 's \<Rightarrow> bytes
    \<Rightarrow> 's \<times> bytes \<times> py_error option" where
  "drain chk hnd s buf =
    (if length buf < 12 then (s, buf, None)
     else let h = unpack_frame buf; n = nat (fh_size h) in
       (case chk h of
          Some e \<Rightarrow> (s, buf, Some e)
        | None \<Rightarrow>
           if length buf < 12 + n then (s, buf, None)
           else (case hnd s (drop 12 buf) n of
                   (s', Inl e) \<Rightarrow> (s', buf, Some e)
                 | (s', Inr _) \<Rightarrow> drain chk hnd s' (drop (12 + n) buf))))"
  by pat_completeness auto
termination
  by (relation "measure (\<lambda>(chk, hnd, s, buf). length buf)") auto

declare drain.simps [simp del]

text \<open>The outer loop: each chunk read is appended to what the inner loop left.\<close>

fun feed :: "(frame_hdr \<Rightarrow> py_error option) \<Rightarrow> 's handler \<Rightarrow> 's \<Rightarrow> bytes \<Rightarrow> bytes list
    \<Rightarrow> 's \<times> bytes \<times> py_error option" where
  "feed chk hnd s buf [] = (s, buf, None)"
| "feed chk hnd s buf (c # cs) =
     (case drain chk hnd s (buf @ c) of
        (s', buf', Some e) \<Rightarrow> (s', buf', Some e)
      | (s', buf', None) \<Rightarrow> feed chk hnd s' buf' cs)"

lemma unpack_frame_append: "12 \<le> length b \<Longrightarrow> unpack_frame (b @ x) = unpack_frame b"
  by (simp add: unpack_frame_def rd_append_left bslice_append_left)

lemma drain_stuck:
  "drain chk hnd s buf = (s', r, None) \<Longrightarrow> drain chk hnd s' r = (s', r, None)"
proof (induction chk hnd s buf rule: drain.induct)
  case (1 chk hnd s buf)
  show ?case
  proof (cases "drain chk hnd s buf = (s, buf, None)")
    case True
    with "1.prems" show ?thesis by simp
  next
    case False
    let ?n = "nat (fh_size (unpack_frame buf))"
    from False "1.prems" have len: "\<not> length buf < 12" and chk: "chk (unpack_frame buf) = None"
      and full: "\<not> length buf < 12 + ?n"
      by (auto simp: drain.simps [of chk hnd s buf] Let_def split: option.splits if_splits)
    obtain t y where hnd: "hnd s (drop 12 buf) ?n = (t, y)" by fastforce
    from "1.prems" len chk full hnd obtain u where y: "y = Inr u"
      by (cases y) (auto simp: drain.simps [of chk hnd s buf] Let_def)
    from "1.prems" len chk full hnd y have "drain chk hnd t (drop (12 + ?n) buf) = (s', r, None)"
      by (simp add: drain.simps [of chk hnd s buf] Let_def)
    with "1.IH" [OF len refl refl chk full hnd [symmetric] y] show ?thesis by simp
  qed
qed

text \<open>The run of a handler over whole payloads, up to the first error.\<close>

fun run_payloads :: "'s handler \<Rightarrow> 's \<Rightarrow> bytes list \<Rightarrow> 's \<times> py_error option" where
  "run_payloads hnd s [] = (s, None)"
| "run_payloads hnd s (p # ps) =
     (case hnd s p (length p) of
        (s', Inl e) \<Rightarrow> (s', Some e)
      | (s', Inr _) \<Rightarrow> run_payloads hnd s' ps)"

lemma run_payloads_append:
  "run_payloads hnd s (ps @ qs) =
     (case run_payloads hnd s ps of
        (s', Some e) \<Rightarrow> (s', Some e)
      | (s', None) \<Rightarrow> run_payloads hnd s' qs)"
  by (induction ps arbitrary: s) (auto split: prod.splits sum.splits)

lemma run_payloads_inv:
  assumes "P s" and "\<forall>p \<in> set ps. acc p"
    and "\<And>s p. P s \<Longrightarrow> acc p \<Longrightarrow> P (fst (hnd s p (length p)))"
  shows "P (fst (run_payloads hnd s ps))"
  using assms(1,2)
proof (induction ps arbitrary: s)
  case (Cons p ps)
  with assms(3) [of s p] show ?case by (auto split: prod.splits sum.splits)
qed simp

lemma run_payloads_ok:
  assumes "\<forall>p \<in> set ps. acc p" and "\<And>s p. acc p \<Longrightarrow> snd (hnd s p (length p)) = Inr ()"
  shows "snd (run_payloads hnd s ps) = None"
  using assms(1)
proof (induction ps arbitrary: s)
  case (Cons p ps)
  with assms(2) [of p s] show ?case by (auto split: prod.splits sum.splits)
qed simp

text \<open>The buffer does not hold the next frame whole.\<close>

definition starved :: "bytes \<Rightarrow> bytes list \<Rightarrow> bool" where
  "starved r ps \<longleftrightarrow> (case ps of [] \<Rightarrow> True | p # _ \<Rightarrow> length r < length (frame_bytes p))"

text \<open>
  A reader with a set of payloads on which its handler does not look past the payload.  A stream of
  frames with such payloads is handled payload by payload, wherever the input is cut into chunks.
\<close>

locale stream_reader =
  fixes chk :: "frame_hdr \<Rightarrow> py_error option"
    and hnd :: "'s handler"
    and accepts :: "bytes \<Rightarrow> bool"
  assumes hnd_accepted: "accepts p \<Longrightarrow> fits 4 (int (length p)) \<Longrightarrow>
      hnd s (p @ x) (length p) = hnd s p (length p)"
    and chk_accepts: "accepts p \<Longrightarrow> fits 4 (int (length p)) \<Longrightarrow>
      chk \<lparr>fh_magic = ebpf_magic, fh_version = 1, fh_little = 1, fh_reserved = 0,
           fh_size = int (length p)\<rparr> = None"
begin

abbreviation good :: "bytes list \<Rightarrow> bool" where
  "good ps \<equiv> (\<forall>p \<in> set ps. accepts p \<and> fits 4 (int (length p)))"

lemma drain_frame:
  assumes "accepts p" and "fits 4 (int (length p))"
  shows "drain chk hnd s (frame_bytes p @ x) =
    (case hnd s p (length p) of
       (s', Inl e) \<Rightarrow> (s', frame_bytes p @ x, Some e)
     | (s', Inr _) \<Rightarrow> drain chk hnd s' x)"
proof -
  let ?h = "\<lparr>fh_magic = ebpf_magic, fh_version = 1, fh_little = 1, fh_reserved = 0,
           fh_size = int (length p)\<rparr>"
  have u: "unpack_frame (frame_bytes p @ x) = ?h"
    using unpack_pack_frame [OF assms(2)] by (simp add: frame_bytes_def)
  have k: "chk ?h = None" using chk_accepts [OF assms] .
  have "drop 12 (frame_bytes p @ x) = p @ x" by (simp add: frame_bytes_def)
  moreover have "drop (12 + length p) (frame_bytes p @ x) = x" by (simp add: frame_bytes_def)
  ultimately show ?thesis
    using u k hnd_accepted [OF assms] by (simp add: drain.simps [of chk hnd s "frame_bytes p @ x"])
qed

text \<open>A proper part of a frame waits in the buffer.\<close>

lemma drain_part:
  assumes "accepts p" and "fits 4 (int (length p))" and "b @ y = frame_bytes p" and "y \<noteq> []"
  shows "drain chk hnd s b = (s, b, None)"
proof (cases "length b < 12")
  case True
  then show ?thesis by (simp add: drain.simps [of chk hnd s b])
next
  case False
  then have "unpack_frame b = unpack_frame (frame_bytes p)"
    using unpack_frame_append [of b y] assms(3) by simp
  then have u: "unpack_frame b = \<lparr>fh_magic = ebpf_magic, fh_version = 1, fh_little = 1,
      fh_reserved = 0, fh_size = int (length p)\<rparr>"
    using unpack_pack_frame [OF assms(2)] by (simp add: frame_bytes_def)
  have "length b + length y = 12 + length p" using arg_cong [OF assms(3), of length] by simp
  with assms(4) have "length b < 12 + length p" by (cases y) auto
  with u chk_accepts [OF assms(1,2)] show ?thesis
    by (simp add: drain.simps [of chk hnd s b] Let_def)
qed

text \<open>What the loop does with a buffer that holds the beginning of a stream of accepted frames.\<close>

lemma drain_prefix:
  assumes "b @ y = concat (map frame_bytes ps)" and "good ps"
  shows "\<exists>qs rs s' r e. ps = qs @ rs \<and> drain chk hnd s b = (s', r, e)
    \<and> run_payloads hnd s qs = (s', e)
    \<and> (e = None \<longrightarrow> r @ y = concat (map frame_bytes rs) \<and> starved r rs)
    \<and> length y \<le> length (concat (map frame_bytes rs))"
  using assms
proof (induction ps arbitrary: b s)
  case Nil
  then show ?case by (simp add: drain.simps [of chk hnd s "[]"] starved_def)
next
  case (Cons p ps)
  then have p: "accepts p" "fits 4 (int (length p))" and good: "good ps" by auto
  let ?tail = "concat (map frame_bytes ps)"
  from Cons.prems(1) have "b @ y = frame_bytes p @ ?tail" by simp
  then have "\<exists>z. b = frame_bytes p @ z \<and> z @ y = ?tail \<or> b @ z = frame_bytes p \<and> y = z @ ?tail"
    by (simp only: append_eq_append_conv2)
  then obtain z where z: "b = frame_bytes p @ z \<and> z @ y = ?tail
      \<or> b @ z = frame_bytes p \<and> y = z @ ?tail" by blast
  have "(\<exists>w. b = frame_bytes p @ w \<and> w @ y = ?tail)
      \<or> b @ z = frame_bytes p \<and> y = z @ ?tail \<and> z \<noteq> []"
    using z by (cases "z = []") auto
  then consider (part) "b @ z = frame_bytes p" "y = z @ ?tail" "z \<noteq> []"
    | (full) w where "b = frame_bytes p @ w" "w @ y = ?tail" by blast
  then show ?case
  proof cases
    case part
    have "length b + length z = length (frame_bytes p)"
      using arg_cong [OF part(1), of length] by simp
    with part(3) have "starved b (p # ps)" by (cases z) (auto simp: starved_def)
    moreover have "length y \<le> length (concat (map frame_bytes (p # ps)))"
      using arg_cong [OF part(1), of length] part(2) by simp
    ultimately show ?thesis using drain_part [OF p part(1,3), of s] Cons.prems(1)
      by (intro exI [of _ "[]"] exI [of _ "p # ps"] exI [of _ s] exI [of _ b] exI [of _ None]) simp
  next
    case (full w)
    obtain t o1 where hz: "hnd s p (length p) = (t, o1)" by fastforce
    note step = drain_frame [OF p, of s w]
    show ?thesis
    proof (cases o1)
      case (Inl e)
      have "length y \<le> length ?tail" using arg_cong [OF full(2), of length] by simp
      with Inl step hz full(1) show ?thesis
        by (intro exI [of _ "[p]"] exI [of _ ps] exI [of _ t] exI [of _ b] exI [of _ "Some e"]) simp
    next
      case (Inr u)
      from Cons.IH [OF full(2) good, of t] obtain qs rs s' r e where IH: "ps = qs @ rs"
        "drain chk hnd t w = (s', r, e)" "run_payloads hnd t qs = (s', e)"
        "e = None \<longrightarrow> r @ y = concat (map frame_bytes rs) \<and> starved r rs"
        "length y \<le> length (concat (map frame_bytes rs))" by blast
      have "drain chk hnd s b = (s', r, e)" using step hz Inr IH(2) full(1) by simp
      moreover have "run_payloads hnd s (p # qs) = (s', e)" using IH(3) hz Inr by simp
      moreover have "p # ps = (p # qs) @ rs" using IH(1) by simp
      ultimately show ?thesis using IH(4,5) by blast
    qed
  qed
qed

text \<open>The loop over chunks that make up the beginning of a stream, cut anywhere.\<close>

lemma feed_prefix:
  assumes "buf @ concat cs @ y = concat (map frame_bytes ps)" and "good ps"
    and "drain chk hnd s buf = (s, buf, None)"
  shows "\<exists>qs rs s' r e. ps = qs @ rs \<and> feed chk hnd s buf cs = (s', r, e)
    \<and> run_payloads hnd s qs = (s', e)
    \<and> (e = None \<longrightarrow> r @ y = concat (map frame_bytes rs) \<and> starved r rs)
    \<and> length y \<le> length (concat (map frame_bytes rs))"
  using assms
proof (induction cs arbitrary: s buf ps)
  case Nil
  then have "buf @ y = concat (map frame_bytes ps)" by simp
  from drain_prefix [OF this Nil.prems(2), of s] Nil.prems(3) show ?case by simp
next
  case (Cons c cs)
  then have "(buf @ c) @ concat cs @ y = concat (map frame_bytes ps)" by simp
  from drain_prefix [OF this Cons.prems(2), of s] obtain qs rs s' r e where d: "ps = qs @ rs"
    "drain chk hnd s (buf @ c) = (s', r, e)" "run_payloads hnd s qs = (s', e)"
    "e = None \<longrightarrow> r @ concat cs @ y = concat (map frame_bytes rs)"
    "length (concat cs @ y) \<le> length (concat (map frame_bytes rs))" by blast
  show ?case
  proof (cases e)
    case (Some err)
    then have "feed chk hnd s buf (c # cs) = (s', r, Some err)" using d(2) by simp
    moreover have "length y \<le> length (concat (map frame_bytes rs))" using d(5) by simp
    ultimately show ?thesis using d(1,3) Some by blast
  next
    case None
    with d have "drain chk hnd s (buf @ c) = (s', r, None)" by simp
    then have stuck: "drain chk hnd s' r = (s', r, None)" by (rule drain_stuck)
    from None d have "r @ concat cs @ y = concat (map frame_bytes rs)" by simp
    moreover have "good rs" using Cons.prems(2) d(1) by simp
    ultimately obtain qs1 rs1 s1 r1 e1 where f: "rs = qs1 @ rs1" "feed chk hnd s' r cs = (s1, r1, e1)"
      "run_payloads hnd s' qs1 = (s1, e1)"
      "e1 = None \<longrightarrow> r1 @ y = concat (map frame_bytes rs1) \<and> starved r1 rs1"
      "length y \<le> length (concat (map frame_bytes rs1))"
      using Cons.IH [OF _ _ stuck, of rs] by blast
    have "ps = (qs @ qs1) @ rs1" using d(1) f(1) by simp
    moreover have "feed chk hnd s buf (c # cs) = (s1, r1, e1)" using d(2) None f(2) by simp
    moreover have "run_payloads hnd s (qs @ qs1) = (s1, e1)"
      using d(3) None f(3) by (simp add: run_payloads_append)
    ultimately show ?thesis using f(4,5) by blast
  qed
qed

text \<open>A whole stream of accepted frames, cut anywhere, runs the handler over its payloads.\<close>

lemma feed_frames:
  assumes "concat cs = concat (map frame_bytes ps)" and "good ps"
  obtains s' r e where "feed chk hnd s [] cs = (s', r, e)" "run_payloads hnd s ps = (s', e)"
    "e = None \<Longrightarrow> r = []"
proof -
  have d: "drain chk hnd s [] = (s, [], None)" by (simp add: drain.simps)
  from feed_prefix [of "[]" cs "[]" ps s] assms d obtain qs rs s' r e where f: "ps = qs @ rs"
    "feed chk hnd s [] cs = (s', r, e)" "run_payloads hnd s qs = (s', e)"
    "e = None \<longrightarrow> r = concat (map frame_bytes rs) \<and> starved r rs" by auto
  have "rs = []" if "e = None"
    using f(4) that by (cases rs) (auto simp: starved_def)
  then show thesis
    using f that by (cases e) (auto simp: run_payloads_append)
qed

text \<open>When the end of the last frame is missing, the frames before it are handled.\<close>

lemma feed_truncated:
  assumes "concat cs @ y = concat (map frame_bytes (ps @ [q]))" and "good (ps @ [q])"
    and "y \<noteq> []" and "length y < length (frame_bytes q)"
  obtains s' r e where "feed chk hnd s [] cs = (s', r, e)" "run_payloads hnd s ps = (s', e)"
    "e = None \<Longrightarrow> r @ y = frame_bytes q"
proof -
  have d: "drain chk hnd s [] = (s, [], None)" by (simp add: drain.simps)
  from feed_prefix [of "[]" cs y "ps @ [q]" s] assms d obtain qs rs s' r e where f:
    "ps @ [q] = qs @ rs" "feed chk hnd s [] cs = (s', r, e)" "run_payloads hnd s qs = (s', e)"
    "e = None \<longrightarrow> r @ y = concat (map frame_bytes rs) \<and> starved r rs"
    and len: "length y \<le> length (concat (map frame_bytes rs))" by auto
  show thesis
  proof (cases e)
    case None
    with f(4) have r: "r @ y = concat (map frame_bytes rs)" and st: "starved r rs" by simp_all
    from r assms(3) obtain a ts where rs: "rs = a # ts" by (cases rs) auto
    have len: "length r + length y = length (frame_bytes a) + length (concat (map frame_bytes ts))"
      using arg_cong [OF r, of length] rs by simp
    have "ts = []"
    proof (rule ccontr)
      assume "ts \<noteq> []"
      with f(1) rs obtain us where "ts = us @ [q]" by (cases ts rule: rev_cases) auto
      with len st rs assms(4) show False by (simp add: starved_def)
    qed
    with f(1) rs have "qs = ps" "a = q" by simp_all
    with that f(2,3) r rs \<open>ts = []\<close> show thesis by simp
  next
    case (Some err)
    from len assms(3) obtain us z where "rs = us @ [z]" by (cases rs rule: rev_cases) auto
    with f(1) have "ps = qs @ us" by simp
    with that f(2,3) Some show thesis by (simp add: run_payloads_append)
  qed
qed

end

text \<open>
  A reader whose handler looks at the payload only, whatever it is.  Then where the input is cut
  into chunks does not matter for any input, corrupt ones included.
\<close>

locale framed_reader =
  fixes chk :: "frame_hdr \<Rightarrow> py_error option"
    and hnd :: "'s handler"
    and accepts :: "bytes \<Rightarrow> bool"
  assumes hnd_payload: "n \<le> length b \<Longrightarrow> chk h = None \<Longrightarrow> fh_size h = int n \<Longrightarrow>
      hnd s b n = hnd s (take n b) n"
    and chk_framed: "accepts p \<Longrightarrow> fits 4 (int (length p)) \<Longrightarrow>
      chk \<lparr>fh_magic = ebpf_magic, fh_version = 1, fh_little = 1, fh_reserved = 0,
           fh_size = int (length p)\<rparr> = None"
begin

lemma drain_append:
  "drain chk hnd s (x @ y) =
     (case drain chk hnd s x of
        (s', r, Some e) \<Rightarrow> (s', r @ y, Some e)
      | (s', r, None) \<Rightarrow> drain chk hnd s' (r @ y))"
proof (induction "length x" arbitrary: s x rule: less_induct)
  case less
  let ?h = "unpack_frame x" and ?n = "nat (fh_size (unpack_frame x))"
  show ?case
  proof (cases "length x < 12 \<or> (chk ?h = None \<and> length x < 12 + ?n)")
    case True
    then have "drain chk hnd s x = (s, x, None)"
      by (auto simp: drain.simps [of chk hnd s x] Let_def)
    then show ?thesis by simp
  next
    case False
    then have len: "\<not> length x < 12" and hd: "unpack_frame (x @ y) = ?h"
      by (simp_all add: unpack_frame_append)
    show ?thesis
    proof (cases "chk ?h")
      case (Some e)
      with len hd show ?thesis by (simp add: drain.simps [of chk hnd s] Let_def)
    next
      case None
      with False have full: "\<not> length x < 12 + ?n" by simp
      have sz: "fh_size ?h = int ?n" by (simp add: unpack_frame_def rd_bounds)
      have same: "hnd s (drop 12 (x @ y)) ?n = hnd s (drop 12 x) ?n"
        using full hnd_payload [of ?n "drop 12 x" ?h s] hnd_payload [of ?n "drop 12 x @ y" ?h s]
          None sz by simp
      obtain t z where hz: "hnd s (drop 12 x) ?n = (t, z)" by fastforce
      show ?thesis
      proof (cases z)
        case (Inl e)
        with len hd None full same hz show ?thesis
          by (simp add: drain.simps [of chk hnd s] Let_def)
      next
        case (Inr u)
        have "length (drop (12 + ?n) x) < length x" using len by simp
        from less [OF this, of t] len hd None full same hz Inr show ?thesis
          by (simp add: drain.simps [of chk hnd s "x @ y"] drain.simps [of chk hnd s x] Let_def)
      qed
    qed
  qed
qed

text \<open>Chunk boundaries are irrelevant: state and error are those of the concatenated input.\<close>

lemma feed_concat:
  assumes "drain chk hnd s buf = (s, buf, None)"
  shows "(case feed chk hnd s buf cs of (s', r, e) \<Rightarrow> (s', e)) =
    (case drain chk hnd s (buf @ concat cs) of (s', r, e) \<Rightarrow> (s', e))"
  using assms
proof (induction cs arbitrary: s buf)
  case Nil
  then show ?case by simp
next
  case (Cons c cs)
  obtain s1 r e where d: "drain chk hnd s (buf @ c) = (s1, r, e)" by (metis prod_cases3)
  show ?case
  proof (cases e)
    case (Some err)
    with d drain_append [of s "buf @ c" "concat cs"] show ?thesis by simp
  next
    case None
    with d have "drain chk hnd s (buf @ c) = (s1, r, None)" by simp
    then have stuck: "drain chk hnd s1 r = (s1, r, None)" by (rule drain_stuck)
    from d None drain_append [of s "buf @ c" "concat cs"]
    have "drain chk hnd s (buf @ concat (c # cs)) = drain chk hnd s1 (r @ concat cs)" by simp
    with Cons.IH [OF stuck] d None show ?thesis by simp
  qed
qed

lemma feed_chunks: "(case feed chk hnd s [] cs of (s', r, e) \<Rightarrow> (s', e)) =
    (case drain chk hnd s (concat cs) of (s', r, e) \<Rightarrow> (s', e))"
  using feed_concat [of s "[]" cs] by (simp add: drain.simps [of chk hnd s "[]"])

end

sublocale framed_reader \<subseteq> stream_reader chk hnd accepts
proof unfold_locales
  fix p x :: bytes and s
  assume p: "accepts p" "fits 4 (int (length p))"
  let ?h = "\<lparr>fh_magic = ebpf_magic, fh_version = 1, fh_little = 1, fh_reserved = 0,
           fh_size = int (length p)\<rparr>"
  show "hnd s (p @ x) (length p) = hnd s p (length p)"
    using hnd_payload [of "length p" "p @ x" ?h s] chk_framed [OF p] by simp
next
  fix p :: bytes
  assume "accepts p" "fits 4 (int (length p))"
  then show "chk \<lparr>fh_magic = ebpf_magic, fh_version = 1, fh_little = 1, fh_reserved = 0,
           fh_size = int (length p)\<rparr> = None" by (rule chk_framed)
qed

end
