(* ===== verification/Extract.thy ===== *)
theory Extract
  imports Frame_Loop Py_Parse "HOL-Library.List_Lexorder" "HOL-Library.Product_Lexorder"
begin

section \<open>Window extraction: \<open>extract.py\<close>\<close>

text \<open>
  The extractor turns a capture into records, one per window of a process: the sequence of the
  feature ids of its system calls, with the files, connections and executions seen meanwhile.  The
  dictionaries are keyed by the identity \<open>(tgid, task_start_ns)\<close>.  The map from system call numbers
  to feature ids is a parameter (it is read from a JSON file), and so is the random generator: the
  draw with index \<open>k\<close> from \<open>range(n)\<close> is \<open>rnd k n\<close>.
\<close>

subsection \<open>Data\<close>

type_synonym pkey = "int \<times> int"
type_synonym span = "int \<times> int \<times> pystr \<times> pystr"

record xconf =
  c_window :: int
  c_min_len :: int
  c_label :: pystr
  c_technique :: pystr
  c_session :: pystr
  c_ignore_loss :: bool
  c_max_records :: int
  c_max_per_unit :: int
  c_slim :: bool
  c_timeline :: "span list"

record fopen =
  fo_path :: pystr
  fo_flags :: int
  fo_mode :: int

record conn =
  cn_port :: int
  cn_fam :: int
  cn_addr :: pystr

text \<open>A full record keeps the sequence, a slim one its length and number of distinct ids.\<close>

datatype calls = Syscalls "int list" | Stats nat nat

record xrec =
  r_label :: pystr
  r_technique :: pystr
  r_session :: pystr
  r_key :: pkey
  r_comm :: pystr
  r_uid :: int
  r_ppid :: int
  r_calls :: calls
  r_files :: "fopen list"
  r_net :: "conn list"
  r_execs :: "pystr list"

record xstate =
  x_sysq :: "(pkey, int list) pydict"
  x_files :: "(pkey, fopen list) pydict"
  x_nets :: "(pkey, conn list) pydict"
  x_execs :: "(pkey, pystr list) pydict"
  x_meta :: "(pkey, pystr \<times> int \<times> int) pydict"
  x_written :: nat
  x_total :: nat
  x_unknown :: nat
  x_frames :: nat
  x_health :: "int list"
  x_out :: "xrec list"
  x_strata :: "(pystr \<times> pystr, xrec list) pydict"
  x_seen :: "(pystr \<times> pystr, nat) pydict"
  x_reservoir :: "xrec list"
  x_draws :: nat

definition x_init :: xstate where
  "x_init = \<lparr>x_sysq = [], x_files = [], x_nets = [], x_execs = [], x_meta = [], x_written = 0,
     x_total = 0, x_unknown = 0, x_frames = 0, x_health = [], x_out = [], x_strata = [],
     x_seen = [], x_reservoir = [], x_draws = 0\<rparr>"

text \<open>\<open>d.get(k, [])\<close> and \<open>d[k].append(v)\<close> of a \<open>defaultdict(list)\<close>.\<close>

definition dlist :: "('k, 'v list) pydict \<Rightarrow> 'k \<Rightarrow> 'v list" where
  "dlist d k = (case map_of d k of None \<Rightarrow> [] | Some v \<Rightarrow> v)"

definition dpush :: "'k \<Rightarrow> 'v \<Rightarrow> ('k, 'v list) pydict \<Rightarrow> ('k, 'v list) pydict" where
  "dpush k v d = dset k (dlist d k @ [v]) d"

definition cstr :: "bytes \<Rightarrow> nat \<Rightarrow> nat \<Rightarrow> pystr" where
  "cstr b off n = utf8_decode on_replace (until_nul (bslice b off (off + n)))"

definition ipv4 :: "bytes \<Rightarrow> nat \<Rightarrow> pystr" where
  "ipv4 b off = join_with 46 (map octet_text (bslice b off (off + 4)))"

subsection \<open>The timeline\<close>

text \<open>Lines with at least four fields; the spans are sorted as tuples.\<close>

fun x_timeline :: "pystr list \<Rightarrow> span list res" where
  "x_timeline [] = Inr []"
| "x_timeline (l # ls) =
     (let f = split_on 9 l in
      if length f < 4 then x_timeline ls
      else bind_res (parse_int (f ! 0)) (\<lambda>a. bind_res (parse_int (f ! 1)) (\<lambda>e.
        bind_res (x_timeline ls) (\<lambda>spans. Inr ((a, e, strip (f ! 2), strip (f ! 3)) # spans)))))"

definition read_spans :: "pystr \<Rightarrow> span list res" where
  "read_spans text = bind_res (x_timeline (file_lines text)) (\<lambda>spans. Inr (sort spans))"

text \<open>\<open>bisect.bisect_right\<close> on a sorted list.\<close>

definition bisect_right :: "int list \<Rightarrow> int \<Rightarrow> nat" where
  "bisect_right xs x = length (takeWhile (\<lambda>y. y \<le> x) xs)"

definition attack :: pystr where
  "attack = ucode ''attack''"

definition unit_name :: "pystr \<Rightarrow> pystr \<Rightarrow> pystr" where
  "unit_name cls unit = (if cls = attack \<and> starts_with unit (ucode ''t_'') then drop 2 unit else unit)"

definition label_of :: "span list \<Rightarrow> int \<Rightarrow> (pystr \<times> pystr) option" where
  "label_of spans ts =
    (let i = bisect_right (map fst spans) ts in
     if i = 0 then None
     else (case spans ! (i - 1) of (start, stop, cls, unit) \<Rightarrow>
       if stop < ts then None else Some (cls, unit_name cls unit)))"

subsection \<open>Flushing a window\<close>

definition x_reset :: "pkey \<Rightarrow> xstate \<Rightarrow> xstate" where
  "x_reset k s = s\<lparr>x_sysq := dset k [] (x_sysq s), x_files := dset k [] (x_files s),
     x_nets := dset k [] (x_nets s), x_execs := dset k [] (x_execs s)\<rparr>"

definition x_forget :: "pkey \<Rightarrow> xstate \<Rightarrow> xstate" where
  "x_forget k s = s\<lparr>x_sysq := dpop k (x_sysq s), x_files := dpop k (x_files s),
     x_nets := dpop k (x_nets s), x_execs := dpop k (x_execs s)\<rparr>"

text \<open>The record, without its statistics when it is slim.\<close>

definition x_record :: "xconf \<Rightarrow> xstate \<Rightarrow> pkey \<Rightarrow> pystr \<Rightarrow> pystr \<Rightarrow> xrec" where
  "x_record c s k lab tech =
    (let seq = dlist (x_sysq s) k;
         (comm, uid, ppid) = (case map_of (x_meta s) k of None \<Rightarrow> (ucode ''?'', - 1, - 1) | Some m \<Rightarrow> m)
     in \<lparr>r_label = lab, r_technique = tech, r_session = c_session c, r_key = k, r_comm = comm,
         r_uid = uid, r_ppid = ppid,
         r_calls = (if c_slim c then Stats (length seq) (length (remdups seq)) else Syscalls seq),
         r_files = dlist (x_files s) k, r_net = dlist (x_nets s) k, r_execs = dlist (x_execs s) k\<rparr>)"

text \<open>One step of algorithm R: the kept sample, the number of draws and the drawn index.\<close>

definition keep_sample :: "(nat \<Rightarrow> nat \<Rightarrow> nat) \<Rightarrow> int \<Rightarrow> nat \<Rightarrow> nat \<Rightarrow> 'r \<Rightarrow> 'r list \<Rightarrow> 'r list \<times> nat" where
  "keep_sample rnd cap draws bound r res =
    (if int (length res) < cap then (res @ [r], draws)
     else let j = rnd draws bound in
       (if int j < cap then res[j := r] else res, draws + 1))"

definition x_emit :: "xconf \<Rightarrow> (nat \<Rightarrow> nat \<Rightarrow> nat) \<Rightarrow> pystr \<Rightarrow> pystr \<Rightarrow> xrec \<Rightarrow> xstate \<Rightarrow> xstate" where
  "x_emit c rnd lab tech r s =
    (if c_slim c then s\<lparr>x_out := x_out s @ [r], x_written := x_written s + 1\<rparr>
     else if c_max_per_unit c \<noteq> 0 then
       (let u = (lab, tech); res = dlist (x_strata s) u;
            seen = (case map_of (x_seen s) u of None \<Rightarrow> 0 | Some n \<Rightarrow> n) + 1;
            (res', draws) = keep_sample rnd (c_max_per_unit c) (x_draws s) seen r res
        in s\<lparr>x_strata := dset u res' (x_strata s), x_seen := dset u seen (x_seen s),
             x_draws := draws, x_written := x_written s + 1\<rparr>)
     else if c_max_records c \<noteq> 0 then
       (let (res', draws) = keep_sample rnd (c_max_records c) (x_draws s) (x_written s + 1) r
              (x_reservoir s)
        in s\<lparr>x_reservoir := res', x_draws := draws, x_written := x_written s + 1\<rparr>)
     else s\<lparr>x_out := x_out s @ [r], x_written := x_written s + 1\<rparr>)"

text \<open>The label of the windows of a process: the one given, or that of the span of its start.\<close>

definition x_label :: "xconf \<Rightarrow> pkey \<Rightarrow> (pystr \<times> pystr) option" where
  "x_label c k = (if c_timeline c = [] then Some (c_label c, c_technique c)
     else label_of (c_timeline c) (snd k))"

definition x_flush :: "xconf \<Rightarrow> (nat \<Rightarrow> nat \<Rightarrow> nat) \<Rightarrow> pkey \<Rightarrow> bool \<Rightarrow> xstate \<Rightarrow> xstate" where
  "x_flush c rnd k force s =
    (if int (length (dlist (x_sysq s) k)) < c_min_len c
     then (if force then x_forget k s else s)
     else (case x_label c k of
         None \<Rightarrow> x_reset k s
       | Some (lab, tech) \<Rightarrow> x_reset k (x_emit c rnd lab tech (x_record c s k lab tech) s)))"

subsection \<open>Handling an event\<close>

text \<open>
  The fields are read from the buffer at offsets from the payload on, not from the payload:
  \<open>struct.unpack_from\<close> raises where the buffer ends, a slice is clipped.
\<close>

definition x_check :: "frame_hdr \<Rightarrow> py_error option" where
  "x_check h = (if fh_magic h \<noteq> ebpf_magic \<or> fh_version h \<noteq> 1 \<or> fh_little h \<noteq> 1
     then Some (SystemExit ''corrupt frame'') else None)"

definition x_syscall :: "xconf \<Rightarrow> (int \<Rightarrow> int option) \<Rightarrow> (nat \<Rightarrow> nat \<Rightarrow> nat) \<Rightarrow> bytes \<Rightarrow> pkey \<Rightarrow> xstate
    \<Rightarrow> xstate \<times> (py_error + unit)" where
  "x_syscall c nr2fid rnd b k s =
    (if length b < 92 then (s, Inl StructError)
     else (case nr2fid (rd 4 b 88) of
         None \<Rightarrow> (s\<lparr>x_unknown := x_unknown s + 1\<rparr>, Inr ())
       | Some fid \<Rightarrow>
         (let s1 = s\<lparr>x_total := x_total s + 1, x_sysq := dpush k fid (x_sysq s)\<rparr> in
          (if c_window c \<le> int (length (dlist (x_sysq s1) k)) then x_flush c rnd k False s1 else s1,
           Inr ()))))"

definition x_open :: "bytes \<Rightarrow> pkey \<Rightarrow> xstate \<Rightarrow> xstate \<times> (py_error + unit)" where
  "x_open b k s =
    (if length b < 116 then (s, Inl StructError)
     else (s\<lparr>x_files := dpush k \<lparr>fo_path = cstr b 120 256, fo_flags = rd 4 b 108,
            fo_mode = rd 4 b 112\<rparr> (x_files s)\<rparr>, Inr ()))"

definition x_connect :: "bytes \<Rightarrow> pkey \<Rightarrow> xstate \<Rightarrow> xstate \<times> (py_error + unit)" where
  "x_connect b k s =
    (if length b < 160 then (s, Inl StructError)
     else (s\<lparr>x_nets := dpush k \<lparr>cn_port = rd 2 b 158, cn_fam = rd 2 b 152,
            cn_addr = ipv4 b 184\<rparr> (x_nets s)\<rparr>, Inr ()))"

definition x_handle :: "xconf \<Rightarrow> (int \<Rightarrow> int option) \<Rightarrow> (nat \<Rightarrow> nat \<Rightarrow> nat) \<Rightarrow> xstate handler" where
  "x_handle c nr2fid rnd s0 b n =
    (let s = s0\<lparr>x_frames := x_frames s0 + 1\<rparr> in
     if length b < 72 then (s, Inl StructError)
     else let etype = rd 2 b 70; k = (rd 4 b 28, rd 8 b 16);
         s1 = s\<lparr>x_meta := dset k (cstr b 72 16, rd 4 b 44, rd 4 b 40) (x_meta s)\<rparr>
       in if etype = 4 then x_syscall c nr2fid rnd b k s1
          else if etype = 6 then x_open b k s1
          else if etype = 8 then x_connect b k s1
          else if etype = 2 then (s1\<lparr>x_execs := dpush k (cstr b 104 256) (x_execs s1)\<rparr>, Inr ())
          else if etype = 14 then
            (if length b < 128 then (s, Inl StructError)
             else (s\<lparr>x_health := map (rd 8 b) [88, 96, 104, 112, 120]\<rparr>, Inr ()))
          else (s, Inr ()))"

subsection \<open>The whole run\<close>

text \<open>At the end of the capture every window is flushed, the short ones are dropped.\<close>

definition x_finish :: "xconf \<Rightarrow> (nat \<Rightarrow> nat \<Rightarrow> nat) \<Rightarrow> xstate \<Rightarrow> xstate" where
  "x_finish c rnd s = fold (\<lambda>k. x_flush c rnd k True) (dkeys (x_sysq s)) s"

definition x_streams :: "xconf \<Rightarrow> bool" where
  "x_streams c \<longleftrightarrow> c_slim c \<or> \<not> (c_max_records c \<noteq> 0 \<or> c_max_per_unit c \<noteq> 0)"

text \<open>The records in the output file.\<close>

definition x_lines :: "xconf \<Rightarrow> xstate \<Rightarrow> xrec list" where
  "x_lines c s =
    (if c_slim c then x_out s
     else if c_max_per_unit c \<noteq> 0 then
       concat (map (dlist (x_strata s)) (sort (dkeys (x_strata s))))
     else if c_max_records c \<noteq> 0 then x_reservoir s else x_out s)"

definition x_lost :: "xstate \<Rightarrow> bool" where
  "x_lost s \<longleftrightarrow> list_ex (\<lambda>v. v \<noteq> 0) (take 3 (x_health s))"

definition x_exit :: "xconf \<Rightarrow> xstate \<Rightarrow> py_error option" where
  "x_exit c s =
    (if x_lost s \<and> \<not> c_ignore_loss c then Some (SystemExit ''2'')
     else if x_written s = 0 then Some (SystemExit ''no records'') else None)"

text \<open>
  The records of the output file and how the program ends.  When the loop raises, a file that is
  written as the capture is read holds what was written; the sampled outputs are not created.
\<close>

definition extract_main :: "xconf \<Rightarrow> (int \<Rightarrow> int option) \<Rightarrow> (nat \<Rightarrow> nat \<Rightarrow> nat) \<Rightarrow> bytes list
    \<Rightarrow> xrec list option \<times> py_error option" where
  "extract_main c nr2fid rnd chunks =
    (case feed x_check (x_handle c nr2fid rnd) x_init [] chunks of
       (s, _, Some e) \<Rightarrow> (if x_streams c then Some (x_out s) else None, Some e)
     | (s, _, None) \<Rightarrow>
        (let s' = x_finish c rnd s in (Some (x_lines c s'), x_exit c s')))"

end
