(* ===== verification/Extract_Lemmas.thy ===== *)
theory Extract_Lemmas
  imports Extract
begin

section \<open>Lemmas on the extractor\<close>

text \<open>
  The handler as one note of the event and at most one flush; the interpretation of the stream
  reader; and, for each of the four lists a window collects, the contract \<open>window_field\<close> from which
  follows that flushing loses nothing.
\<close>

subsection \<open>Dictionaries of lists\<close>

lemma dlist_Nil [simp]: "dlist [] k = []"
  by (simp add: dlist_def)

lemma dlist_dset [dict_simps]: "dlist (dset k v d) k' = (if k' = k then v else dlist d k')"
  by (simp add: dlist_def map_of_dset)

lemma dlist_dpop [dict_simps]: "dlist (dpop k d) k' = (if k' = k then [] else dlist d k')"
  by (simp add: dlist_def map_of_dpop)

lemma dlist_dpush [dict_simps]:
  "dlist (dpush k v d) k' = (if k' = k then dlist d k @ [v] else dlist d k')"
  by (simp add: dpush_def dlist_dset)

lemma dlist_absent: "k \<notin> set (dkeys d) \<Longrightarrow> dlist d k = []"
  using map_of_eq_None_iff [of d k] by (simp add: dlist_def)

subsection \<open>The accepted payloads\<close>

definition x_accepts :: "bytes \<Rightarrow> bool" where
  "x_accepts p \<longleftrightarrow> 88 \<le> length p \<and> (rd 2 p 70 = 4 \<longrightarrow> 92 \<le> length p)
     \<and> (rd 2 p 70 = 6 \<longrightarrow> 376 \<le> length p) \<and> (rd 2 p 70 = 8 \<longrightarrow> 188 \<le> length p)
     \<and> (rd 2 p 70 = 2 \<longrightarrow> 360 \<le> length p) \<and> (rd 2 p 70 = 14 \<longrightarrow> 128 \<le> length p)"

definition p_kind :: "bytes \<Rightarrow> int" where
  "p_kind p = rd 2 p 70"

definition p_key :: "bytes \<Rightarrow> pkey" where
  "p_key p = (rd 4 p 28, rd 8 p 16)"

lemma cstr_append_left: "off + n \<le> length p \<Longrightarrow> cstr (p @ x) off n = cstr p off n"
  by (simp add: cstr_def bslice_append_left)

lemma ipv4_append_left: "off + 4 \<le> length p \<Longrightarrow> ipv4 (p @ x) off = ipv4 p off"
  by (simp add: ipv4_def bslice_append_left)

lemmas x_handle_defs = x_handle_def x_syscall_def x_open_def x_connect_def Let_def

lemma x_handle_append:
  assumes "x_accepts p"
  shows "x_handle c f rnd s (p @ x) n = x_handle c f rnd s p n"
proof -
  let ?s1 = "s\<lparr>x_frames := x_frames s + 1,
      x_meta := dset (p_key p) (cstr p 72 16, rd 4 p 44, rd 4 p 40) (x_meta s)\<rparr>"
  have len: "88 \<le> length p" using assms by (simp add: x_accepts_def)
  have hd: "rd 2 (p @ x) 70 = rd 2 p 70" "rd 4 (p @ x) 28 = rd 4 p 28" "rd 8 (p @ x) 16 = rd 8 p 16"
    "rd 4 (p @ x) 44 = rd 4 p 44" "rd 4 (p @ x) 40 = rd 4 p 40" "cstr (p @ x) 72 16 = cstr p 72 16"
    using len by (simp_all add: rd_append_left cstr_append_left)
  have sys: "x_syscall c f rnd (p @ x) k t = x_syscall c f rnd p k t" if "rd 2 p 70 = 4" for k t
    using assms that by (simp add: x_accepts_def x_syscall_def rd_append_left)
  have opn: "x_open (p @ x) k t = x_open p k t" if "rd 2 p 70 = 6" for k t
    using assms that by (simp add: x_accepts_def x_open_def rd_append_left cstr_append_left)
  have con: "x_connect (p @ x) k t = x_connect p k t" if "rd 2 p 70 = 8" for k t
    using assms that by (simp add: x_accepts_def x_connect_def rd_append_left ipv4_append_left)
  have exe: "cstr (p @ x) 104 256 = cstr p 104 256" if "rd 2 p 70 = 2"
    using assms that by (simp add: x_accepts_def cstr_append_left)
  have hea: "map (rd 8 (p @ x)) [88, 96, 104, 112, 120] = map (rd 8 p) [88, 96, 104, 112, 120]"
    "\<not> length p < 128" if "rd 2 p 70 = 14"
    using assms that by (simp_all add: x_accepts_def rd_append_left)
  have nl: "\<not> length p < 72" "\<not> length (p @ x) < 72" using len by simp_all
  show ?thesis
    unfolding x_handle_def Let_def if_not_P [OF nl(1)] if_not_P [OF nl(2)] hd
    using sys opn con exe hea by auto
qed

interpretation xr: stream_reader x_check "x_handle c f rnd" x_accepts for c f rnd
  by unfold_locales (simp_all add: x_handle_append x_check_def)

subsection \<open>An event as a note and a flush\<close>

text \<open>The state after the event was noted, before a full window is flushed.\<close>

definition x_note :: "(int \<Rightarrow> int option) \<Rightarrow> bytes \<Rightarrow> xstate \<Rightarrow> xstate" where
  "x_note f p s =
    (let k = p_key p; s0 = s\<lparr>x_frames := x_frames s + 1\<rparr>;
         s1 = s0\<lparr>x_meta := dset k (cstr p 72 16, rd 4 p 44, rd 4 p 40) (x_meta s)\<rparr> in
     if p_kind p = 4 then
       (case f (rd 4 p 88) of None \<Rightarrow> s1\<lparr>x_unknown := x_unknown s1 + 1\<rparr>
        | Some fid \<Rightarrow> s1\<lparr>x_total := x_total s1 + 1, x_sysq := dpush k fid (x_sysq s1)\<rparr>)
     else if p_kind p = 6 then s1\<lparr>x_files := dpush k \<lparr>fo_path = cstr p 120 256, fo_flags = rd 4 p 108,
            fo_mode = rd 4 p 112\<rparr> (x_files s1)\<rparr>
     else if p_kind p = 8 then s1\<lparr>x_nets := dpush k \<lparr>cn_port = rd 2 p 158, cn_fam = rd 2 p 152,
            cn_addr = ipv4 p 184\<rparr> (x_nets s1)\<rparr>
     else if p_kind p = 2 then s1\<lparr>x_execs := dpush k (cstr p 104 256) (x_execs s1)\<rparr>
     else if p_kind p = 14 then s0\<lparr>x_health := map (rd 8 p) [88, 96, 104, 112, 120]\<rparr>
     else s0)"

definition x_full :: "xconf \<Rightarrow> (int \<Rightarrow> int option) \<Rightarrow> bytes \<Rightarrow> xstate \<Rightarrow> bool" where
  "x_full c f p s \<longleftrightarrow> p_kind p = 4 \<and> f (rd 4 p 88) \<noteq> None
     \<and> c_window c \<le> int (length (dlist (x_sysq s) (p_key p)))"

lemma x_handle_note:
  assumes "x_accepts p"
  shows "x_handle c f rnd s p n =
    (let s1 = x_note f p s in (if x_full c f p s1 then x_flush c rnd (p_key p) False s1 else s1, Inr ()))"
proof -
  have acc: "\<not> length p < 72" "p_kind p = 4 \<longrightarrow> \<not> length p < 92" "p_kind p = 6 \<longrightarrow> \<not> length p < 116"
    "p_kind p = 8 \<longrightarrow> \<not> length p < 160" "p_kind p = 14 \<longrightarrow> \<not> length p < 128"
    using assms by (auto simp: x_accepts_def p_kind_def)
  consider "p_kind p = 4" | "p_kind p = 6" | "p_kind p = 8" | "p_kind p = 2" | "p_kind p = 14"
    | "p_kind p \<noteq> 4" "p_kind p \<noteq> 6" "p_kind p \<noteq> 8" "p_kind p \<noteq> 2" "p_kind p \<noteq> 14" by blast
  then show ?thesis
  proof cases
    case 1
    with acc show ?thesis
      by (simp add: x_handle_def x_syscall_def x_note_def x_full_def Let_def p_kind_def p_key_def
          split: option.splits)
  qed (use acc in \<open>simp_all add: x_handle_def x_open_def x_connect_def x_note_def x_full_def Let_def
      p_kind_def p_key_def\<close>)
qed

subsection \<open>What flushing does to the lists and to the records\<close>

lemma x_emit_pending [simp]:
  "x_sysq (x_emit c rnd lab tech r s) = x_sysq s" "x_files (x_emit c rnd lab tech r s) = x_files s"
  "x_nets (x_emit c rnd lab tech r s) = x_nets s" "x_execs (x_emit c rnd lab tech r s) = x_execs s"
  "x_meta (x_emit c rnd lab tech r s) = x_meta s" "x_health (x_emit c rnd lab tech r s) = x_health s"
  "x_written (x_emit c rnd lab tech r s) = Suc (x_written s)"
  by (simp_all add: x_emit_def Let_def split: prod.splits)

definition recs :: "pkey \<Rightarrow> xrec list \<Rightarrow> xrec list" where
  "recs k rs = filter (\<lambda>r. r_key r = k) rs"

lemma recs_append [simp]: "recs k (rs @ ts) = recs k rs @ recs k ts"
  by (simp add: recs_def)

lemma recs_single [simp]: "recs k [r] = (if r_key r = k then [r] else [])"
  by (simp add: recs_def)

lemma r_key_x_record [simp]: "r_key (x_record c s k lab tech) = k"
  by (simp add: x_record_def Let_def split: prod.splits)

text \<open>The full records written as the capture is read.\<close>

definition full_stream :: "xconf \<Rightarrow> bool" where
  "full_stream c \<longleftrightarrow> \<not> c_slim c \<and> c_max_per_unit c = 0 \<and> c_max_records c = 0"

lemma x_emit_full: "full_stream c \<Longrightarrow> x_out (x_emit c rnd lab tech r s) = x_out s @ [r]"
  by (simp add: x_emit_def full_stream_def)

lemma x_out_reset [simp]: "x_out (x_reset k s) = x_out s" "x_out (x_forget k s) = x_out s"
  by (simp_all add: x_reset_def x_forget_def)

lemma x_out_note [simp]: "x_out (x_note f p s) = x_out s"
  by (simp add: x_note_def Let_def split: option.splits)

lemma x_label_None_silent:
  "x_label c k = None \<Longrightarrow> x_out (x_flush c rnd k force s) = x_out s"
  by (simp add: x_flush_def)

text \<open>
  The contract of a list that windows collect: what of it waits for a process, what of it is in a
  record, and what an event adds.  \<open>small\<close> bounds what is dropped with a short window at the end.
\<close>

locale window_field =
  fixes c :: xconf
    and f :: "int \<Rightarrow> int option"
    and pend :: "xstate \<Rightarrow> pkey \<Rightarrow> 'a list"
    and got :: "xrec \<Rightarrow> 'a list"
    and ev :: "bytes \<Rightarrow> 'a list"
    and small :: "'a list \<Rightarrow> bool"
  assumes got_record: "\<not> c_slim c \<Longrightarrow> got (x_record c s k lab tech) = pend s k"
    and pend_reset: "pend (x_reset k s) k' = (if k' = k then [] else pend s k')"
    and pend_forget: "pend (x_forget k s) k' = (if k' = k then [] else pend s k')"
    and pend_emit: "pend (x_emit c rnd lab tech r s) k = pend s k"
    and pend_note: "pend (x_note f p s) k = pend s k @ (if p_key p = k then ev p else [])"
    and pend_init: "pend x_init k = []"
    and small_pend: "int (length (dlist (x_sysq s) k)) < c_min_len c \<Longrightarrow> small (pend s k)"
begin

definition total :: "xstate \<Rightarrow> pkey \<Rightarrow> 'a list" where
  "total s k = concat (map got (recs k (x_out s))) @ pend s k"

lemma total_note: "total (x_note f p s) k = total s k @ (if p_key p = k then ev p else [])"
  by (simp add: total_def pend_note)

lemma flush_cases:
  assumes "full_stream c" and "x_label c k' \<noteq> None"
  shows "total (x_flush c rnd k force s) k' = total s k'
    \<or> force \<and> k' = k \<and> small (pend s k) \<and> x_flush c rnd k force s = x_forget k s"
proof (cases "int (length (dlist (x_sysq s) k)) < c_min_len c")
  case True
  then show ?thesis
    by (auto simp: x_flush_def total_def pend_forget small_pend)
next
  case False
  show ?thesis
  proof (cases "x_label c k")
    case None
    with assms(2) False show ?thesis
      by (auto simp: x_flush_def total_def pend_reset)
  next
    case (Some lt)
    moreover obtain lab tech where "lt = (lab, tech)" by (cases lt)
    ultimately show ?thesis using False assms(1)
      by (auto simp: x_flush_def total_def pend_reset pend_emit x_emit_full got_record
          full_stream_def)
  qed
qed

lemma total_handle:
  assumes "full_stream c" and "x_label c k \<noteq> None" and "x_accepts p"
  shows "total (fst (x_handle c f rnd s p n)) k = total s k @ (if p_key p = k then ev p else [])"
  using flush_cases [OF assms(1,2), of rnd "p_key p" False "x_note f p s"]
  by (auto simp: x_handle_note [OF assms(3)] Let_def total_note)

lemma total_run:
  assumes "full_stream c" and "x_label c k \<noteq> None" and "\<forall>p \<in> set ps. x_accepts p"
  shows "total (fst (run_payloads (x_handle c f rnd) s ps)) k =
    total s k @ concat (map ev (filter (\<lambda>p. p_key p = k) ps))"
  using assms(3)
proof (induction ps arbitrary: s)
  case (Cons p ps)
  then have p: "x_accepts p" by simp
  obtain s1 where s1: "x_handle c f rnd s p (length p) = (s1, Inr ())"
    using x_handle_note [OF p] by (simp add: Let_def)
  with Cons total_handle [OF assms(1,2) p, of rnd s "length p"] show ?case by auto
qed simp

lemma pend_flush:
  "pend (x_flush c rnd k force s) k' = pend s k' \<or> pend (x_flush c rnd k force s) k' = []"
  by (auto simp: x_flush_def pend_forget pend_reset pend_emit split: option.splits)

text \<open>
  What the records hold of the total \<open>T\<close>, and a rest that waits or was dropped with a short window.
\<close>

definition rests :: "'a list \<Rightarrow> xstate \<Rightarrow> pkey \<Rightarrow> bool" where
  "rests T s k \<longleftrightarrow> (\<exists>rest. concat (map got (recs k (x_out s))) @ rest = T
     \<and> (rest = pend s k \<or> small rest \<and> pend s k = []))"

lemma rests_flush:
  assumes "full_stream c" and "x_label c k' \<noteq> None" and "rests T s k'"
  shows "rests T (x_flush c rnd k True s) k'"
proof -
  let ?s = "x_flush c rnd k True s"
  from assms(3) obtain rest where r: "concat (map got (recs k' (x_out s))) @ rest = T"
    "rest = pend s k' \<or> small rest \<and> pend s k' = []" by (auto simp: rests_def)
  from flush_cases [OF assms(1,2), of rnd k True s]
  consider (same) "total ?s k' = total s k'"
    | (drop) "k' = k" "small (pend s k)" "?s = x_forget k s" by blast
  then show ?thesis
  proof cases
    case same
    with r pend_flush [of rnd k True s k'] show ?thesis
      by (auto simp: rests_def total_def)
  next
    case drop
    with r show ?thesis by (auto simp: rests_def pend_forget)
  qed
qed

lemma total_finish:
  assumes "full_stream c" and "x_label c k \<noteq> None"
  shows "rests (total s k) (x_finish c rnd s) k"
proof -
  have "rests T (fold (\<lambda>k. x_flush c rnd k True) ks s') k" if "rests T s' k" for ks s' T
    using that by (induction ks arbitrary: s') (simp_all add: rests_flush [OF assms])
  moreover have "rests (total s k) s k" by (auto simp: rests_def total_def)
  ultimately show ?thesis by (simp add: x_finish_def)
qed

end

definition seq_of :: "xrec \<Rightarrow> int list" where
  "seq_of r = (case r_calls r of Syscalls q \<Rightarrow> q | Stats _ _ \<Rightarrow> [])"

text \<open>What an event adds to each list.\<close>

definition ev_call :: "(int \<Rightarrow> int option) \<Rightarrow> bytes \<Rightarrow> int list" where
  "ev_call f p = (if p_kind p = 4 then (case f (rd 4 p 88) of None \<Rightarrow> [] | Some fid \<Rightarrow> [fid]) else [])"

definition ev_open :: "bytes \<Rightarrow> fopen list" where
  "ev_open p = (if p_kind p = 6
     then [\<lparr>fo_path = cstr p 120 256, fo_flags = rd 4 p 108, fo_mode = rd 4 p 112\<rparr>] else [])"

definition ev_conn :: "bytes \<Rightarrow> conn list" where
  "ev_conn p = (if p_kind p = 8
     then [\<lparr>cn_port = rd 2 p 158, cn_fam = rd 2 p 152, cn_addr = ipv4 p 184\<rparr>] else [])"

definition ev_exec :: "bytes \<Rightarrow> pystr list" where
  "ev_exec p = (if p_kind p = 2 then [cstr p 104 256] else [])"

definition short_seq :: "xconf \<Rightarrow> int list \<Rightarrow> bool" where
  "short_seq c q \<longleftrightarrow> q = [] \<or> int (length q) < c_min_len c"

lemmas x_state_defs = x_record_def x_reset_def x_forget_def x_note_def x_init_def Let_def

interpretation calls: window_field c f "\<lambda>s. dlist (x_sysq s)" seq_of "ev_call f" "short_seq c" for c f
  by unfold_locales (auto simp: x_state_defs seq_of_def ev_call_def short_seq_def dict_simps
      split: prod.splits option.splits)

interpretation opens: window_field c f "\<lambda>s. dlist (x_files s)" r_files ev_open "\<lambda>_. True" for c f
  by unfold_locales (auto simp: x_state_defs ev_open_def dict_simps split: prod.splits option.splits)

interpretation conns: window_field c f "\<lambda>s. dlist (x_nets s)" r_net ev_conn "\<lambda>_. True" for c f
  by unfold_locales (auto simp: x_state_defs ev_conn_def dict_simps split: prod.splits option.splits)

interpretation execs: window_field c f "\<lambda>s. dlist (x_execs s)" r_execs ev_exec "\<lambda>_. True" for c f
  by unfold_locales (auto simp: x_state_defs ev_exec_def dict_simps split: prod.splits option.splits)

end
