(* ===== verification/Extract_Claims.thy ===== *)
theory Extract_Claims
  imports Extract_Lemmas
begin

section \<open>Properties of the extractor\<close>

declare split_paired_All [simp del] split_paired_Ex [simp del]

subsection \<open>The run over a stream\<close>

lemma x_handle_ok: "x_accepts p \<Longrightarrow> snd (x_handle c f rnd s p n) = Inr ()"
  by (simp add: x_handle_note Let_def)

definition x_run :: "xconf \<Rightarrow> (int \<Rightarrow> int option) \<Rightarrow> (nat \<Rightarrow> nat \<Rightarrow> nat) \<Rightarrow> bytes list \<Rightarrow> xstate" where
  "x_run c f rnd ps = fst (run_payloads (x_handle c f rnd) x_init ps)"

definition x_stream :: "bytes list \<Rightarrow> bool" where
  "x_stream ps \<longleftrightarrow> (\<forall>p \<in> set ps. x_accepts p \<and> fits 4 (int (length p)))"

lemma x_stream_accepts: "x_stream ps \<Longrightarrow> \<forall>p \<in> set ps. x_accepts p"
  by (simp add: x_stream_def)

lemma extract_stream:
  assumes "x_stream ps" and "concat cs = concat (map frame_bytes ps)"
  shows "extract_main c f rnd cs =
    (let s = x_finish c rnd (x_run c f rnd ps) in (Some (x_lines c s), x_exit c s))"
proof -
  from assms(1) have "\<forall>p \<in> set ps. x_accepts p \<and> fits 4 (int (length p))"
    by (simp add: x_stream_def)
  from xr.feed_frames [OF assms(2) this] obtain s' r e where f:
    "feed x_check (x_handle c f rnd) x_init [] cs = (s', r, e)"
    "run_payloads (x_handle c f rnd) x_init ps = (s', e)" by blast
  moreover from f(2) run_payloads_ok [of ps x_accepts "x_handle c f rnd" x_init] x_handle_ok
    x_stream_accepts [OF assms(1)] have "e = None" by (metis snd_conv)
  ultimately show ?thesis by (simp add: extract_main_def x_run_def Let_def)
qed

text \<open>A last frame that is cut is not seen.\<close>

lemma extract_cut:
  assumes "x_stream (ps @ [q])" and "concat cs @ y = concat (map frame_bytes (ps @ [q]))"
    and "y \<noteq> []" and "length y < length (frame_bytes q)"
  shows "extract_main c f rnd cs =
    (let s = x_finish c rnd (x_run c f rnd ps) in (Some (x_lines c s), x_exit c s))"
proof -
  from assms(1) have g: "\<forall>p \<in> set (ps @ [q]). x_accepts p \<and> fits 4 (int (length p))"
    and ps: "x_stream ps" by (simp_all add: x_stream_def)
  from xr.feed_truncated [OF assms(2) g assms(3,4)] obtain s' r e where f:
    "feed x_check (x_handle c f rnd) x_init [] cs = (s', r, e)"
    "run_payloads (x_handle c f rnd) x_init ps = (s', e)" by blast
  moreover from f(2) run_payloads_ok [of ps x_accepts "x_handle c f rnd" x_init] x_handle_ok
    x_stream_accepts [OF ps] have "e = None" by (metis snd_conv)
  ultimately show ?thesis by (simp add: extract_main_def x_run_def Let_def)
qed

subsection \<open>The invariant of the records\<close>

fun calls_size :: "calls \<Rightarrow> nat" where
  "calls_size (Syscalls q) = length q"
| "calls_size (Stats n _) = n"

definition x_bound :: "xconf \<Rightarrow> int" where
  "x_bound c = max 1 (max (c_window c) (c_min_len c))"

definition rec_good :: "xconf \<Rightarrow> xrec \<Rightarrow> bool" where
  "rec_good c r \<longleftrightarrow> x_label c (r_key r) = Some (r_label r, r_technique r)
     \<and> c_min_len c \<le> int (calls_size (r_calls r)) \<and> int (calls_size (r_calls r)) \<le> x_bound c"

definition kept :: "xstate \<Rightarrow> xrec set" where
  "kept s = set (x_out s) \<union> (\<Union>u. set (dlist (x_strata s) u)) \<union> set (x_reservoir s)"

lemma keep_sample_set: "set (fst (keep_sample rnd cap d b r res)) \<subseteq> insert r (set res)"
  using set_update_subset_insert [of res "rnd d b" r]
  by (auto simp: keep_sample_def Let_def)

lemma kept_emit: "kept (x_emit c rnd lab tech r s) \<subseteq> insert r (kept s)"
proof -
  obtain res1 d1 where k1: "keep_sample rnd (c_max_per_unit c) (x_draws s)
      ((case map_of (x_seen s) (lab, tech) of None \<Rightarrow> 0 | Some n \<Rightarrow> n) + 1) r
      (dlist (x_strata s) (lab, tech)) = (res1, d1)" by fastforce
  obtain res2 d2 where k2: "keep_sample rnd (c_max_records c) (x_draws s) (x_written s + 1) r
      (x_reservoir s) = (res2, d2)" by fastforce
  have "set res1 \<subseteq> insert r (set (dlist (x_strata s) (lab, tech)))"
    "set res2 \<subseteq> insert r (set (x_reservoir s))"
    using keep_sample_set k1 k2 by (metis fst_conv)+
  then show ?thesis
    by (auto simp: x_emit_def Let_def k1 [simplified] k2 [simplified] kept_def dict_simps
        split: if_splits)
qed

lemma kept_reset [simp]: "kept (x_reset k s) = kept s" "kept (x_forget k s) = kept s"
  by (simp_all add: kept_def x_reset_def x_forget_def)

lemma kept_note [simp]: "kept (x_note f p s) = kept s"
  by (simp add: kept_def x_note_def Let_def split: option.splits)

definition x_inv :: "xconf \<Rightarrow> xstate \<Rightarrow> bool" where
  "x_inv c s \<longleftrightarrow> (\<forall>r \<in> kept s. rec_good c r)
     \<and> (\<forall>k. int (length (dlist (x_sysq s) k)) < x_bound c)"

lemma calls_size_record:
  "calls_size (r_calls (x_record c s k lab tech)) = length (dlist (x_sysq s) k)"
  by (simp add: x_record_def Let_def split: prod.splits)

lemma labels_record:
  "r_label (x_record c s k lab tech) = lab" "r_technique (x_record c s k lab tech) = tech"
  by (simp_all add: x_record_def Let_def split: prod.splits)

lemma kept_flush:
  assumes "\<forall>r \<in> kept s. rec_good c r" and "int (length (dlist (x_sysq s) k)) \<le> x_bound c"
  shows "\<forall>r \<in> kept (x_flush c rnd k force s). rec_good c r"
proof (cases "int (length (dlist (x_sysq s) k)) < c_min_len c \<or> x_label c k = None")
  case True
  with assms(1) show ?thesis by (auto simp: x_flush_def)
next
  case False
  then obtain lab tech where l: "x_label c k = Some (lab, tech)" by auto
  with False assms(2) have "rec_good c (x_record c s k lab tech)"
    by (simp add: rec_good_def calls_size_record labels_record)
  with assms(1) kept_emit [of c rnd lab tech "x_record c s k lab tech" s] show ?thesis
    using False l by (auto simp: x_flush_def)
qed

lemma sysq_reset: "dlist (x_sysq (x_reset k s)) k' = (if k' = k then [] else dlist (x_sysq s) k')"
  "dlist (x_sysq (x_forget k s)) k' = (if k' = k then [] else dlist (x_sysq s) k')"
  by (simp_all add: x_reset_def x_forget_def dict_simps)

lemma sysq_flush:
  "dlist (x_sysq (x_flush c rnd k force s)) k' =
    (if k' = k \<and> (force \<or> c_min_len c \<le> int (length (dlist (x_sysq s) k))) then []
     else dlist (x_sysq s) k')"
  by (auto simp: x_flush_def sysq_reset split: option.splits)

lemma x_inv_flush:
  assumes "x_inv c s"
  shows "x_inv c (x_flush c rnd k force s)"
proof -
  from assms have "int (length (dlist (x_sysq s) k)) \<le> x_bound c"
    and kept: "\<forall>r \<in> kept s. rec_good c r" by (auto simp: x_inv_def less_imp_le)
  from kept_flush [OF kept this(1)] assms show ?thesis
    by (auto simp: x_inv_def sysq_flush x_bound_def)
qed

lemma x_inv_handle:
  assumes "x_inv c s" and "x_accepts p"
  shows "x_inv c (fst (x_handle c f rnd s p n))"
proof -
  let ?s = "x_note f p s"
  have noted: "dlist (x_sysq ?s) k = dlist (x_sysq s) k @ (if p_key p = k then ev_call f p else [])" for k
    by (rule calls.pend_note)
  have one: "length (ev_call f p) \<le> 1" by (simp add: ev_call_def split: option.splits)
  have lt: "int (length (dlist (x_sysq s) k)) < x_bound c" for k using assms(1) by (simp add: x_inv_def)
  have len: "int (length (dlist (x_sysq ?s) (p_key p))) \<le> x_bound c"
    using lt [of "p_key p"] one by (simp add: noted)
  have kept: "\<forall>r \<in> kept ?s. rec_good c r" using assms(1) by (simp add: x_inv_def)
  show ?thesis
  proof (cases "x_full c f p ?s")
    case True
    have "int (length (dlist (x_sysq (x_flush c rnd (p_key p) False ?s)) k)) < x_bound c" for k
      using lt [of k] by (auto simp: sysq_flush noted x_bound_def)
    with kept_flush [OF kept len] True show ?thesis
      by (simp add: x_handle_note [OF assms(2)] Let_def x_inv_def)
  next
    case False
    have "int (length (dlist (x_sysq ?s) k)) < x_bound c" for k
      using lt [of k] False
      by (auto simp: noted x_full_def ev_call_def x_bound_def split: option.splits)
    with kept False show ?thesis by (simp add: x_handle_note [OF assms(2)] Let_def x_inv_def)
  qed
qed

lemma x_inv_run:
  assumes "x_stream ps"
  shows "x_inv c (x_finish c rnd (x_run c f rnd ps))"
proof -
  have "x_inv c x_init"
    by (simp add: x_inv_def kept_def x_init_def x_bound_def)
  then have "x_inv c (x_run c f rnd ps)"
    unfolding x_run_def
    by (rule run_payloads_inv [where acc = x_accepts])
      (simp_all add: x_stream_accepts [OF assms] x_inv_handle)
  moreover have "x_inv c (fold (\<lambda>k. x_flush c rnd k True) ks s)" if "x_inv c s" for ks s
    using that by (induction ks arbitrary: s) (simp_all add: x_inv_flush)
  ultimately show ?thesis by (simp add: x_finish_def)
qed

lemma lines_kept: "set (x_lines c s) \<subseteq> kept s"
  by (auto simp: x_lines_def kept_def)

subsection \<open>A sample capture\<close>

text \<open>A system call of the process with identifier 7 and start 5; a health report.\<close>

definition sample_head :: "int \<Rightarrow> header" where
  "sample_head kind = \<lparr>h_ts = 1, h_cgroup = 0, h_start = 5, h_pid = 7, h_tgid = 7, h_npid = 7,
     h_ntgid = 7, h_ppid = 1, h_uid = 0, h_gid = 0, h_cpu = 0, h_result = 0, h_size = 0, h_flags = 0,
     h_schema = 1, h_kind = kind, h_comm = replicate 16 0\<rparr>"

definition sample_call :: "int \<Rightarrow> bytes" where
  "sample_call nr = header_bytes (sample_head 4) @ to_le 4 nr"

definition sample_report :: "int \<Rightarrow> bytes" where
  "sample_report lost = header_bytes (sample_head 14) @ to_le 8 lost @ replicate 32 0"

definition sample_xconf :: xconf where
  "sample_xconf = \<lparr>c_window = 2, c_min_len = 1, c_label = ucode ''normal'', c_technique = [],
     c_session = [], c_ignore_loss = False, c_max_records = 0, c_max_per_unit = 0, c_slim = False,
     c_timeline = []\<rparr>"

definition sample_calls3 :: "bytes list" where
  "sample_calls3 = [sample_call 0, sample_call 1, sample_call 2]"

lemma sample_calls3_stream: "x_stream sample_calls3"
  by code_simp

lemma sample_full: "full_stream sample_xconf" "x_label sample_xconf k = Some (ucode ''normal'', [])"
  by (simp_all add: full_stream_def sample_xconf_def x_label_def)

end
