(* ===== verification/Extract_Sampling.thy ===== *)
theory Extract_Sampling
  imports Extract_Claims "HOL-Library.Multiset"
begin

section \<open>Sampling per unit against the unsampled run\<close>

text \<open>
  With \<open>--max-per-unit\<close> the extractor keeps a reservoir per unit.  Its specification is the run
  without a limit: both runs see the same windows, and the relation \<open>sampled\<close> between their states
  is kept by every step.
\<close>

definition unsampled :: "xconf \<Rightarrow> xconf" where
  "unsampled c = c\<lparr>c_max_per_unit := 0, c_max_records := 0\<rparr>"

definition unit_of :: "xrec \<Rightarrow> pystr \<times> pystr" where
  "unit_of r = (r_label r, r_technique r)"

definition of_unit :: "pystr \<times> pystr \<Rightarrow> xrec list \<Rightarrow> xrec list" where
  "of_unit u rs = filter (\<lambda>r. unit_of r = u) rs"

definition same_pending :: "xstate \<Rightarrow> xstate \<Rightarrow> bool" where
  "same_pending s t \<longleftrightarrow> x_sysq s = x_sysq t \<and> x_files s = x_files t \<and> x_nets s = x_nets t
     \<and> x_execs s = x_execs t \<and> x_meta s = x_meta t \<and> x_written s = x_written t
     \<and> x_health s = x_health t"

definition stratified :: "xconf \<Rightarrow> (pystr \<times> pystr, xrec list) pydict \<Rightarrow> xrec list \<Rightarrow> bool" where
  "stratified c d rs \<longleftrightarrow> dict_ok d \<and> (\<forall>u. mset (dlist d u) \<subseteq># mset (of_unit u rs)
     \<and> int (length (dlist d u)) = min (c_max_per_unit c) (int (length (of_unit u rs))))"

definition sampled :: "xconf \<Rightarrow> xstate \<Rightarrow> xstate \<Rightarrow> bool" where
  "sampled c s t \<longleftrightarrow> same_pending s t \<and> stratified c (x_strata s) (x_out t)"

definition per_unit :: "xconf \<Rightarrow> bool" where
  "per_unit c \<longleftrightarrow> \<not> c_slim c \<and> 0 < c_max_per_unit c"

lemma unsampled_simps [simp]: "x_label (unsampled c) k = x_label c k"
  "c_min_len (unsampled c) = c_min_len c" "c_window (unsampled c) = c_window c"
  "c_ignore_loss (unsampled c) = c_ignore_loss c"
  by (simp_all add: unsampled_def x_label_def)

lemma full_stream_unsampled: "per_unit c \<Longrightarrow> full_stream (unsampled c)"
  by (simp add: unsampled_def full_stream_def per_unit_def)

lemma x_record_same: "same_pending s t \<Longrightarrow> x_record (unsampled c) t k l h = x_record c s k l h"
  by (simp add: x_record_def same_pending_def unsampled_def)

declare split_paired_All [simp del] split_paired_Ex [simp del]

subsection \<open>One sample\<close>

lemma mset_update_le:
  assumes "mset xs \<subseteq># M" and "j < length xs"
  shows "mset (xs[j := x]) \<subseteq># add_mset x M"
proof -
  have "mset (xs[j := x]) = add_mset x (mset xs - {#xs ! j#})"
    using assms(2) by (rule mset_update)
  moreover have "mset xs - {#xs ! j#} \<subseteq># M"
    using assms(1) by (meson diff_subset_eq_self subset_mset.order_trans)
  ultimately show ?thesis by simp
qed

lemma keep_sample_spec:
  assumes "keep_sample rnd cap d b r res = (res', d')" and "0 < cap"
    and "mset res \<subseteq># mset w" and "int (length res) = min cap (int (length w))"
  shows "mset res' \<subseteq># mset (w @ [r])" "int (length res') = min cap (int (length (w @ [r])))"
proof -
  consider (room) "int (length res) < cap" "res' = res @ [r]"
    | (swap) "int (length res) = cap" "int (rnd d b) < cap" "res' = res[rnd d b := r]"
    | (keep) "int (length res) = cap" "res' = res"
    using assms(1,4) by (fastforce simp: keep_sample_def Let_def split: if_splits)
  note cases = this
  from cases show "mset res' \<subseteq># mset (w @ [r])"
  proof cases
    case swap
    with mset_update_le [OF assms(3), of "rnd d b" r] show ?thesis by simp
  next
    case keep
    with assms(3) show ?thesis
      by (metis mset_append mset_subset_eq_add_left subset_mset.order_trans)
  qed (use assms(3) in simp)
  from cases assms(4) show "int (length res') = min cap (int (length (w @ [r])))"
    by cases auto
qed

subsection \<open>The simulation\<close>

lemma stratified_emit:
  assumes "per_unit c" and "stratified c d rs" and "unit_of r = u"
    and "keep_sample rnd (c_max_per_unit c) n b r (dlist d u) = (res', n')"
  shows "stratified c (dset u res' d) (rs @ [r])"
proof -
  have cap: "0 < c_max_per_unit c" using assms(1) by (simp add: per_unit_def)
  from assms(2) have "mset (dlist d u) \<subseteq># mset (of_unit u rs)"
    "int (length (dlist d u)) = min (c_max_per_unit c) (int (length (of_unit u rs)))"
    by (simp_all add: stratified_def)
  note new = keep_sample_spec [OF assms(4) cap this]
  have "of_unit v (rs @ [r]) = (if v = u then of_unit u rs @ [r] else of_unit v rs)" for v
    using assms(3) by (auto simp: of_unit_def)
  with new assms(2) show ?thesis by (simp add: stratified_def dlist_dset)
qed

lemma sampled_emit:
  assumes "per_unit c" and "sampled c s t" and "unit_of r = (lab, tech)"
  shows "sampled c (x_emit c rnd lab tech r s) (x_emit (unsampled c) rnd lab tech r t)"
proof -
  obtain res' n' where k: "keep_sample rnd (c_max_per_unit c) (x_draws s)
      (Suc (case map_of (x_seen s) (lab, tech) of None \<Rightarrow> 0 | Some n \<Rightarrow> n)) r
      (dlist (x_strata s) (lab, tech)) = (res', n')" by fastforce
  have "stratified c (x_strata s) (x_out t)" using assms(2) by (simp add: sampled_def)
  from stratified_emit [OF assms(1) this assms(3) k]
  have "stratified c (x_strata (x_emit c rnd lab tech r s)) (x_out t @ [r])"
    using assms(1) k by (simp add: x_emit_def per_unit_def Let_def)
  moreover have "x_out (x_emit (unsampled c) rnd lab tech r t) = x_out t @ [r]"
    by (rule x_emit_full [OF full_stream_unsampled [OF assms(1)]])
  moreover have "same_pending (x_emit c rnd lab tech r s) (x_emit (unsampled c) rnd lab tech r t)"
    using assms(2) by (simp add: sampled_def same_pending_def)
  ultimately show ?thesis by (simp add: sampled_def)
qed

lemma sampled_reset:
  "sampled c s t \<Longrightarrow> sampled c (x_reset k s) (x_reset k t)"
  "sampled c s t \<Longrightarrow> sampled c (x_forget k s) (x_forget k t)"
  by (simp_all add: sampled_def same_pending_def x_reset_def x_forget_def)

lemma sampled_note: "sampled c s t \<Longrightarrow> sampled c (x_note f p s) (x_note f p t)"
  by (simp add: sampled_def same_pending_def x_note_def Let_def split: option.splits)

lemma sampled_flush:
  assumes "per_unit c" and "sampled c s t"
  shows "sampled c (x_flush c rnd k force s) (x_flush (unsampled c) rnd k force t)"
proof -
  have sp: "same_pending s t" using assms(2) by (simp add: sampled_def)
  then have q: "x_sysq t = x_sysq s" by (simp add: same_pending_def)
  show ?thesis
  proof (cases "int (length (dlist (x_sysq s) k)) < c_min_len c \<or> x_label c k = None")
    case True
    with assms(2) q show ?thesis by (auto simp: x_flush_def sampled_reset)
  next
    case False
    then obtain lab tech where l: "x_label c k = Some (lab, tech)" by auto
    have "unit_of (x_record c s k lab tech) = (lab, tech)" by (simp add: unit_of_def labels_record)
    from sampled_reset(1) [OF sampled_emit [OF assms this]] False l q show ?thesis
      by (simp add: x_flush_def x_record_same [OF sp])
  qed
qed

lemma sampled_handle:
  assumes "per_unit c" and "sampled c s t" and "x_accepts p"
  shows "sampled c (fst (x_handle c f rnd s p n)) (fst (x_handle (unsampled c) f rnd t p n))"
proof -
  note st = sampled_note [OF assms(2), of f p]
  then have "x_full (unsampled c) f p (x_note f p t) = x_full c f p (x_note f p s)"
    by (simp add: x_full_def sampled_def same_pending_def)
  with st sampled_flush [OF assms(1) st] show ?thesis
    by (simp add: x_handle_note [OF assms(3)] Let_def)
qed

lemma sampled_run:
  assumes "per_unit c" and "x_stream ps"
  shows "sampled c (x_finish c rnd (x_run c f rnd ps))
    (x_finish (unsampled c) rnd (x_run (unsampled c) f rnd ps))"
proof -
  have run: "sampled c (fst (run_payloads (x_handle c f rnd) s ps))
      (fst (run_payloads (x_handle (unsampled c) f rnd) t ps))"
    if "sampled c s t" "\<forall>p \<in> set ps. x_accepts p" for s t
    using that
  proof (induction ps arbitrary: s t)
    case (Cons p ps)
    then have p: "x_accepts p" by simp
    obtain s1 t1 where h: "x_handle c f rnd s p (length p) = (s1, Inr ())"
      "x_handle (unsampled c) f rnd t p (length p) = (t1, Inr ())"
      using x_handle_note [OF p] by (simp add: Let_def)
    with Cons sampled_handle [OF assms(1) Cons.prems(1) p, of f rnd "length p"] show ?case by simp
  qed simp
  have fin: "sampled c (fold (\<lambda>k. x_flush c rnd k True) ks s)
      (fold (\<lambda>k. x_flush (unsampled c) rnd k True) ks t)" if "sampled c s t" for ks s t
    using that by (induction ks arbitrary: s t) (simp_all add: sampled_flush [OF assms(1)])
  have "sampled c x_init x_init" using assms(1)
    by (simp add: sampled_def same_pending_def stratified_def x_init_def of_unit_def per_unit_def)
  from run [OF this x_stream_accepts [OF assms(2)]]
  have "sampled c (x_run c f rnd ps) (x_run (unsampled c) f rnd ps)" by (simp add: x_run_def)
  with fin [OF this] show ?thesis
    by (simp add: x_finish_def sampled_def same_pending_def)
qed

subsection \<open>The output by strata\<close>

lemma of_unit_concat:
  assumes "\<And>v. set (dlist d v) \<subseteq> {r. unit_of r = v}" and "distinct ks"
  shows "of_unit u (concat (map (dlist d) ks)) = (if u \<in> set ks then dlist d u else [])"
  using assms(2)
proof (induction ks)
  case (Cons k ks)
  have "of_unit u (dlist d k) = (if k = u then dlist d u else [])"
    using assms(1) [of k] by (auto simp: of_unit_def filter_empty_conv intro: filter_True)
  with Cons show ?case by (auto simp: of_unit_def)
qed (simp add: of_unit_def)

lemma mset_of_units:
  assumes "\<And>u. mset (of_unit u rs) \<subseteq># mset (of_unit u ts)"
  shows "mset rs \<subseteq># mset ts"
proof (rule mset_subset_eqI)
  fix r
  have "count (mset xs) r = count (mset (of_unit (unit_of r) xs)) r" for xs
    by (induction xs) (auto simp: of_unit_def)
  with mset_subset_eq_count [OF assms, of "unit_of r" r] show "count (mset rs) r \<le> count (mset ts) r"
    by simp
qed

lemma strata_output:
  assumes "stratified c d ts" and "rs = concat (map (dlist d) (sort (dkeys d)))"
  shows "mset rs \<subseteq># mset ts"
    and "int (length (of_unit u rs)) = min (c_max_per_unit c) (int (length (of_unit u ts)))"
    and "sorted (map unit_of rs)"
proof -
  have unit: "set (dlist d v) \<subseteq> {r. unit_of r = v}" for v
  proof -
    have "set (dlist d v) \<subseteq> set (of_unit v ts)"
      using assms(1) by (metis set_mset_mono set_mset_mset stratified_def)
    then show ?thesis by (auto simp: of_unit_def)
  qed
  have "distinct (sort (dkeys d))" using assms(1) by (simp add: stratified_def dict_ok_def)
  from of_unit_concat [OF unit this] have out: "of_unit v rs = dlist d v" for v
    by (auto simp: assms(2) dlist_absent)
  with assms(1) show "mset rs \<subseteq># mset ts"
    "int (length (of_unit u rs)) = min (c_max_per_unit c) (int (length (of_unit u ts)))"
    by (auto intro: mset_of_units simp: stratified_def)
  have "sorted ks \<Longrightarrow> sorted (map unit_of (concat (map (dlist d) ks)))" for ks
  proof (induction ks)
    case (Cons k ks)
    have "map unit_of (dlist d k) = replicate (length (dlist d k)) k"
      using unit [of k] by (auto simp: map_replicate_const [symmetric] intro!: map_cong)
    moreover have "k \<le> unit_of x" if "v \<in> set ks" "x \<in> set (dlist d v)" for v x
      using unit [of v] Cons.prems that by auto
    ultimately show ?case using Cons by (auto simp: sorted_append simp del: split_paired_Ex)
  qed simp
  then show "sorted (map unit_of rs)" by (simp add: assms(2))
qed

subsection \<open>Claims\<close>

text \<open>
  C17. Sampling is fair and honest: with a limit per unit, the output holds for every unit exactly as
  many records as the unsampled run, capped at the limit; every record is one of the unsampled run,
  none is kept twice; the units come in sorted order; and both runs end the same way.
\<close>

theorem sampling_refines:
  assumes "x_stream ps" and "concat cs = concat (map frame_bytes ps)"
    and "\<not> c_slim c" and "0 < c_max_per_unit c"
    and "extract_main c f rnd cs = (Some rs, e)"
    and "extract_main (unsampled c) f rnd cs = (Some ts, e')"
  shows "mset rs \<subseteq># mset ts \<and> e = e' \<and> sorted (map unit_of rs)
    \<and> (\<forall>u. int (length (of_unit u rs)) = min (c_max_per_unit c) (int (length (of_unit u ts))))"
proof -
  let ?s = "x_finish c rnd (x_run c f rnd ps)"
  let ?t = "x_finish (unsampled c) rnd (x_run (unsampled c) f rnd ps)"
  have pu: "per_unit c" using assms(3,4) by (simp add: per_unit_def)
  from sampled_run [OF pu assms(1)] have sim: "sampled c ?s ?t" .
  have rs: "rs = concat (map (dlist (x_strata ?s)) (sort (dkeys (x_strata ?s))))" "e = x_exit c ?s"
    using assms(5) pu by (simp_all add: extract_stream [OF assms(1,2)] Let_def x_lines_def per_unit_def)
  have ts: "ts = x_out ?t" "e' = x_exit (unsampled c) ?t"
    using assms(6) full_stream_unsampled [OF pu]
    by (simp_all add: extract_stream [OF assms(1,2)] Let_def x_lines_def full_stream_def)
  have "stratified c (x_strata ?s) ts" using sim ts by (simp add: sampled_def)
  note out = strata_output [OF this rs(1)]
  have "e = e'" using sim rs(2) ts(2)
    by (simp add: sampled_def same_pending_def x_exit_def x_lost_def)
  with out show ?thesis by blast
qed

definition sample_limited :: xconf where
  "sample_limited = sample_xconf\<lparr>c_window := 1, c_max_per_unit := 1\<rparr>"

theorem sampling_refines_witness:
  "\<exists>rs ts e. extract_main sample_limited Some (\<lambda>_ _. 0) [concat (map frame_bytes sample_calls3)] = (Some rs, e)
    \<and> length ts = 3 \<and> mset rs \<subseteq># mset ts \<and> length (of_unit (ucode ''normal'', []) rs) = 1"
proof -
  let ?cs = "[concat (map frame_bytes sample_calls3)]" and ?rnd = "\<lambda>_ _. 0 :: nat"
  let ?u = "(ucode ''normal'', [])"
  have "fst (extract_main sample_limited Some ?rnd ?cs) \<noteq> None" by code_simp
  then obtain rs e where m: "extract_main sample_limited Some ?rnd ?cs = (Some rs, e)"
    by (metis not_None_eq prod.collapse)
  have "case fst (extract_main (unsampled sample_limited) Some ?rnd ?cs) of None \<Rightarrow> False
      | Some ts \<Rightarrow> length ts = 3 \<and> length (of_unit ?u ts) = 3" by code_simp
  then obtain ts e' where t: "extract_main (unsampled sample_limited) Some ?rnd ?cs = (Some ts, e')"
    "length ts = 3" "length (of_unit ?u ts) = 3"
    by (cases "extract_main (unsampled sample_limited) Some ?rnd ?cs") (auto split: option.splits)
  have l: "\<not> c_slim sample_limited" "0 < c_max_per_unit sample_limited" "c_max_per_unit sample_limited = 1"
    by (simp_all add: sample_limited_def sample_xconf_def)
  from sampling_refines [OF sample_calls3_stream _ l(1,2) m t(1)]
  have r: "mset rs \<subseteq># mset ts" "int (length (of_unit ?u rs)) = min 1 (int (length (of_unit ?u ts)))"
    unfolding l(3) by auto
  with t(3) have "length (of_unit ?u rs) = 1" by simp
  with m t(2) r(1) show ?thesis by blast
qed

end
