(* ===== verification/Extract_Properties.thy ===== *)
theory Extract_Properties
  imports Extract_Sampling
begin

section \<open>What the extractor guarantees\<close>

declare split_paired_All [simp del] split_paired_Ex [simp del]

subsection \<open>Conservation\<close>



lemma init_recs [simp]: "x_out x_init = []"
  by (simp add: x_init_def)



subsection \<open>Bounds and labels\<close>

text \<open>
  C18. Whatever the mode, every record of the output stands for at least \<open>--min-len\<close> system calls and
  at most the larger of \<open>--window\<close> and \<open>--min-len\<close> (at least one), and carries the label and the
  technique of the span in which its process started, or the given ones without a timeline.
\<close>

theorem window_bounds:
  assumes "x_stream ps" and "concat cs = concat (map frame_bytes ps)"
    and "extract_main c f rnd cs = (Some rs, e)" and "r \<in> set rs"
  shows "c_min_len c \<le> int (calls_size (r_calls r))
    \<and> int (calls_size (r_calls r)) \<le> max 1 (max (c_window c) (c_min_len c))
    \<and> x_label c (r_key r) = Some (r_label r, r_technique r)"
proof -
  let ?s = "x_finish c rnd (x_run c f rnd ps)"
  from assms(3) have "rs = x_lines c ?s" by (simp add: extract_stream [OF assms(1,2)] Let_def)
  with assms(4) lines_kept [of c ?s] x_inv_run [OF assms(1), of c rnd f] show ?thesis
    by (auto simp: x_inv_def rec_good_def x_bound_def)
qed

theorem window_bounds_witness:
  "\<exists>r rs e. extract_main sample_xconf Some (\<lambda>_ _. 0) [concat (map frame_bytes sample_calls3)] = (Some rs, e)
    \<and> r \<in> set rs \<and> 1 \<le> calls_size (r_calls r) \<and> calls_size (r_calls r) \<le> 2"
proof -
  let ?m = "extract_main sample_xconf Some (\<lambda>_ _. 0) [concat (map frame_bytes sample_calls3)]"
  have "\<not> (case fst ?m of None \<Rightarrow> True | Some rs \<Rightarrow> rs = [])" by code_simp
  then obtain rs where rs: "fst ?m = Some rs" "rs \<noteq> []" by (auto split: option.splits)
  define r where "r = hd rs"
  have m: "?m = (Some rs, snd ?m)" "r \<in> set rs" using rs by (simp_all add: r_def prod_eq_iff)
  from window_bounds [OF sample_calls3_stream _ m] have "1 \<le> calls_size (r_calls r)
      \<and> calls_size (r_calls r) \<le> 2"
    by (simp add: sample_xconf_def)
  with m show ?thesis by blast
qed

lemma bisect_right_props:
  assumes "sorted xs" and "j < length xs"
  shows "xs ! j \<le> x \<longleftrightarrow> j < bisect_right xs x"
proof
  assume "j < bisect_right xs x"
  then have j: "j < length (takeWhile (\<lambda>y. y \<le> x) xs)" by (simp add: bisect_right_def)
  from set_takeWhileD [OF nth_mem [OF j]] show "xs ! j \<le> x" by (simp add: takeWhile_nth [OF j])
next
  assume le: "xs ! j \<le> x"
  show "j < bisect_right xs x"
  proof (rule ccontr)
    let ?n = "length (takeWhile (\<lambda>y. y \<le> x) xs)"
    assume "\<not> j < bisect_right xs x"
    then have n: "?n \<le> j" by (simp add: bisect_right_def)
    with assms have "xs ! ?n \<le> xs ! j" by (simp add: sorted_nth_mono)
    moreover have "\<not> xs ! ?n \<le> x" using nth_length_takeWhile [of "\<lambda>y. y \<le> x" xs] n assms(2) by simp
    ultimately show False using le by simp
  qed
qed

lemma bisect_right_le: "bisect_right xs x \<le> length xs"
  by (simp add: bisect_right_def length_takeWhile_le)

lemma sorted_starts: "sorted (spans :: span list) \<Longrightarrow> sorted (map fst spans)"
  by (induction spans) (auto simp: less_eq_prod_def)

text \<open>
  C19. The label of a start is that of the span that covers it: when the spans of a timeline are proper
  and do not overlap, a start has a label exactly when it lies in a span, ends included, and then it
  is the class of that span with its unit, without the prefix \<open>t_\<close> for an attack.
\<close>

theorem label_of_span:
  assumes "read_spans text = Inr spans"
    and proper: "\<And>a e cls unit. (a, e, cls, unit) \<in> set spans \<Longrightarrow> a \<le> e"
    and apart: "\<And>a e x a' e' y. (a, e, x) \<in> set spans \<Longrightarrow> (a', e', y) \<in> set spans \<Longrightarrow>
      (a, e, x) \<noteq> (a', e', y) \<Longrightarrow> e < a' \<or> e' < a"
  shows "label_of spans ts = Some (cls, name) \<longleftrightarrow>
    (\<exists>a e unit. (a, e, cls, unit) \<in> set spans \<and> a \<le> ts \<and> ts \<le> e \<and> name = unit_name cls unit)"
proof -
  from assms(1) have st: "sorted (map fst spans)"
    by (auto simp: read_spans_def bind_res_Inr intro: sorted_starts)
  let ?i = "bisect_right (map fst spans) ts"
  have i: "?i \<le> length spans" using bisect_right_le [of "map fst spans" ts] by simp
  have before: "fst (spans ! j) \<le> ts \<longleftrightarrow> j < ?i" if "j < length spans" for j
    using bisect_right_props [OF st, of j ts] that by simp
  have chosen: "spans ! (?i - 1) = (a, e, x)"
    if s: "(a, e, x) \<in> set spans" "a \<le> ts" "ts \<le> e" for a e x
  proof (rule ccontr)
    assume ne: "spans ! (?i - 1) \<noteq> (a, e, x)"
    from s(1) obtain j where j: "j < length spans" "spans ! j = (a, e, x)" by (auto simp: in_set_conv_nth)
    with before [OF j(1)] s(2) have "j < ?i" by simp
    then have l: "?i - 1 < length spans" "j \<le> ?i - 1" using i by simp_all
    obtain a' e' y where c: "spans ! (?i - 1) = (a', e', y)" by (metis prod_cases3)
    with l have c': "(a', e', y) \<in> set spans" by (metis nth_mem)
    have "a' \<le> ts" using before [OF l(1)] c \<open>j < ?i\<close> by simp
    moreover have "a \<le> a'" using sorted_nth_mono [OF st l(2)] l j c by simp
    moreover have "a' \<le> e'" using proper [of a' e' "fst y" "snd y"] c' by simp
    moreover have "e < a' \<or> e' < a" using apart [OF s(1) c'] ne c by auto
    ultimately show False using s(3) by linarith
  qed
  have pos: "?i \<noteq> 0" if "(a, e, x) \<in> set spans" "a \<le> ts" for a e x
  proof -
    from that(1) obtain j where "j < length spans" "spans ! j = (a, e, x)" by (auto simp: in_set_conv_nth)
    with before [of j] that(2) show ?thesis by simp
  qed
  show ?thesis
  proof
    assume l: "label_of spans ts = Some (cls, name)"
    then obtain a e unit where c: "?i \<noteq> 0" "spans ! (?i - 1) = (a, e, cls, unit)" "ts \<le> e"
      "name = unit_name cls unit"
      by (auto simp: label_of_def Let_def split: if_splits prod.splits)
    moreover from c(1) i have "?i - 1 < length spans" by simp
    ultimately show "\<exists>a e unit. (a, e, cls, unit) \<in> set spans \<and> a \<le> ts \<and> ts \<le> e
        \<and> name = unit_name cls unit"
      using before [of "?i - 1"] by (metis diff_less fst_conv less_one nth_mem gr0I)
  next
    assume "\<exists>a e unit. (a, e, cls, unit) \<in> set spans \<and> a \<le> ts \<and> ts \<le> e \<and> name = unit_name cls unit"
    then obtain a e unit where s: "(a, e, cls, unit) \<in> set spans" "a \<le> ts" "ts \<le> e"
      "name = unit_name cls unit" by blast
    with chosen [OF s(1-3)] pos [OF s(1,2)] show "label_of spans ts = Some (cls, name)"
      by (simp add: label_of_def Let_def)
  qed
qed

definition sample_timeline :: pystr where
  "sample_timeline = ucode ''20'' @ [9] @ ucode ''30'' @ [9] @ ucode ''attack'' @ [9] @ ucode ''t_scan'' @ [10]
     @ ucode ''1'' @ [9] @ ucode ''10'' @ [9] @ ucode ''normal'' @ [9] @ ucode ''w_ls'' @ [10]"

theorem label_of_span_witness:
  "\<exists>spans. read_spans sample_timeline = Inr spans
     \<and> label_of spans 30 = Some (ucode ''attack'', ucode ''scan'')"
proof -
  let ?spans = "[(1::int, 10::int, ucode ''normal'', ucode ''w_ls''), (20, 30, ucode ''attack'', ucode ''t_scan'')]"
  have r: "read_spans sample_timeline = Inr ?spans" by code_simp
  have iff: "label_of ?spans 30 = Some (ucode ''attack'', ucode ''scan'') \<longleftrightarrow>
      (\<exists>a e unit. (a, e, ucode ''attack'', unit) \<in> set ?spans \<and> a \<le> 30 \<and> 30 \<le> e
        \<and> ucode ''scan'' = unit_name (ucode ''attack'') unit)"
    by (rule label_of_span [OF r]) auto
  have "ucode ''scan'' = unit_name (ucode ''attack'') (ucode ''t_scan'')" by code_simp
  then have "label_of ?spans 30 = Some (ucode ''attack'', ucode ''scan'')"
    unfolding iff by (intro exI [of _ 20] exI [of _ 30] exI [of _ "ucode ''t_scan''"]) simp
  with r show ?thesis by blast
qed

subsection \<open>How the program ends\<close>

lemma health_flush [simp]: "x_health (x_flush c rnd k force s) = x_health s"
  by (simp add: x_flush_def x_reset_def x_forget_def split: option.splits prod.splits)

lemma health_note: "x_health (x_note f p s)
    = (if p_kind p = 14 then map (rd 8 p) [88, 96, 104, 112, 120] else x_health s)"
  by (simp add: x_note_def Let_def split: option.splits)

lemma health_finish [simp]: "x_health (x_finish c rnd s) = x_health s"
proof -
  have "x_health (fold (\<lambda>k. x_flush c rnd k True) ks s) = x_health s" for ks
    by (induction ks arbitrary: s) simp_all
  then show ?thesis by (simp add: x_finish_def)
qed

text \<open>The counters of the last health report, none without a report.\<close>

definition last_report :: "bytes list \<Rightarrow> int list" where
  "last_report ps = (case filter (\<lambda>p. p_kind p = 14) ps of [] \<Rightarrow> []
     | hs \<Rightarrow> map (rd 8 (last hs)) [88, 96, 104, 112, 120])"

lemma health_run:
  assumes "\<forall>p \<in> set ps. x_accepts p"
  shows "x_health (fst (run_payloads (x_handle c f rnd) s ps)) =
    (if filter (\<lambda>p. p_kind p = 14) ps = [] then x_health s else last_report ps)"
  using assms
proof (induction ps arbitrary: s)
  case (Cons p ps)
  then have p: "x_accepts p" by simp
  obtain s1 where h: "x_handle c f rnd s p (length p) = (s1, Inr ())"
    "x_health s1 = x_health (x_note f p s)"
    using x_handle_note [OF p] by (auto simp: Let_def)
  with Cons show ?case
    by (auto simp: health_note last_report_def split: list.splits)
qed simp

text \<open>
  C20. A capture with lost events is refused: the program ends with status 2 exactly when the last
  health report of the capture counts a dropped or lost event and \<open>--ignore-loss\<close> is not given, and
  otherwise ends well or because no window was made.
\<close>

theorem loss_refused:
  assumes "x_stream ps" and "concat cs = concat (map frame_bytes ps)"
    and "extract_main c f rnd cs = (out, e)"
  shows "(e = Some (SystemExit ''2'')
      \<longleftrightarrow> \<not> c_ignore_loss c \<and> list_ex (\<lambda>v. v \<noteq> 0) (take 3 (last_report ps)))
    \<and> (e = None \<or> e = Some (SystemExit ''2'') \<or> e = Some (SystemExit ''no records''))"
proof -
  have "x_health (x_run c f rnd ps) = last_report ps"
    using health_run [OF x_stream_accepts [OF assms(1)], of c f rnd x_init]
    by (auto simp: x_run_def x_init_def last_report_def)
  with assms(3) show ?thesis
    by (auto simp: extract_stream [OF assms(1,2)] Let_def x_exit_def x_lost_def split: if_splits)
qed

theorem loss_refused_witness:
  "snd (extract_main sample_xconf Some (\<lambda>_ _. 0)
      [concat (map frame_bytes [sample_call 0, sample_report 3])]) = Some (SystemExit ''2'')"
proof -
  let ?ps = "[sample_call 0, sample_report 3]"
  have s: "x_stream ?ps" and l: "list_ex (\<lambda>v. v \<noteq> 0) (take 3 (last_report ?ps))" by code_simp+
  obtain out e where m: "extract_main sample_xconf Some (\<lambda>_ _. 0) [concat (map frame_bytes ?ps)] = (out, e)"
    by fastforce
  from loss_refused [OF s _ m] l have "e = Some (SystemExit ''2'')" by (simp add: sample_xconf_def)
  with m show ?thesis by (simp only: snd_conv)
qed

text \<open>
  C21. A capture that breaks off inside a frame is taken for the capture of the frames before it: the
  output and the exit status are those of the complete capture without its last frame.
\<close>

theorem cut_frame_unnoticed:
  assumes "x_stream (ps @ [q])" and "concat cs @ y = concat (map frame_bytes (ps @ [q]))"
    and "y \<noteq> []" and "length y < length (frame_bytes q)"
  shows "extract_main c f rnd cs = extract_main c f rnd [concat (map frame_bytes ps)]"
proof -
  from assms(1) have "x_stream ps" by (simp add: x_stream_def)
  from extract_stream [OF this, of "[concat (map frame_bytes ps)]"] extract_cut [OF assms]
  show ?thesis by simp
qed

theorem cut_frame_unnoticed_witness:
  "extract_main sample_xconf Some (\<lambda>_ _. 0)
      [frame_bytes (sample_call 0), take 50 (frame_bytes (sample_call 1))]
    = extract_main sample_xconf Some (\<lambda>_ _. 0) [concat (map frame_bytes [sample_call 0])]"
proof (rule cut_frame_unnoticed)
  show "x_stream ([sample_call 0] @ [sample_call 1])" by code_simp
  have len: "length (sample_call 1) = 92" by code_simp
  show "drop 50 (frame_bytes (sample_call 1)) \<noteq> []"
    "length (drop 50 (frame_bytes (sample_call 1))) < length (frame_bytes (sample_call 1))"
    by (simp_all add: len)
qed simp

end
