(* ===== verification/Aggregate.thy ===== *)
theory Aggregate
  imports Extract
begin

unbundle bit_operations_syntax

section \<open>Bucket features: \<open>aggregate.py\<close> and \<open>feature_schema.py\<close>\<close>

text \<open>
  A bucket is the list of the records of a span of time.  \<open>bucket_features\<close> turns it into a vector
  in the order of \<open>FEATURES\<close>.  The floating point numbers are kept symbolic: a feature is a logarithm
  of a count, a quotient of two counts, a count, or the mean of a list.
\<close>

subsection \<open>Features\<close>

datatype feat = Log1p int | Ratio int int | Whole int | Mean "int list"

definition FEATURES :: "string list" where
  "FEATURES = [''n_windows_log'', ''n_procs_log'', ''n_comms_log'', ''n_syscalls_log'',
     ''syscall_diversity'', ''n_files_log'', ''n_uniq_files_log'', ''n_uniq_dirs_log'',
     ''files_per_proc'', ''frac_missing'', ''frac_not_world_readable'', ''frac_other_owner'',
     ''frac_setuid'', ''frac_hidden'', ''frac_write'', ''proc_pid_breadth_log'', ''proc_pid_frac'',
     ''sensitive_dir_breadth'', ''max_path_depth'', ''mean_path_depth'', ''n_net_log'',
     ''n_net_dst_log'', ''n_exec_log'', ''exec_per_proc'', ''n_uniq_syscalls_log'',
     ''frac_dir_etc'', ''frac_dir_proc'', ''frac_dir_usr'', ''frac_dir_dev'', ''frac_dir_tmp'',
     ''frac_dir_other'']"

definition DIR_FRACS :: "pystr list" where
  "DIR_FRACS = map ucode [''/etc/'', ''/proc/'', ''/usr/'', ''/dev/'', ''/tmp/'']"

definition DIRS_SENSITIVE :: "pystr list" where
  "DIRS_SENSITIVE = map ucode [''/etc'', ''/root'', ''/home'', ''/var/spool'']"

text \<open>
  A record as \<open>extract.py\<close> and \<open>detect2.py\<close> produce it, with every field present: full with the list
  of its calls or slim with their statistics.
\<close>

record brec =
  b_tgid :: int
  b_comm :: pystr
  b_uid :: int
  b_calls :: calls
  b_files :: "fopen list"
  b_nets :: "(int \<times> pystr) list"
  b_execs :: "pystr list"

definition of_xrec :: "xrec \<Rightarrow> brec" where
  "of_xrec r = \<lparr>b_tgid = fst (r_key r), b_comm = r_comm r, b_uid = r_uid r, b_calls = r_calls r,
     b_files = r_files r, b_nets = map (\<lambda>n. (cn_port n, cn_addr n)) (r_net r), b_execs = r_execs r\<rparr>"

subsection \<open>Permissions\<close>

text \<open>
  \<open>PermLookup\<close> caches the mode, the owner and the existence of a path.  The file system is a
  parameter: \<open>stat k p\<close> is what the \<open>k\<close>-th call of \<open>os.stat\<close> returns for \<open>p\<close>, none for an \<open>OSError\<close>.
  Paths below \<open>/proc/<pid>\<close> have a fixed value and are never asked for.
\<close>

type_synonym perm = "int \<times> int \<times> bool"

record plookup =
  pl_cache :: "(pystr, perm) pydict"
  pl_calls :: nat

definition pl_init :: plookup where
  "pl_init = \<lparr>pl_cache = [], pl_calls = 0\<rparr>"

definition is_proc_pid :: "pystr \<Rightarrow> bool" where
  "is_proc_pid p = (let parts = split_on 47 p in
     3 \<le> length parts \<and> parts ! 1 = ucode ''proc'' \<and> isdigit_text (parts ! 2))"

definition perm_get :: "(nat \<Rightarrow> pystr \<Rightarrow> (int \<times> int) option) \<Rightarrow> pystr \<Rightarrow> plookup \<Rightarrow> perm \<times> plookup" where
  "perm_get stat p l =
    (case map_of (pl_cache l) p of
       Some v \<Rightarrow> (v, l)
     | None \<Rightarrow>
       (if is_proc_pid p then ((292, 0, True), l\<lparr>pl_cache := dset p (292, 0, True) (pl_cache l)\<rparr>)
        else let v = (case stat (pl_calls l) p of None \<Rightarrow> (0, - 1, False)
              | Some (mode, uid) \<Rightarrow> (mode AND 4095, uid, True))
          in (v, l\<lparr>pl_cache := dset p v (pl_cache l), pl_calls := pl_calls l + 1\<rparr>)))"

subsection \<open>The loop over the files\<close>

record facc =
  fa_paths :: "pystr list"
  fa_dirs :: "pystr list"
  fa_depths :: "int list"
  fa_missing :: int
  fa_notwr :: int
  fa_other :: int
  fa_setuid :: int
  fa_hidden :: int
  fa_writes :: int
  fa_pids :: "pystr list"
  fa_sens :: "pystr list"

definition fa_init :: facc where
  "fa_init = \<lparr>fa_paths = [], fa_dirs = [], fa_depths = [], fa_missing = 0, fa_notwr = 0,
     fa_other = 0, fa_setuid = 0, fa_hidden = 0, fa_writes = 0, fa_pids = [], fa_sens = []\<rparr>"

definition path_parts_of :: "pystr \<Rightarrow> pystr list" where
  "path_parts_of p = filter (\<lambda>x. x \<noteq> []) (split_on 47 p)"

text \<open>What one file adds; sets are lists without repetition.\<close>

definition file_step :: "int \<Rightarrow> perm \<Rightarrow> fopen \<Rightarrow> facc \<Rightarrow> facc" where
  "file_step uid0 v f a =
    (let p = fo_path f; parts = path_parts_of p; (mode, owner, exists) = v in
     \<lparr>fa_paths = List.insert p (fa_paths a),
      fa_dirs = (if 1 < length parts then List.insert (join_with 47 (butlast parts)) (fa_dirs a) else fa_dirs a),
      fa_depths = fa_depths a @ [int (length parts)],
      fa_missing = fa_missing a + (if exists then 0 else 1),
      fa_notwr = fa_notwr a + (if exists \<and> mode AND 4 = 0 then 1 else 0),
      fa_other = fa_other a + (if exists \<and> owner \<noteq> uid0 then 1 else 0),
      fa_setuid = fa_setuid a + (if exists \<and> mode AND 2048 \<noteq> 0 then 1 else 0),
      fa_hidden = fa_hidden a + (if list_ex (\<lambda>x. starts_with x [46]) parts then 1 else 0),
      fa_writes = fa_writes a + (if fo_mode f AND 2 \<noteq> 0 then 1 else 0),
      fa_pids = (if 2 \<le> length parts \<and> parts ! 0 = ucode ''proc'' \<and> isdigit_text (parts ! 1)
        then List.insert (parts ! 1) (fa_pids a) else fa_pids a),
      fa_sens = fold (\<lambda>sd s. if starts_with p (sd @ [47])
          then List.insert (if 1 < length parts then join_with 47 (take 2 parts) else p) s else s)
        DIRS_SENSITIVE (fa_sens a)\<rparr>)"

fun file_loop :: "(nat \<Rightarrow> pystr \<Rightarrow> (int \<times> int) option) \<Rightarrow> int \<Rightarrow> fopen list \<Rightarrow> facc \<Rightarrow> plookup
    \<Rightarrow> facc \<times> plookup" where
  "file_loop stat uid0 [] a l = (a, l)"
| "file_loop stat uid0 (f # fs) a l =
     (let (v, l') = perm_get stat (fo_path f) l in file_loop stat uid0 fs (file_step uid0 v f a) l')"

text \<open>The index of the first directory that is a prefix, the last index when none is.\<close>

fun dir_index :: "pystr list \<Rightarrow> pystr \<Rightarrow> nat" where
  "dir_index [] p = 0"
| "dir_index (d # ds) p = (if starts_with p d then 0 else Suc (dir_index ds p))"

definition dir_counts :: "fopen list \<Rightarrow> int list" where
  "dir_counts fs = map (\<lambda>i. int (length (filter (\<lambda>f. dir_index DIR_FRACS (fo_path f) = i) fs)))
     [0..<length DIR_FRACS + 1]"

subsection \<open>The feature vector\<close>

fun calls_total :: "calls \<Rightarrow> nat" where
  "calls_total (Syscalls q) = length q"
| "calls_total (Stats n _) = n"

fun calls_ids :: "calls \<Rightarrow> int list" where
  "calls_ids (Syscalls q) = q"
| "calls_ids (Stats _ _) = []"

fun calls_uniq :: "calls \<Rightarrow> nat" where
  "calls_uniq (Syscalls _) = 0"
| "calls_uniq (Stats _ u) = u"

text \<open>The set of ids where it is nonempty, else the sum of the statistics.\<close>

definition n_uniq :: "brec list \<Rightarrow> int" where
  "n_uniq rs =
    (let ids = concat (map (\<lambda>r. calls_ids (b_calls r)) rs) in
     if ids = [] then int (sum_list (map (\<lambda>r. calls_uniq (b_calls r)) rs))
     else int (card (set ids)))"

definition bucket_features :: "(nat \<Rightarrow> pystr \<Rightarrow> (int \<times> int) option) \<Rightarrow> brec list \<Rightarrow> plookup
    \<Rightarrow> (feat list \<times> plookup) res" where
  "bucket_features stat rs l =
    (if rs = [] then Inl (RuntimeErr ''IndexError'')
     else
       (let nw = int (length rs);
            procs = int (card (set (map b_tgid rs)));
            comms = int (card (set (map b_comm rs)));
            total = int (sum_list (map (\<lambda>r. calls_total (b_calls r)) rs));
            files = concat (map b_files rs);
            nets = int (sum_list (map (\<lambda>r. length (b_nets r)) rs));
            nexec = int (sum_list (map (\<lambda>r. length (b_execs r)) rs));
            nf = int (length files);
            (a, l') = file_loop stat (b_uid (hd rs)) files fa_init l;
            g = max nf 1
        in Inr ([Log1p nw, Log1p procs, Log1p comms, Log1p total, Ratio (n_uniq rs) (max total 1),
             Log1p nf, Log1p (int (length (fa_paths a))), Log1p (int (length (fa_dirs a))),
             Ratio nf (max procs 1), Ratio (fa_missing a) g, Ratio (fa_notwr a) g,
             Ratio (fa_other a) g, Ratio (fa_setuid a) g, Ratio (fa_hidden a) g,
             Ratio (fa_writes a) g, Log1p (int (length (fa_pids a))),
             Ratio (int (length (fa_pids a))) (max (int (length (fa_paths a))) 1),
             Whole (int (length (fa_sens a))), Whole (fold max (fa_depths a) 0),
             Mean (fa_depths a), Log1p nets, Log1p nets, Log1p nexec, Ratio nexec (max procs 1),
             Log1p (n_uniq rs)]
             @ map (\<lambda>x. Ratio x g) (dir_counts files), l')))"

subsection \<open>Aggregating a file of records\<close>

text \<open>
  \<open>main\<close>: the records by session and start bucket, the buckets in sorted order, one row each.  The
  width of a bucket in nanoseconds is given; width 0 raises when a record is placed, and the report
  on an output without rows raises, after the file was written.
\<close>

record arow =
  a_feats :: "feat list"
  a_label :: pystr
  a_session :: pystr
  a_technique :: pystr

type_synonym bkey = "pystr \<times> int"

definition a_groups :: "int \<Rightarrow> xrec list \<Rightarrow> (bkey, xrec list) pydict" where
  "a_groups width rs = fold (\<lambda>r d. dpush (r_session r, snd (r_key r) div width) r d) rs []"

definition bucket_label :: "xrec list \<Rightarrow> pystr" where
  "bucket_label rs = (if list_ex (\<lambda>r. r_label r = attack) rs then attack else ucode ''normal'')"

definition bucket_technique :: "xrec list \<Rightarrow> pystr" where
  "bucket_technique rs =
    (let ts = map r_technique (filter (\<lambda>r. r_label r = bucket_label rs) rs)
     in if ts = [] then [] else hd (sort ts))"

fun a_rows :: "(nat \<Rightarrow> pystr \<Rightarrow> (int \<times> int) option) \<Rightarrow> (bkey, xrec list) pydict \<Rightarrow> bkey list \<Rightarrow> plookup
    \<Rightarrow> arow list res" where
  "a_rows stat d [] l = Inr []"
| "a_rows stat d (k # ks) l =
     bind_res (bucket_features stat (map of_xrec (dlist d k)) l) (\<lambda>(x, l').
       bind_res (a_rows stat d ks l') (\<lambda>rows.
         Inr (\<lparr>a_feats = x, a_label = bucket_label (dlist d k), a_session = fst k,
           a_technique = bucket_technique (dlist d k)\<rparr> # rows)))"

definition mixed_buckets :: "(bkey, xrec list) pydict \<Rightarrow> nat" where
  "mixed_buckets d = length (filter (\<lambda>(k, rs). 1 < card (set (map r_label rs))) d)"

definition aggregate_main :: "(nat \<Rightarrow> pystr \<Rightarrow> (int \<times> int) option) \<Rightarrow> int \<Rightarrow> xrec list
    \<Rightarrow> (arow list \<times> nat) res" where
  "aggregate_main stat width rs =
    (if rs \<noteq> [] \<and> width = 0 then Inl (RuntimeErr ''ZeroDivisionError'')
     else if rs = [] then Inl (RuntimeErr ''IndexError'')
     else let d = a_groups width rs in
       bind_res (a_rows stat d (sort (dkeys d)) pl_init) (\<lambda>rows. Inr (rows, mixed_buckets d)))"

subsection \<open>Column selection\<close>

text \<open>
  \<open>apply_feature_mask\<close> on a matrix as the list of its rows: no row or rows of another length have an
  invalid shape.
\<close>

definition STABLE_EXCLUDED :: "string list" where
  "STABLE_EXCLUDED = [''frac_missing'', ''frac_not_world_readable'', ''frac_other_owner'',
     ''frac_setuid'', ''n_net_dst_log'']"

definition keep_columns :: "string list \<Rightarrow> string list \<Rightarrow> 'a list \<Rightarrow> 'a list" where
  "keep_columns names excluded row = map snd (filter (\<lambda>(n, x). n \<notin> set excluded) (zip names row))"

definition apply_feature_mask :: "'a list list \<Rightarrow> string list \<Rightarrow> string list \<Rightarrow> 'a list list res" where
  "apply_feature_mask rows names excluded =
    (if rows = [] \<or> list_ex (\<lambda>r. length r \<noteq> length names) rows
     then Inl (ValueError ''invalid feature shape or names'')
     else if names = [] \<or> \<not> distinct names
     then Inl (ValueError ''feature names must be nonempty and unique'')
     else if [] \<in> set names then Inl (ValueError ''feature names must be nonempty strings'')
     else if \<not> set excluded \<subseteq> set names then Inl (ValueError ''unknown excluded feature'')
     else if set names \<subseteq> set excluded then Inl (ValueError ''feature exclusions remove every column'')
     else Inr (map (keep_columns names excluded) rows))"

end
