(* ===== verification/Detect.thy ===== *)
theory Detect
  imports Aggregate
begin

section \<open>The live detector: \<open>detect2.py\<close>\<close>

text \<open>
  The detector groups the events of a stream by time bucket and process, and closes a bucket when the
  event time or the wall clock has moved on by the grace time: its records become a feature vector,
  which the model scores.  The model is a parameter: \<open>score\<close> maps the selected features to a linear
  order, with the threshold in the configuration.  Times are integers of nanoseconds, those of the
  wall clock are part of the input.  Left out are the time stamp and the rounding of the printed
  record and the importance ranking of \<open>--explain\<close>.
\<close>

subsection \<open>Data\<close>

record 's dconf =
  g_width :: int
  g_grace :: int
  g_thr :: 's
  g_excluded :: "string list"
  g_quiet :: bool
  g_explain :: bool
  g_diag :: bool
  g_summary :: bool

record dproc =
  p_comm :: pystr
  p_raw :: "bytes option"
  p_uid :: int
  p_ppid :: int
  p_calls :: nat
  p_uniq :: "int list"
  p_files :: "fopen list"
  p_net :: "(int \<times> pystr) list"
  p_execs :: "pystr list"

definition dproc_new :: dproc where
  "dproc_new = \<lparr>p_comm = ucode ''?'', p_raw = None, p_uid = - 1, p_ppid = - 1, p_calls = 0, p_uniq = [],
     p_files = [], p_net = [], p_execs = []\<rparr>"

record 's verdict =
  v_alert :: bool
  v_score :: 's
  v_bucket :: int
  v_procs :: nat
  v_calls :: nat
  v_files :: nat
  v_comms :: "pystr list"
  v_paths :: "pystr list option"

text \<open>The summary of a process in the diagnostic log.\<close>

record proc_summary =
  s_tgid :: int
  s_ppid :: int
  s_uid :: int
  s_comm :: pystr
  s_calls :: nat
  s_uniq :: nat
  s_files :: nat
  s_exec :: nat
  s_net :: nat
  s_execs :: "pystr list"
  s_paths :: "pystr list"

datatype 's diag =
    DBucket "'s verdict" "feat list" nat nat "int \<times> int" "pystr list" "proc_summary list option"
  | DHealth int "int list"

record 's dstate =
  d_buckets :: "(int, (int, dproc) pydict) pydict"
  d_alert :: nat
  d_norm :: nat
  d_last :: int
  d_bounds :: "(int, int \<times> int) pydict"
  d_seen :: "(int, int) pydict"
  d_chunk :: "int list"
  d_perm :: plookup
  d_out :: "'s verdict list"
  d_log :: "'s diag list"

definition d_init :: "'s dstate" where
  "d_init = \<lparr>d_buckets = [], d_alert = 0, d_norm = 0, d_last = 0, d_bounds = [], d_seen = [],
     d_chunk = [], d_perm = pl_init, d_out = [], d_log = []\<rparr>"

definition to_brec :: "int \<times> dproc \<Rightarrow> brec" where
  "to_brec e = (case e of (tg, r) \<Rightarrow> \<lparr>b_tgid = tg, b_comm = p_comm r, b_uid = p_uid r,
     b_calls = Stats (p_calls r) (length (p_uniq r)), b_files = p_files r, b_nets = p_net r,
     b_execs = p_execs r\<rparr>)"

subsection \<open>Closing a bucket\<close>

text \<open>The first \<open>n\<close> different elements.\<close>

fun first_distinct :: "nat \<Rightarrow> 'a list \<Rightarrow> 'a list \<Rightarrow> 'a list" where
  "first_distinct n acc [] = acc"
| "first_distinct n acc (x # xs) =
     (let acc' = (if x \<in> set acc then acc else acc @ [x]) in
      if n \<le> length acc' then acc' else first_distinct n acc' xs)"

definition summarize :: "int \<times> dproc \<Rightarrow> proc_summary" where
  "summarize e = (case e of (tg, r) \<Rightarrow> \<lparr>s_tgid = tg, s_ppid = p_ppid r, s_uid = p_uid r,
     s_comm = p_comm r, s_calls = p_calls r, s_uniq = length (p_uniq r),
     s_files = length (p_files r), s_exec = length (p_execs r), s_net = length (p_net r),
     s_execs = take 2 (p_execs r), s_paths = first_distinct 4 [] (map fo_path (p_files r))\<rparr>)"

definition sorted_comms :: "(int \<times> dproc) list \<Rightarrow> pystr list" where
  "sorted_comms procs = sort (remdups (map (\<lambda>e. p_comm (snd e)) procs))"

definition make_verdict :: "('s::linorder) dconf \<Rightarrow> int \<Rightarrow> (int \<times> dproc) list \<Rightarrow> 's \<Rightarrow> 's verdict" where
  "make_verdict c b procs sc =
    (let hit = (g_thr c \<le> sc) in
     \<lparr>v_alert = hit, v_score = sc, v_bucket = b, v_procs = length procs,
      v_calls = sum_list (map (\<lambda>e. p_calls (snd e)) procs),
      v_files = sum_list (map (\<lambda>e. length (p_files (snd e))) procs),
      v_comms = take 8 (sorted_comms procs),
      v_paths = (if hit \<and> g_explain c
        then Some (first_distinct 8 [] (concat (map (\<lambda>e. map fo_path (p_files (snd e))) procs)))
        else None)\<rparr>)"

text \<open>The entry of the diagnostic log, and the bounds of the bucket, which it takes away.\<close>

definition log_bucket :: "'s dconf \<Rightarrow> 's verdict \<Rightarrow> feat list \<Rightarrow> (int \<times> dproc) list \<Rightarrow> 's dstate
    \<Rightarrow> 's dstate \<times> (py_error + unit)" where
  "log_bucket c v x procs s =
    (if \<not> g_diag c then (s, Inr ())
     else (case map_of (d_bounds s) (v_bucket v) of
         None \<Rightarrow> (s, Inl (KeyErr ''bucket_bounds''))
       | Some bounds \<Rightarrow>
           (s\<lparr>d_bounds := dpop (v_bucket v) (d_bounds s),
              d_log := d_log s @ [DBucket (v\<lparr>v_paths := None\<rparr>) x
                (sum_list (map (\<lambda>e. length (p_execs (snd e))) procs))
                (sum_list (map (\<lambda>e. length (p_net (snd e))) procs)) bounds
                (if g_summary c then sorted_comms procs else take 8 (sorted_comms procs))
                (if g_summary c then None else Some (map summarize procs))]\<rparr>, Inr ())))"

definition emit_verdict :: "'s dconf \<Rightarrow> 's verdict \<Rightarrow> 's dstate \<Rightarrow> 's dstate" where
  "emit_verdict c v s =
    (if v_alert v then s\<lparr>d_alert := d_alert s + 1, d_out := d_out s @ [v]\<rparr>
     else if g_quiet c then s\<lparr>d_norm := d_norm s + 1\<rparr>
     else s\<lparr>d_norm := d_norm s + 1, d_out := d_out s @ [v]\<rparr>)"

type_synonym stats = "nat \<Rightarrow> pystr \<Rightarrow> (int \<times> int) option"

definition finalize :: "('s::linorder) dconf \<Rightarrow> (feat list \<Rightarrow> 's) \<Rightarrow> stats \<Rightarrow> int \<Rightarrow> 's dstate
    \<Rightarrow> 's dstate \<times> (py_error + unit)" where
  "finalize c score stat b s0 =
    (let procs = (case map_of (d_buckets s0) b of None \<Rightarrow> [] | Some ps \<Rightarrow> ps);
         s = s0\<lparr>d_buckets := dpop b (d_buckets s0)\<rparr>
     in if procs = [] then (s, Inr ())
        else (case bucket_features stat (map to_brec procs) (d_perm s) of
            Inl e \<Rightarrow> (s, Inl e)
          | Inr (x, perm) \<Rightarrow>
            (case apply_feature_mask [x] FEATURES (g_excluded c) of
               Inl e \<Rightarrow> (s\<lparr>d_perm := perm\<rparr>, Inl e)
             | Inr rows \<Rightarrow>
               (let v = make_verdict c b procs (score (hd rows)) in
                (case log_bucket c v x procs (s\<lparr>d_perm := perm\<rparr>) of
                   (s', Inl e) \<Rightarrow> (s', Inl e)
                 | (s', Inr _) \<Rightarrow> (emit_verdict c v s', Inr ()))))))"

subsection \<open>Handling an event\<close>

definition min_event_size :: "int \<Rightarrow> int" where
  "min_event_size k = (if 1 \<le> k \<and> k \<le> 3 then 360 else if 4 \<le> k \<and> k \<le> 5 then 104
     else if 6 \<le> k \<and> k \<le> 7 then 376 else if 8 \<le> k \<and> k \<le> 13 then 200
     else if k = 14 then 128 else 377)"

definition d_check :: "frame_hdr \<Rightarrow> py_error option" where
  "d_check h =
    (if fh_magic h \<noteq> ebpf_magic \<or> fh_version h \<noteq> 1 \<or> fh_little h \<noteq> 1 \<or> fh_reserved h \<noteq> 0
     then Some (SystemExit ''corrupt frame'')
     else if \<not> (88 \<le> fh_size h \<and> fh_size h \<le> 376) then Some (SystemExit ''invalid frame size'')
     else None)"

definition set_comm :: "bytes \<Rightarrow> dproc \<Rightarrow> dproc" where
  "set_comm raw r =
    (if p_raw r = Some raw then r
     else r\<lparr>p_raw := Some raw,
        p_comm := (let t = utf8_decode on_replace (until_nul raw) in if t = [] then p_comm r else t)\<rparr>)"

text \<open>What the kinds of events add to the record of the process.\<close>

definition add_event :: "(int \<Rightarrow> int option) \<Rightarrow> bytes \<Rightarrow> dproc \<Rightarrow> dproc" where
  "add_event nr2fid ev r =
    (let kind = rd 2 ev 70 in
     if kind = 4 then
       (case nr2fid (rd 4 ev 88) of None \<Rightarrow> r
        | Some fid \<Rightarrow> r\<lparr>p_calls := p_calls r + 1, p_uniq := List.insert fid (p_uniq r)\<rparr>)
     else if kind = 6 then r\<lparr>p_files := p_files r @
        [\<lparr>fo_path = cstr ev 120 256, fo_flags = rd 4 ev 108, fo_mode = rd 4 ev 112\<rparr>]\<rparr>
     else if kind = 2 then r\<lparr>p_execs := p_execs r @ [cstr ev 104 256]\<rparr>
     else if kind = 8 then r\<lparr>p_net := p_net r @ [(rd 2 ev 158, ipv4 ev 184)]\<rparr>
     else r)"

definition stretch :: "int \<Rightarrow> int \<Rightarrow> (int, int \<times> int) pydict \<Rightarrow> (int, int \<times> int) pydict" where
  "stretch b ts d = (case map_of d b of None \<Rightarrow> dset b (ts, ts) d
     | Some (lo, hi) \<Rightarrow> dset b (min lo ts, max hi ts) d)"

definition d_event :: "'s dconf \<Rightarrow> (int \<Rightarrow> int option) \<Rightarrow> bytes \<Rightarrow> 's dstate \<Rightarrow> 's dstate" where
  "d_event c nr2fid ev s =
    (let ts = rd 8 ev 0; tgid = rd 4 ev 28; b = ts div g_width c;
         procs = (case map_of (d_buckets s) b of None \<Rightarrow> [] | Some ps \<Rightarrow> ps);
         r = (case map_of procs tgid of None \<Rightarrow> dproc_new | Some r \<Rightarrow> r);
         r1 = (set_comm (bslice ev 72 88) r)\<lparr>p_uid := rd 4 ev 44, p_ppid := rd 4 ev 40\<rparr>
     in s\<lparr>d_last := max (d_last s) ts,
          d_bounds := (if g_diag c then stretch b ts (d_bounds s) else d_bounds s),
          d_chunk := List.insert b (d_chunk s),
          d_buckets := dset b (dset tgid (add_event nr2fid ev r1) procs) (d_buckets s)\<rparr>)"

definition d_handle :: "'s dconf \<Rightarrow> (int \<Rightarrow> int option) \<Rightarrow> 's dstate handler" where
  "d_handle c nr2fid s buf n =
    (let ev = take n buf; kind = rd 2 ev 70 in
     if rd 2 ev 68 \<noteq> 1 then (s, Inl (SystemExit ''invalid event schema''))
     else if rd 4 ev 60 \<noteq> int n then (s, Inl (SystemExit ''invalid declared event size''))
     else if int n < min_event_size kind then (s, Inl (SystemExit ''invalid event size or type''))
     else if kind = 14 then
       (if g_diag c
        then (s\<lparr>d_log := d_log s @ [DHealth (rd 8 ev 0) (map (rd 8 ev) [88, 96, 104, 112, 120])]\<rparr>, Inr ())
        else (s, Inr ()))
     else if g_width c = 0 then (s, Inl (RuntimeErr ''ZeroDivisionError''))
     else (d_event c nr2fid ev s, Inr ()))"

subsection \<open>The loop\<close>

text \<open>
  The input is a sequence of readings of the wall clock, with the bytes that were read or, when
  nothing came within the grace time, without.  \<open>sweep\<close> closes the buckets that satisfy a condition,
  in ascending order.
\<close>

datatype input = Idle int | Data bytes int

fun sweep :: "('s::linorder) dconf \<Rightarrow> (feat list \<Rightarrow> 's) \<Rightarrow> stats \<Rightarrow> ('s dstate \<Rightarrow> int \<Rightarrow> bool) \<Rightarrow> int list
    \<Rightarrow> 's dstate \<Rightarrow> 's dstate \<times> py_error option" where
  "sweep c score stat P [] s = (s, None)"
| "sweep c score stat P (b # bs) s =
     (if P s b then
        (case finalize c score stat b s of
           (s', Inl e) \<Rightarrow> (s', Some e)
         | (s', Inr _) \<Rightarrow> sweep c score stat P bs (s'\<lparr>d_seen := dpop b (d_seen s')\<rparr>))
      else sweep c score stat P bs s)"

definition silent :: "'s dconf \<Rightarrow> int \<Rightarrow> 's dstate \<Rightarrow> int \<Rightarrow> bool" where
  "silent c now s b \<longleftrightarrow> g_grace c \<le> now - (case map_of (d_seen s) b of None \<Rightarrow> now | Some t \<Rightarrow> t)"

definition cutoff :: "'s dconf \<Rightarrow> 's dstate \<Rightarrow> int" where
  "cutoff c s = (d_last s - g_grace c) div g_width c"

text \<open>After the frames of a chunk: the buckets it touched were seen now, and the due ones are closed.\<close>

definition close_due :: "('s::linorder) dconf \<Rightarrow> (feat list \<Rightarrow> 's) \<Rightarrow> stats \<Rightarrow> int \<Rightarrow> 's dstate
    \<Rightarrow> 's dstate \<times> py_error option" where
  "close_due c score stat now s =
    (if g_width c = 0 then (s, Some (RuntimeErr ''ZeroDivisionError''))
     else let s1 = s\<lparr>d_seen := fold (\<lambda>b. dset b now) (d_chunk s) (d_seen s)\<rparr> in
       sweep c score stat (\<lambda>t b. b < cutoff c s \<or> silent c now t b) (sort (dkeys (d_buckets s1))) s1)"

fun d_loop :: "('s::linorder) dconf \<Rightarrow> (feat list \<Rightarrow> 's) \<Rightarrow> stats \<Rightarrow> (int \<Rightarrow> int option) \<Rightarrow> 's dstate
    \<Rightarrow> bytes \<Rightarrow> input list \<Rightarrow> 's dstate \<times> bytes \<times> py_error option" where
  "d_loop c score stat nr2fid s buf [] = (s, buf, None)"
| "d_loop c score stat nr2fid s buf (Idle now # ins) =
     (case sweep c score stat (silent c now) (sort (dkeys (d_buckets s))) s of
        (s', Some e) \<Rightarrow> (s', buf, Some e)
      | (s', None) \<Rightarrow> d_loop c score stat nr2fid s' buf ins)"
| "d_loop c score stat nr2fid s buf (Data chunk now # ins) =
     (case drain d_check (d_handle c nr2fid) (s\<lparr>d_chunk := []\<rparr>) (buf @ chunk) of
        (s', buf', Some e) \<Rightarrow> (s', buf', Some e)
      | (s', buf', None) \<Rightarrow>
         (case close_due c score stat now s' of
            (s'', Some e) \<Rightarrow> (s'', buf', Some e)
          | (s'', None) \<Rightarrow> d_loop c score stat nr2fid s'' buf' ins))"

text \<open>
  \<open>main\<close> after the configuration was read: at the end of the input a rest of a frame is an error, an
  interrupt skips that check; then every open bucket is closed.
\<close>

fun finalize_all :: "('s::linorder) dconf \<Rightarrow> (feat list \<Rightarrow> 's) \<Rightarrow> stats \<Rightarrow> int list \<Rightarrow> 's dstate
    \<Rightarrow> 's dstate \<times> py_error option" where
  "finalize_all c score stat [] s = (s, None)"
| "finalize_all c score stat (b # bs) s =
     (case finalize c score stat b s of
        (s', Inl e) \<Rightarrow> (s', Some e)
      | (s', Inr _) \<Rightarrow> finalize_all c score stat bs s')"

definition detect_run :: "('s::linorder) dconf \<Rightarrow> (feat list \<Rightarrow> 's) \<Rightarrow> stats \<Rightarrow> (int \<Rightarrow> int option)
    \<Rightarrow> input list \<Rightarrow> bool \<Rightarrow> 's dstate \<times> py_error option" where
  "detect_run c score stat nr2fid ins interrupted =
    (case d_loop c score stat nr2fid d_init [] ins of
       (s, buf, Some e) \<Rightarrow> (s, Some e)
     | (s, buf, None) \<Rightarrow>
        (if buf \<noteq> [] \<and> \<not> interrupted then (s, Some (SystemExit ''truncated frame''))
         else finalize_all c score stat (sort (dkeys (d_buckets s))) s))"

text \<open>
  The checks of the model's metadata before the loop: the names have to be those of \<open>FEATURES\<close>, the
  exclusions have to be among them, and the model has to take what remains.
\<close>

definition check_model :: "string list \<Rightarrow> string list \<Rightarrow> nat \<Rightarrow> int list \<Rightarrow> string list res" where
  "check_model raw_names excluded n_features classes =
    (if raw_names \<noteq> FEATURES then Inl (SystemExit ''feature names differ'')
     else if \<not> set excluded \<subseteq> set raw_names then Inl (SystemExit ''invalid excluded_features'')
     else let names = filter (\<lambda>n. n \<notin> set excluded) raw_names in
       if n_features \<noteq> length names \<or> classes \<noteq> [0, 1]
       then Inl (SystemExit ''model shape differs'') else Inr names)"

end
