(* ===== verification/Aggregate_Claims.thy ===== *)
theory Aggregate_Claims
  imports Aggregate Extract_Lemmas "HOL-Library.Multiset"
begin

section \<open>Properties of the bucket features\<close>

declare split_paired_All [simp del] split_paired_Ex [simp del]

subsection \<open>The loop over the files\<close>

text \<open>
  The counters never exceed the number of files, the sets have no repetition, and there are no more
  process ids than paths, because each comes from a path.
\<close>

definition facc_ok :: "nat \<Rightarrow> facc \<Rightarrow> bool" where
  "facc_ok n a \<longleftrightarrow> (\<forall>c \<in> set [fa_missing a, fa_notwr a, fa_other a, fa_setuid a, fa_hidden a, fa_writes a].
       0 \<le> c \<and> c \<le> int n)
     \<and> distinct (fa_paths a) \<and> distinct (fa_pids a)
     \<and> set (fa_pids a) \<subseteq> (\<lambda>p. path_parts_of p ! 1) ` set (fa_paths a)"

lemma facc_ok_step: "facc_ok n a \<Longrightarrow> facc_ok (Suc n) (file_step uid0 v f a)"
  by (cases v) (auto simp: facc_ok_def file_step_def Let_def)

lemma facc_ok_loop: "facc_ok n a \<Longrightarrow> facc_ok (n + length fs) (fst (file_loop stat uid0 fs a l))"
proof (induction fs arbitrary: n a l)
  case (Cons f fs)
  obtain v l' where p: "perm_get stat (fo_path f) l = (v, l')" by fastforce
  from Cons.IH [OF facc_ok_step [OF Cons.prems], of uid0 v f l'] p show ?case by simp
qed simp

lemma facc_ok_files: "facc_ok (length fs) (fst (file_loop stat uid0 fs fa_init l))"
  using facc_ok_loop [of 0 fa_init fs stat uid0 l] by (simp add: facc_ok_def fa_init_def)

lemma facc_pids:
  assumes "facc_ok n a"
  shows "length (fa_pids a) \<le> length (fa_paths a)"
proof -
  let ?f = "\<lambda>p. path_parts_of p ! 1"
  have "length (fa_pids a) = card (set (fa_pids a))"
    using assms by (simp add: facc_ok_def distinct_card)
  also have "\<dots> \<le> card (?f ` set (fa_paths a))"
    using assms by (intro card_mono) (simp_all add: facc_ok_def)
  also have "\<dots> \<le> card (set (fa_paths a))" by (rule card_image_le) simp
  also have "\<dots> \<le> length (fa_paths a)" by (rule card_length)
  finally show ?thesis .
qed

subsection \<open>Directories\<close>

lemma dir_index_le: "dir_index ds p \<le> length ds"
  by (induction ds) auto

lemma sum_counts: "(\<Sum>i\<leftarrow>[0..<n]. int (length (filter (\<lambda>x. g x = i) xs)))
    = int (length (filter (\<lambda>x. g x < n) xs))"
proof (induction n)
  case (Suc n)
  have "length (filter (\<lambda>x. g x < Suc n) xs)
      = length (filter (\<lambda>x. g x < n) xs) + length (filter (\<lambda>x. g x = n) xs)"
    by (induction xs) (auto simp: less_Suc_eq)
  with Suc show ?case by simp
qed simp

lemma dir_counts_sum: "sum_list (dir_counts fs) = int (length fs)"
proof -
  have "filter (\<lambda>f. dir_index DIR_FRACS (fo_path f) < Suc (length DIR_FRACS)) fs = fs"
    by (rule filter_True) (simp add: dir_index_le le_imp_less_Suc)
  with sum_counts [of "\<lambda>f. dir_index DIR_FRACS (fo_path f)" fs "length DIR_FRACS + 1"]
  show ?thesis by (simp add: dir_counts_def)
qed

lemma dir_counts_bound: "c \<in> set (dir_counts fs) \<Longrightarrow> 0 \<le> c \<and> c \<le> int (length fs)"
  by (auto simp: dir_counts_def)

lemma length_dir_counts: "length (dir_counts fs) = 6"
  by (simp add: dir_counts_def DIR_FRACS_def)

subsection \<open>The vector\<close>

text \<open>A quotient between 0 and 1 with a positive denominator.\<close>

fun proper :: "feat \<Rightarrow> bool" where
  "proper (Ratio a b) = (0 \<le> a \<and> a \<le> b \<and> 1 \<le> b)"
| "proper _ = False"

fun numer :: "feat \<Rightarrow> int" where
  "numer (Ratio a b) = a"
| "numer _ = 0"

definition is_fraction :: "string \<Rightarrow> bool" where
  "is_fraction name \<longleftrightarrow> take 5 name = ''frac_'' \<or> name = ''proc_pid_frac''"

lemma fraction_indices: "i < 31 \<Longrightarrow> is_fraction (FEATURES ! i) \<longleftrightarrow> (9 \<le> i \<and> i \<le> 14) \<or> i = 16 \<or> 25 \<le> i"
proof -
  have "list_all (\<lambda>i. is_fraction (FEATURES ! i) = ((9 \<le> i \<and> i \<le> 14) \<or> i = 16 \<or> 25 \<le> i)) [0..<31]"
    by code_simp
  then show "i < 31 \<Longrightarrow> ?thesis" by (simp add: list_all_iff)
qed

lemma bucket_features_some:
  assumes "rs \<noteq> []"
  obtains x l' where "bucket_features stat rs l = Inr (x, l')"
proof -
  obtain a l1 where "file_loop stat (b_uid (hd rs)) (concat (map b_files rs)) fa_init l = (a, l1)"
    by fastforce
  with assms that show thesis by (simp add: bucket_features_def Let_def)
qed

lemma bucket_features_Inr:
  assumes "bucket_features stat rs l = Inr (x, l')"
  shows "\<exists>a. facc_ok (length (concat (map b_files rs))) a
    \<and> file_loop stat (b_uid (hd rs)) (concat (map b_files rs)) fa_init l = (a, l') \<and> rs \<noteq> []
    \<and> x = (let procs = int (card (set (map b_tgid rs))); nf = int (length (concat (map b_files rs)));
         total = int (sum_list (map (\<lambda>r. calls_total (b_calls r)) rs));
         nets = int (sum_list (map (\<lambda>r. length (b_nets r)) rs));
         nexec = int (sum_list (map (\<lambda>r. length (b_execs r)) rs)); g = max nf 1 in
       [Log1p (int (length rs)), Log1p procs, Log1p (int (card (set (map b_comm rs)))), Log1p total,
        Ratio (n_uniq rs) (max total 1), Log1p nf, Log1p (int (length (fa_paths a))),
        Log1p (int (length (fa_dirs a))), Ratio nf (max procs 1), Ratio (fa_missing a) g,
        Ratio (fa_notwr a) g, Ratio (fa_other a) g, Ratio (fa_setuid a) g, Ratio (fa_hidden a) g,
        Ratio (fa_writes a) g, Log1p (int (length (fa_pids a))),
        Ratio (int (length (fa_pids a))) (max (int (length (fa_paths a))) 1),
        Whole (int (length (fa_sens a))), Whole (fold max (fa_depths a) 0), Mean (fa_depths a),
        Log1p nets, Log1p nets, Log1p nexec, Ratio nexec (max procs 1), Log1p (n_uniq rs)]
       @ map (\<lambda>x. Ratio x g) (dir_counts (concat (map b_files rs))))"
proof -
  obtain a l1 where f: "file_loop stat (b_uid (hd rs)) (concat (map b_files rs)) fa_init l = (a, l1)"
    by fastforce
  with facc_ok_files [of "concat (map b_files rs)" stat "b_uid (hd rs)" l]
  have "facc_ok (length (concat (map b_files rs))) a" by simp
  moreover from assms have "rs \<noteq> []" by (auto simp: bucket_features_def)
  ultimately show ?thesis using assms f
    by (intro exI [of _ a]) (simp add: bucket_features_def Let_def)
qed

lemma feature_vector_length: "bucket_features stat rs l = Inr (x, l') \<Longrightarrow> length x = 31"
  by (auto simp: bucket_features_def Let_def length_dir_counts split: if_splits prod.splits)

text \<open>
  C24. The feature vector is well formed: it has one entry per name of \<open>FEATURES\<close>, thirty-one; every
  entry that is named a fraction is a quotient between 0 and 1 with a positive denominator; and the
  numerators of the six directory fractions add up to the number of file accesses, so that each
  access counts for one directory.
\<close>

theorem feature_vector_shape:
  assumes "bucket_features stat rs l = Inr (x, l')"
  shows "length x = length FEATURES \<and> length FEATURES = 31
    \<and> (\<forall>i < 31. is_fraction (FEATURES ! i) \<longrightarrow> proper (x ! i))
    \<and> sum_list (map numer (drop 25 x)) = int (length (concat (map b_files rs)))"
proof -
  let ?fs = "concat (map b_files rs)"
  let ?g = "max (int (length ?fs)) 1"
  from bucket_features_Inr [OF assms] obtain a ys where ok: "facc_ok (length ?fs) a"
    and x: "x = ys @ map (\<lambda>x. Ratio x ?g) (dir_counts ?fs)" "length ys = 25"
    and y: "take 6 (drop 9 ys) = map (\<lambda>c. Ratio c ?g) [fa_missing a, fa_notwr a, fa_other a, fa_setuid a,
        fa_hidden a, fa_writes a]"
      "ys ! 16 = Ratio (int (length (fa_pids a))) (max (int (length (fa_paths a))) 1)"
    by (auto simp: Let_def)
  have len: "length x = 31" using x by (simp add: length_dir_counts)
  have "proper (x ! i)" if i: "i < 31" "is_fraction (FEATURES ! i)" for i
  proof -
    from i fraction_indices [of i] consider "9 \<le> i" "i \<le> 14" | "i = 16" | "25 \<le> i" by auto
    then show ?thesis
    proof cases
      case 1
      then have "x ! i = take 6 (drop 9 ys) ! (i - 9)" using x by (simp add: nth_append)
      moreover have "take 6 (drop 9 ys) ! (i - 9) \<in> set (take 6 (drop 9 ys))"
        using 1 x(2) by (intro nth_mem) simp
      ultimately show ?thesis using ok by (auto simp: y(1) facc_ok_def)
    next
      case 2
      with x y(2) facc_pids [OF ok] show ?thesis by (simp add: nth_append)
    next
      case 3
      then have "x ! i = Ratio (dir_counts ?fs ! (i - 25)) ?g"
        using x i(1) by (simp add: nth_append length_dir_counts)
      moreover have "i - 25 < 6" using i(1) by arith
      then have "dir_counts ?fs ! (i - 25) \<in> set (dir_counts ?fs)" by (simp add: length_dir_counts)
      then have "0 \<le> dir_counts ?fs ! (i - 25)" "dir_counts ?fs ! (i - 25) \<le> int (length ?fs)"
        using dir_counts_bound by blast+
      ultimately show ?thesis by (auto simp: le_max_iff_disj)
    qed
  qed
  moreover have "sum_list (map numer (drop 25 x)) = int (length ?fs)"
    using x by (simp add: o_def dir_counts_sum)
  moreover have "length FEATURES = 31" by (simp add: FEATURES_def)
  ultimately show ?thesis using len by simp
qed

definition sample_open :: "string \<Rightarrow> fopen" where
  "sample_open p = \<lparr>fo_path = ucode p, fo_flags = 0, fo_mode = 1\<rparr>"

definition sample_rec :: "calls \<Rightarrow> brec" where
  "sample_rec q = \<lparr>b_tgid = 7, b_comm = ucode ''sh'', b_uid = 1000, b_calls = q,
     b_files = [sample_open ''/etc/passwd'', sample_open ''/proc/1/status''], b_nets = [],
     b_execs = []\<rparr>"

theorem feature_vector_shape_witness:
  "\<exists>x l'. bucket_features (\<lambda>_ _. None) [sample_rec (Syscalls [3, 3])] pl_init = Inr (x, l')
    \<and> proper (x ! 9)"
proof -
  obtain x l' where b: "bucket_features (\<lambda>_ _. None) [sample_rec (Syscalls [3, 3])] pl_init = Inr (x, l')"
    by (rule bucket_features_some [of "[sample_rec (Syscalls [3, 3])]" "\<lambda>_ _. None" pl_init]) simp
  have "is_fraction (FEATURES ! 9)" by code_simp
  with feature_vector_shape [OF b] have "proper (x ! 9)" by simp
  with b show ?thesis by blast
qed

subsection \<open>Full and slim records\<close>

definition slim_rec :: "brec \<Rightarrow> brec" where
  "slim_rec r = r\<lparr>b_calls := Stats (length (calls_ids (b_calls r))) (card (set (calls_ids (b_calls r))))\<rparr>"

fun no_common_calls :: "brec list \<Rightarrow> bool" where
  "no_common_calls [] = True"
| "no_common_calls (r # rs) = (set (calls_ids (b_calls r))
      \<inter> set (concat (map (\<lambda>r. calls_ids (b_calls r)) rs)) = {} \<and> no_common_calls rs)"

definition uniq_sum :: "brec list \<Rightarrow> int" where
  "uniq_sum rs = int (sum_list (map (\<lambda>r. card (set (calls_ids (b_calls r)))) rs))"

lemma card_calls: "int (card (set (concat (map (\<lambda>r. calls_ids (b_calls r)) rs)))) \<le> uniq_sum rs"
proof (induction rs)
  case (Cons r rs)
  have "card (set (calls_ids (b_calls r)) \<union> set (concat (map (\<lambda>r. calls_ids (b_calls r)) rs)))
      \<le> card (set (calls_ids (b_calls r))) + card (set (concat (map (\<lambda>r. calls_ids (b_calls r)) rs)))"
    by (rule card_Un_le)
  with Cons show ?case by (simp add: uniq_sum_def)
qed (simp add: uniq_sum_def)

lemma card_calls_apart: "no_common_calls rs \<Longrightarrow>
  int (card (set (concat (map (\<lambda>r. calls_ids (b_calls r)) rs)))) = uniq_sum rs"
proof (induction rs)
  case (Cons r rs)
  then have "card (set (calls_ids (b_calls r)) \<union> set (concat (map (\<lambda>r. calls_ids (b_calls r)) rs)))
      = card (set (calls_ids (b_calls r))) + card (set (concat (map (\<lambda>r. calls_ids (b_calls r)) rs)))"
    by (intro card_Un_disjoint) auto
  with Cons show ?case by (simp add: uniq_sum_def)
qed (simp add: uniq_sum_def)

definition all_full :: "brec list \<Rightarrow> bool" where
  "all_full rs \<longleftrightarrow> list_all (\<lambda>r. case b_calls r of Syscalls _ \<Rightarrow> True | Stats _ _ \<Rightarrow> False) rs"

lemma n_uniq_full:
  assumes "all_full rs"
  shows "n_uniq rs = int (card (set (concat (map (\<lambda>r. calls_ids (b_calls r)) rs))))"
proof -
  have "calls_uniq (b_calls r) = 0" if "r \<in> set rs" for r
    using assms that by (cases "b_calls r") (force simp: all_full_def list_all_iff)+
  then have "sum_list (map (\<lambda>r. calls_uniq (b_calls r)) rs) = 0" by (simp cong: map_cong)
  then show ?thesis by (simp add: n_uniq_def Let_def)
qed

lemma slim_rec_simps [simp]: "b_tgid (slim_rec r) = b_tgid r" "b_comm (slim_rec r) = b_comm r"
  "b_uid (slim_rec r) = b_uid r" "b_files (slim_rec r) = b_files r" "b_nets (slim_rec r) = b_nets r"
  "b_execs (slim_rec r) = b_execs r" "calls_ids (b_calls (slim_rec r)) = []"
  "calls_total (b_calls (slim_rec r)) = length (calls_ids (b_calls r))"
  "calls_uniq (b_calls (slim_rec r)) = card (set (calls_ids (b_calls r)))"
  by (simp_all add: slim_rec_def)

lemma n_uniq_slim: "n_uniq (map slim_rec rs) = uniq_sum rs"
  by (simp add: n_uniq_def uniq_sum_def o_def)

text \<open>
  Full and slim records give the same features but for the number of distinct system calls: on the
  slim form of full records the vector differs at most in \<open>syscall_diversity\<close> and
  \<open>n_uniq_syscalls_log\<close>, where the sum of the numbers per record replaces the number of the union;
  the sum is never smaller, and equal when no two records share a call.
\<close>

theorem slim_features_agree:
  assumes "bucket_features stat rs l = Inr (x, l')" and "all_full rs"
  shows "bucket_features stat (map slim_rec rs) l = Inr (x
      [4 := Ratio (uniq_sum rs) (max (int (sum_list (map (\<lambda>r. calls_total (b_calls r)) rs))) 1),
       24 := Log1p (uniq_sum rs)], l')
    \<and> x ! 24 = Log1p (n_uniq rs) \<and> n_uniq rs \<le> uniq_sum rs
    \<and> (no_common_calls rs \<longrightarrow> bucket_features stat (map slim_rec rs) l = Inr (x, l'))"
proof -
  let ?y = "x[4 := Ratio (uniq_sum rs) (max (int (sum_list (map (\<lambda>r. calls_total (b_calls r)) rs))) 1),
       24 := Log1p (uniq_sum rs)]"
  from assms(1) have ne: "rs \<noteq> []" by (auto simp: bucket_features_def)
  have tot: "length (calls_ids (b_calls r)) = calls_total (b_calls r)" if "r \<in> set rs" for r
    using assms(2) that by (cases "b_calls r") (force simp: all_full_def list_all_iff)+
  then have total: "map (\<lambda>r. length (calls_ids (b_calls r))) rs = map (\<lambda>r. calls_total (b_calls r)) rs"
    by simp
  have hd: "b_uid (hd (map slim_rec rs)) = b_uid (hd rs)" using ne by (simp add: hd_map)
  obtain a l1 where f: "file_loop stat (b_uid (hd rs)) (concat (map b_files rs)) fa_init l = (a, l1)"
    by fastforce
  have slim: "bucket_features stat (map slim_rec rs) l = Inr (?y, l')"
    using assms(1) ne f hd
    by (auto simp: bucket_features_def Let_def o_def total n_uniq_slim)
  have x: "x ! 24 = Log1p (n_uniq rs)"
    "x ! 4 = Ratio (n_uniq rs) (max (int (sum_list (map (\<lambda>r. calls_total (b_calls r)) rs))) 1)"
    using assms(1) ne f by (auto simp: bucket_features_def Let_def)
  have le: "n_uniq rs \<le> uniq_sum rs" using n_uniq_full [OF assms(2)] card_calls by simp
  have "?y = x" if "no_common_calls rs"
    using card_calls_apart [OF that] n_uniq_full [OF assms(2)] x by (metis list_update_id)
  with slim x le show ?thesis by simp
qed

theorem slim_features_agree_witness:
  "\<exists>x l'. bucket_features (\<lambda>_ _. None) [sample_rec (Syscalls [3, 3])] pl_init = Inr (x, l')
    \<and> bucket_features (\<lambda>_ _. None) (map slim_rec [sample_rec (Syscalls [3, 3])]) pl_init = Inr (x, l')"
proof -
  obtain x l' where b: "bucket_features (\<lambda>_ _. None) [sample_rec (Syscalls [3, 3])] pl_init = Inr (x, l')"
    by (rule bucket_features_some [of "[sample_rec (Syscalls [3, 3])]" "\<lambda>_ _. None" pl_init]) simp
  have "all_full [sample_rec (Syscalls [3, 3])]" "no_common_calls [sample_rec (Syscalls [3, 3])]"
    by (simp_all add: all_full_def sample_rec_def)
  with slim_features_agree [OF b] b show ?thesis by blast
qed

text \<open>Two processes with the same call: the slim records count it twice, the full ones once.\<close>

lemma slim_counts_twice:
  "n_uniq [sample_rec (Syscalls [3]), sample_rec (Syscalls [3])] = 1"
  "n_uniq (map slim_rec [sample_rec (Syscalls [3]), sample_rec (Syscalls [3])]) = 2"
  by code_simp+

text \<open>The vector has 31 entries, and the entry named after destinations repeats that of connections.\<close>

lemma net_dst_repeats_net:
  "bucket_features stat rs l = Inr (x, l') \<Longrightarrow> x ! 21 = x ! 20"
  "FEATURES ! 20 = ''n_net_log''" "FEATURES ! 21 = ''n_net_dst_log''"
  by (auto simp: bucket_features_def Let_def split: if_splits prod.splits) (simp_all add: FEATURES_def)

subsection \<open>Process directories\<close>

lemma perm_get_agree:
  assumes "\<And>k p. \<not> is_proc_pid p \<Longrightarrow> stat k p = stat' k p"
  shows "perm_get stat p l = perm_get stat' p l"
  using assms [of p "pl_calls l"] by (cases "is_proc_pid p") (simp_all add: perm_get_def split: option.split)

lemma file_loop_agree:
  assumes "\<And>k p. \<not> is_proc_pid p \<Longrightarrow> stat k p = stat' k p"
  shows "file_loop stat uid0 fs a l = file_loop stat' uid0 fs a l"
  by (induction fs arbitrary: a l) (simp_all add: perm_get_agree [OF assms] split: prod.splits)

text \<open>
  The features do not depend on when the processes of a bucket end: two file systems that agree
  outside the directories \<open>/proc/<pid>\<close>, at every call, give the same vector and the same cache.
\<close>

theorem proc_paths_timeless:
  assumes "\<And>k p. \<not> is_proc_pid p \<Longrightarrow> stat k p = stat' k p"
  shows "bucket_features stat rs l = bucket_features stat' rs l"
  by (simp add: bucket_features_def file_loop_agree [OF assms])

theorem proc_paths_timeless_witness:
  "bucket_features (\<lambda>_ p. if is_proc_pid p then None else Some (420, 0)) [sample_rec (Stats 1 1)] pl_init
    = bucket_features (\<lambda>_ p. Some (420, 0)) [sample_rec (Stats 1 1)] pl_init"
  by (rule proc_paths_timeless) simp

subsection \<open>Grouping\<close>

definition akey :: "int \<Rightarrow> xrec \<Rightarrow> bkey" where
  "akey width r = (r_session r, snd (r_key r) div width)"

abbreviation place :: "int \<Rightarrow> xrec list \<Rightarrow> (bkey, xrec list) pydict \<Rightarrow> (bkey, xrec list) pydict" where
  "place width rs d \<equiv> fold (\<lambda>r d. dpush (r_session r, snd (r_key r) div width) r d) rs d"

lemma groups_fold:
  assumes "dict_ok d"
  shows "dict_ok (place width rs d)"
    "dlist (place width rs d) k = dlist d k @ filter (\<lambda>r. akey width r = k) rs"
    "set (dkeys (place width rs d)) = set (dkeys d) \<union> akey width ` set rs"
proof -
  have "dict_ok (place width rs d) \<and> dlist (place width rs d) k = dlist d k @ filter (\<lambda>r. akey width r = k) rs
    \<and> set (dkeys (place width rs d)) = set (dkeys d) \<union> akey width ` set rs"
    using assms
  proof (induction rs arbitrary: d)
    case (Cons r rs)
    have "dict_ok (dpush (akey width r) r d)" using Cons.prems by (simp add: dpush_def)
    from Cons.IH [OF this] show ?case
      by (auto simp: akey_def dict_simps dpush_def)
  qed simp
  then show "dict_ok (place width rs d)"
    "dlist (place width rs d) k = dlist d k @ filter (\<lambda>r. akey width r = k) rs"
    "set (dkeys (place width rs d)) = set (dkeys d) \<union> akey width ` set rs" by blast+
qed

lemma groups_spec:
  "dict_ok (a_groups width rs)" "dlist (a_groups width rs) k = filter (\<lambda>r. akey width r = k) rs"
  "set (dkeys (a_groups width rs)) = akey width ` set rs"
  using groups_fold [of "[]" width rs] by (simp_all add: a_groups_def)

lemma a_rows_spec:
  assumes "\<forall>k \<in> set ks. dlist d k \<noteq> []"
  shows "\<exists>rows. a_rows stat d ks l = Inr rows \<and> list_all2 (\<lambda>k row. a_session row = fst k
    \<and> a_label row = bucket_label (dlist d k) \<and> a_technique row = bucket_technique (dlist d k)
    \<and> (\<exists>l l'. bucket_features stat (map of_xrec (dlist d k)) l = Inr (a_feats row, l'))) ks rows"
  using assms
proof (induction ks arbitrary: l)
  case (Cons k ks)
  then have "map of_xrec (dlist d k) \<noteq> []" by simp
  from bucket_features_some [OF this] obtain x l' where
    b: "bucket_features stat (map of_xrec (dlist d k)) l = Inr (x, l')" by blast
  from Cons obtain rows where "a_rows stat d ks l' = Inr rows" "list_all2 (\<lambda>k row. a_session row = fst k
    \<and> a_label row = bucket_label (dlist d k) \<and> a_technique row = bucket_technique (dlist d k)
    \<and> (\<exists>l l'. bucket_features stat (map of_xrec (dlist d k)) l = Inr (a_feats row, l'))) ks rows"
    by fastforce
  with b show ?case by auto
qed simp

lemma bucket_label_attack: "bucket_label rs = attack \<longleftrightarrow> (\<exists>r \<in> set rs. r_label r = attack)"
proof -
  have "ucode ''normal'' \<noteq> attack" by code_simp
  then show ?thesis by (auto simp: bucket_label_def list_ex_iff)
qed

lemma features_count: "bucket_features stat rs l = Inr (x, l') \<Longrightarrow> hd x = Log1p (int (length rs))"
  by (auto simp: bucket_features_def Let_def split: if_splits prod.splits)

text \<open>
  C25. Aggregation partitions the records: with a nonzero width it always succeeds, and its rows are, in
  sorted order, one for every session and bucket that has a record; each row counts exactly the
  records of its session and bucket and is labelled an attack exactly when one of them is.
\<close>

theorem aggregate_partitions:
  assumes "rs \<noteq> []" and "width \<noteq> 0"
  shows "\<exists>rows mixed ks. aggregate_main stat width rs = Inr (rows, mixed) \<and> sorted ks \<and> distinct ks
    \<and> set ks = akey width ` set rs \<and> length rows = length ks
    \<and> (\<forall>i < length ks. let g = filter (\<lambda>r. akey width r = ks ! i) rs in
        a_session (rows ! i) = fst (ks ! i) \<and> hd (a_feats (rows ! i)) = Log1p (int (length g))
        \<and> (a_label (rows ! i) = attack \<longleftrightarrow> (\<exists>r \<in> set g. r_label r = attack)))"
proof -
  let ?d = "a_groups width rs"
  let ?ks = "sort (dkeys ?d)"
  note spec = groups_spec [of width rs]
  have "\<forall>k \<in> set ?ks. dlist ?d k \<noteq> []"
    using spec(2,3) by (auto simp: filter_empty_conv)
  from a_rows_spec [OF this, of stat pl_init] obtain rows where
    r: "a_rows stat ?d ?ks pl_init = Inr rows" and all: "list_all2 (\<lambda>k row. a_session row = fst k
    \<and> a_label row = bucket_label (dlist ?d k) \<and> a_technique row = bucket_technique (dlist ?d k)
    \<and> (\<exists>l l'. bucket_features stat (map of_xrec (dlist ?d k)) l = Inr (a_feats row, l'))) ?ks rows"
    by blast
  have "aggregate_main stat width rs = Inr (rows, mixed_buckets ?d)"
    using assms r by (simp add: aggregate_main_def Let_def)
  moreover have "sorted ?ks" "distinct ?ks" "set ?ks = akey width ` set rs"
    using spec(1,3) by (simp_all add: dict_ok_def)
  moreover have "length rows = length ?ks" using list_all2_lengthD [OF all] by simp
  moreover have "let g = filter (\<lambda>r. akey width r = ?ks ! i) rs in
        a_session (rows ! i) = fst (?ks ! i) \<and> hd (a_feats (rows ! i)) = Log1p (int (length g))
        \<and> (a_label (rows ! i) = attack \<longleftrightarrow> (\<exists>r \<in> set g. r_label r = attack))" if "i < length ?ks" for i
  proof -
    from list_all2_nthD [OF all that] have row: "a_session (rows ! i) = fst (?ks ! i)"
      "a_label (rows ! i) = bucket_label (dlist ?d (?ks ! i))"
      "\<exists>l l'. bucket_features stat (map of_xrec (dlist ?d (?ks ! i))) l = Inr (a_feats (rows ! i), l')"
      by blast+
    from row(3) features_count have "hd (a_feats (rows ! i))
        = Log1p (int (length (dlist ?d (?ks ! i))))" by fastforce
    with row(1,2) show ?thesis by (simp add: spec(2) bucket_label_attack Let_def)
  qed
  ultimately show ?thesis by blast
qed

theorem aggregate_partitions_witness:
  "\<exists>rows m. aggregate_main (\<lambda>_ _. None) 10
      [\<lparr>r_label = attack, r_technique = [], r_session = [], r_key = (7, 25), r_comm = [], r_uid = 0,
        r_ppid = 0, r_calls = Stats 5 2, r_files = [], r_net = [], r_execs = []\<rparr>] = Inr (rows, m)
    \<and> length rows = 1 \<and> a_label (rows ! 0) = attack"
proof -
  let ?r = "\<lparr>r_label = attack, r_technique = [], r_session = [], r_key = (7, 25), r_comm = [],
        r_uid = 0, r_ppid = 0, r_calls = Stats 5 2, r_files = [], r_net = [], r_execs = []\<rparr>"
  from aggregate_partitions [of "[?r]" 10 "\<lambda>_ _. None"] obtain rows m ks where a:
    "aggregate_main (\<lambda>_ _. None) 10 [?r] = Inr (rows, m)" "distinct ks" "set ks = akey 10 ` set [?r]"
    "length rows = length ks" "\<forall>i < length ks. let g = filter (\<lambda>r. akey 10 r = ks ! i) [?r] in
        a_session (rows ! i) = fst (ks ! i) \<and> hd (a_feats (rows ! i)) = Log1p (int (length g))
        \<and> (a_label (rows ! i) = attack \<longleftrightarrow> (\<exists>r \<in> set g. r_label r = attack))" by auto
  from a(3) have "set ks = {akey 10 ?r}" by simp
  moreover have "length ks = 1" using distinct_card [OF a(2)] a(3) by simp
  ultimately have "ks = [akey 10 ?r]" by (cases ks) auto
  with a(1,4,5) show ?thesis by (auto simp: Let_def)
qed

end
