(* ===== verification/Detect_Lemmas.thy ===== *)
theory Detect_Lemmas
  imports Detect Aggregate_Claims
begin

section \<open>Lemmas on the detector\<close>

declare split_paired_All [simp del] split_paired_Ex [simp del]

subsection \<open>Valid payloads\<close>

definition d_accepts :: "bytes \<Rightarrow> bool" where
  "d_accepts p \<longleftrightarrow> 88 \<le> length p \<and> length p \<le> 376"

definition d_valid :: "bytes \<Rightarrow> bool" where
  "d_valid p \<longleftrightarrow> d_accepts p \<and> rd 2 p 68 = 1 \<and> rd 4 p 60 = int (length p)
     \<and> min_event_size (p_kind p) \<le> int (length p)"

interpretation dr: framed_reader d_check "d_handle c f" d_accepts for c f
  by unfold_locales (simp_all add: d_handle_def d_check_def d_accepts_def)

lemma d_valid_accepts: "d_valid p \<Longrightarrow> d_accepts p \<and> fits 4 (int (length p))"
  by (auto simp: d_valid_def d_accepts_def fits_def)

lemma d_handle_valid:
  assumes "d_valid p" and "g_width c \<noteq> 0"
  shows "d_handle c f s p (length p) =
    (if p_kind p = 14 then (s\<lparr>d_log := (if g_diag c
        then d_log s @ [DHealth (rd 8 p 0) (map (rd 8 p) [88, 96, 104, 112, 120])] else d_log s)\<rparr>, Inr ())
     else (d_event c f p s, Inr ()))"
  using assms by (simp add: d_handle_def d_valid_def p_kind_def Let_def)

subsection \<open>Closing a bucket succeeds\<close>

definition conf_ok :: "'s dconf \<Rightarrow> bool" where
  "conf_ok c \<longleftrightarrow> g_width c \<noteq> 0 \<and> set (g_excluded c) \<subset> set FEATURES"

text \<open>Every open bucket has a process, and with diagnostics its bounds.\<close>

definition d_ok :: "'s dconf \<Rightarrow> 's dstate \<Rightarrow> bool" where
  "d_ok c s \<longleftrightarrow> dict_ok (d_buckets s)
     \<and> (\<forall>b procs. map_of (d_buckets s) b = Some procs \<longrightarrow> procs \<noteq> [] \<and> dict_ok procs
          \<and> (g_diag c \<longrightarrow> map_of (d_bounds s) b \<noteq> None))"

lemma d_okD:
  assumes "d_ok c s" and "map_of (d_buckets s) b = Some procs"
  shows "procs \<noteq> []" "dict_ok procs" "g_diag c \<Longrightarrow> map_of (d_bounds s) b \<noteq> None"
  using assms by (auto simp: d_ok_def)

lemma features_names: "distinct FEATURES" "[] \<notin> set FEATURES" "FEATURES \<noteq> []" "length FEATURES = 31"
  by code_simp+

lemma mask_some:
  assumes "conf_ok c" and "length x = length FEATURES"
  shows "apply_feature_mask [x] FEATURES (g_excluded c) = Inr [keep_columns FEATURES (g_excluded c) x]"
proof -
  have "\<not> set FEATURES \<subseteq> set (g_excluded c)" "set (g_excluded c) \<subseteq> set FEATURES"
    using assms(1) by (auto simp: conf_ok_def)
  then show ?thesis using assms(2) features_names by (simp add: apply_feature_mask_def)
qed

text \<open>The state after a bucket was closed with a verdict.\<close>

definition closed :: "'s dconf \<Rightarrow> 's verdict \<Rightarrow> 's diag list \<Rightarrow> plookup \<Rightarrow> 's dstate \<Rightarrow> 's dstate" where
  "closed c v logged perm s = emit_verdict c v (s\<lparr>d_buckets := dpop (v_bucket v) (d_buckets s), d_perm := perm,
     d_bounds := (if g_diag c then dpop (v_bucket v) (d_bounds s) else d_bounds s), d_log := logged\<rparr>)"

lemma v_bucket_make [simp]: "v_bucket (make_verdict c b procs sc) = b"
  by (simp add: make_verdict_def Let_def)

lemma finalize_open:
  fixes c :: "('s::linorder) dconf"
  assumes "conf_ok c" and "d_ok c s" and "map_of (d_buckets s) b = Some procs"
  obtains sc logged perm where
    "finalize c score stat b s = (closed c (make_verdict c b procs sc) logged perm s, Inr ())"
proof -
  let ?s = "s\<lparr>d_buckets := dpop b (d_buckets s)\<rparr>"
  have ne: "procs \<noteq> []" using d_okD(1) [OF assms(2,3)] .
  then have "map to_brec procs \<noteq> []" by simp
  from bucket_features_some [OF this] obtain x perm where
    x: "bucket_features stat (map to_brec procs) (d_perm ?s) = Inr (x, perm)" by blast
  have "length x = length FEATURES" using feature_vector_length [OF x] features_names by simp
  note mask = mask_some [OF assms(1) this]
  let ?sc = "score (keep_columns FEATURES (g_excluded c) x)"
  let ?v = "make_verdict c b procs ?sc"
  let ?t = "?s\<lparr>d_perm := perm\<rparr>"
  obtain logged where log: "log_bucket c ?v x procs ?t =
      (?t\<lparr>d_bounds := (if g_diag c then dpop b (d_bounds s) else d_bounds s), d_log := logged\<rparr>, Inr ())"
  proof (cases "g_diag c")
    case True
    with d_okD(3) [OF assms(2,3)] obtain bounds where "map_of (d_bounds s) b = Some bounds" by auto
    with True that show thesis by (simp add: log_bucket_def)
  next
    case False
    with that [of "d_log s"] show thesis by (simp add: log_bucket_def)
  qed
  have "finalize c score stat b s = (closed c ?v logged perm s, Inr ())"
    using assms(3) ne x mask log
    by (simp add: finalize_def Let_def closed_def)
  with that show thesis by blast
qed

lemma closed_simps [simp]:
  "d_buckets (closed c v logged perm s) = dpop (v_bucket v) (d_buckets s)"
  "d_last (closed c v logged perm s) = d_last s" "d_seen (closed c v logged perm s) = d_seen s"
  "d_chunk (closed c v logged perm s) = d_chunk s"
  "d_bounds (closed c v logged perm s) = (if g_diag c then dpop (v_bucket v) (d_bounds s) else d_bounds s)"
  "d_out (closed c v logged perm s) = d_out s @ (if v_alert v \<or> \<not> g_quiet c then [v] else [])"
  "d_alert (closed c v logged perm s) = d_alert s + (if v_alert v then 1 else 0)"
  "d_norm (closed c v logged perm s) = d_norm s + (if v_alert v then 0 else 1)"
  by (simp_all add: closed_def emit_verdict_def)

lemma d_ok_closed: "d_ok c s \<Longrightarrow> d_ok c (closed c v logged perm s)"
  by (auto simp: d_ok_def dict_simps)

lemma d_ok_cong:
  "d_buckets t = d_buckets s \<Longrightarrow> d_bounds t = d_bounds s \<Longrightarrow> d_ok c t = d_ok c s"
  by (simp add: d_ok_def)

lemma stretch_keys: "map_of (stretch b ts d) b' \<noteq> None \<longleftrightarrow> b' = b \<or> map_of d b' \<noteq> None"
  by (auto simp: stretch_def dict_simps split: option.splits prod.splits)

lemma d_ok_event:
  assumes "d_ok c s"
  shows "d_ok c (d_event c f p s)"
proof -
  have "dset k v d \<noteq> []" for k :: int and v :: dproc and d by (cases d) (auto split: if_splits)
  with assms stretch_keys show ?thesis
    unfolding d_ok_def d_event_def Let_def
    by (auto simp: dict_simps split: option.splits)
qed

subsection \<open>Properties of the whole run\<close>

text \<open>The bytes and the readings of an input.\<close>

definition bytes_of :: "input list \<Rightarrow> bytes" where
  "bytes_of ins = concat (map (\<lambda>i. case i of Idle _ \<Rightarrow> [] | Data b _ \<Rightarrow> b) ins)"

definition now_of :: "input \<Rightarrow> int" where
  "now_of i = (case i of Idle t \<Rightarrow> t | Data _ t \<Rightarrow> t)"

lemma bytes_of_simps [simp]: "bytes_of [] = []" "bytes_of (Idle t # ins) = bytes_of ins"
  "bytes_of (Data b t # ins) = b @ bytes_of ins"
  by (simp_all add: bytes_of_def)

lemma now_of_simps [simp]: "now_of (Idle t) = t" "now_of (Data b t) = t"
  by (simp_all add: now_of_def)

text \<open>
  A property \<open>J\<close> of the events handled so far and the state, for streams whose events satisfy
  \<open>allowed\<close> and clock readings that satisfy \<open>tick\<close>; and a property \<open>K\<close> for the end of the input, when
  the open buckets are closed whether they are due or not.
\<close>

locale detector_property =
  fixes c :: "('s::linorder) dconf"
    and f :: "int \<Rightarrow> int option"
    and allowed :: "bytes list \<Rightarrow> bytes \<Rightarrow> bool"
    and tick :: "int \<Rightarrow> bool"
    and J :: "bytes list \<Rightarrow> 's dstate \<Rightarrow> bool"
    and K :: "bytes list \<Rightarrow> 's dstate \<Rightarrow> bool"
  assumes J_init: "J [] d_init"
    and J_event: "d_ok c s \<Longrightarrow> J done s \<Longrightarrow> d_valid p \<Longrightarrow> p_kind p \<noteq> 14 \<Longrightarrow> allowed done p \<Longrightarrow>
      J (done @ [p]) (d_event c f p s)"
    and J_health: "J done s \<Longrightarrow> d_valid p \<Longrightarrow> p_kind p = 14 \<Longrightarrow> J (done @ [p]) (s\<lparr>d_log := logged\<rparr>)"
    and J_closed: "d_ok c s \<Longrightarrow> J done s \<Longrightarrow> map_of (d_buckets s) b = Some procs \<Longrightarrow> tick now \<Longrightarrow>
      b < cutoff c s \<or> silent c now s b \<Longrightarrow> J done (closed c (make_verdict c b procs sc) logged perm s)"
    and J_unseen: "J done s \<Longrightarrow> J done (s\<lparr>d_seen := dpop b (d_seen s)\<rparr>)"
    and J_seen: "J done s \<Longrightarrow> tick now \<Longrightarrow>
      J done (s\<lparr>d_seen := fold (\<lambda>b. dset b now) (d_chunk s) (d_seen s)\<rparr>)"
    and J_chunk: "J done s \<Longrightarrow> J done (s\<lparr>d_chunk := []\<rparr>)"
    and J_K: "J done s \<Longrightarrow> K done s"
    and K_closed: "d_ok c s \<Longrightarrow> K done s \<Longrightarrow> map_of (d_buckets s) b = Some procs \<Longrightarrow>
      K done (closed c (make_verdict c b procs sc) logged perm s)"
begin

definition inv :: "bytes list \<Rightarrow> 's dstate \<Rightarrow> bool" where
  "inv done s \<longleftrightarrow> d_ok c s \<and> J done s"

lemma inv_sweep:
  assumes "conf_ok c" and "inv done s" and "tick now" and "distinct bs"
    and "set bs \<subseteq> set (dkeys (d_buckets s))"
    and "\<And>t b. d_last t = d_last s \<Longrightarrow> P t b \<Longrightarrow> b < cutoff c t \<or> silent c now t b"
  shows "\<exists>s'. sweep c score stat P bs s = (s', None) \<and> inv done s' \<and> d_last s' = d_last s"
  using assms(2,4-6)
proof (induction bs arbitrary: s)
  case (Cons b bs)
  show ?case
  proof (cases "P s b")
    case True
    from Cons.prems(3) obtain procs where b: "map_of (d_buckets s) b = Some procs"
      by (metis list.set_intros(1) map_of_eq_None_iff not_None_eq set_map subsetD)
    from Cons.prems(1) have ok: "d_ok c s" "J done s" by (simp_all add: inv_def)
    from finalize_open [OF assms(1) ok(1) b] obtain sc logged perm where
      f: "finalize c score stat b s = (closed c (make_verdict c b procs sc) logged perm s, Inr ())" by blast
    let ?s = "closed c (make_verdict c b procs sc) logged perm s"
    let ?t = "?s\<lparr>d_seen := dpop b (d_seen ?s)\<rparr>"
    have "J done ?t" using J_closed [OF ok b assms(3) Cons.prems(4) [OF refl True]] J_unseen by blast
    moreover have "d_ok c ?t" using d_ok_closed [OF ok(1)] d_ok_cong [of ?t ?s] by simp
    ultimately have "inv done ?t" by (simp add: inv_def)
    moreover have "set bs \<subseteq> set (dkeys (d_buckets ?t))"
      using Cons.prems(2,3) by (auto simp: dkeys_dpop)
    ultimately obtain s' where "sweep c score stat P bs ?t = (s', None)" "inv done s'"
      "d_last s' = d_last ?t"
      using Cons.IH [of ?t] Cons.prems(2,4) by auto
    with True f show ?thesis by simp
  next
    case False
    with Cons show ?thesis by auto
  qed
qed simp

lemma inv_run:
  assumes "conf_ok c" and "inv done s" and "\<forall>p \<in> set ps. d_valid p"
    and "\<And>xs p ys. ps = xs @ p # ys \<Longrightarrow> p_kind p \<noteq> 14 \<Longrightarrow> allowed (done @ xs) p"
  shows "\<exists>s'. run_payloads (d_handle c f) s ps = (s', None) \<and> inv (done @ ps) s'"
  using assms(2-4)
proof (induction ps arbitrary: s "done")
  case (Cons p ps)
  have v: "d_valid p" using Cons.prems(2) by simp
  have w: "g_width c \<noteq> 0" using assms(1) by (simp add: conf_ok_def)
  obtain t where h: "d_handle c f s p (length p) = (t, Inr ())" and t: "inv (done @ [p]) t"
  proof (cases "p_kind p = 14")
    case True
    define logged where "logged = (if g_diag c
        then d_log s @ [DHealth (rd 8 p 0) (map (rd 8 p) [88, 96, 104, 112, 120])] else d_log s)"
    have "d_handle c f s p (length p) = (s\<lparr>d_log := logged\<rparr>, Inr ())"
      using d_handle_valid [OF v w, of f s] True by (simp add: logged_def)
    moreover have "inv (done @ [p]) (s\<lparr>d_log := logged\<rparr>)"
      using J_health [of "done" s p logged] v True Cons.prems(1) by (simp add: inv_def d_ok_def)
    ultimately show thesis by (rule that)
  next
    case False
    with Cons.prems(3) [of "[]" p ps] have "allowed done p" by simp
    with J_event v False Cons.prems(1) d_ok_event have "inv (done @ [p]) (d_event c f p s)"
      by (auto simp: inv_def)
    with that d_handle_valid [OF v w, of f s] False show thesis by simp
  qed
  have "\<And>xs q ys. ps = xs @ q # ys \<Longrightarrow> p_kind q \<noteq> 14 \<Longrightarrow> allowed ((done @ [p]) @ xs) q"
    using Cons.prems(3) [of "p # xs" q ys for xs q ys] by simp
  with Cons.IH [OF t] Cons.prems(2) h show ?case by auto
qed (simp add: inv_def)

lemma inv_close_due:
  assumes "conf_ok c" and "inv done s" and "tick now"
  shows "\<exists>s'. close_due c score stat now s = (s', None) \<and> inv done s'"
proof -
  let ?s = "s\<lparr>d_seen := fold (\<lambda>b. dset b now) (d_chunk s) (d_seen s)\<rparr>"
  have inv: "inv done ?s" using assms(2) J_seen [OF _ assms(3)] by (simp add: inv_def d_ok_def)
  then have d: "distinct (sort (dkeys (d_buckets ?s)))" by (simp add: inv_def d_ok_def dict_ok_def)
  from inv_sweep [OF assms(1) inv assms(3) d, of "\<lambda>t b. b < cutoff c s \<or> silent c now t b"]
  show ?thesis using assms(1) by (auto simp: close_due_def conf_ok_def Let_def cutoff_def)
qed

lemma inv_loop:
  assumes "conf_ok c" and "inv done s" and "buf @ bytes_of ins = concat (map frame_bytes ps)"
    and "starved buf ps" and "\<forall>p \<in> set ps. d_valid p" and "\<forall>i \<in> set ins. tick (now_of i)"
    and "\<And>xs p ys. ps = xs @ p # ys \<Longrightarrow> p_kind p \<noteq> 14 \<Longrightarrow> allowed (done @ xs) p"
  shows "\<exists>s'. d_loop c score stat f s buf ins = (s', [], None) \<and> inv (done @ ps) s'"
  using assms(2-7)
proof (induction ins arbitrary: s buf ps "done")
  case Nil
  then have "ps = []" by (cases ps) (auto simp: starved_def)
  with Nil.prems show ?case by simp
next
  case (Cons i ins)
  show ?case
  proof (cases i)
    case (Idle now)
    have d: "distinct (sort (dkeys (d_buckets s)))"
      using Cons.prems(1) by (simp add: inv_def d_ok_def dict_ok_def)
    have t: "tick now" using Cons.prems(5) Idle by simp
    from inv_sweep [OF assms(1) Cons.prems(1) t d, of "silent c now"] obtain s' where
      "sweep c score stat (silent c now) (sort (dkeys (d_buckets s))) s = (s', None)" "inv done s'" by auto
    with Cons.IH [of "done" s' buf ps] Cons.prems Idle show ?thesis by auto
  next
    case (Data chunk now)
    have t: "tick now" using Cons.prems(5) Data by simp
    have inv0: "inv done (s\<lparr>d_chunk := []\<rparr>)"
      using Cons.prems(1) J_chunk by (simp add: inv_def d_ok_def)
    have bytes: "(buf @ chunk) @ bytes_of ins = concat (map frame_bytes ps)"
      using Cons.prems(2) Data by simp
    have good: "\<forall>p \<in> set ps. d_accepts p \<and> fits 4 (int (length p))"
      using Cons.prems(4) d_valid_accepts by blast
    from dr.drain_prefix [OF bytes good, of c f "s\<lparr>d_chunk := []\<rparr>"] obtain qs rs s1 r e where dp:
      "ps = qs @ rs" "drain d_check (d_handle c f) (s\<lparr>d_chunk := []\<rparr>) (buf @ chunk) = (s1, r, e)"
      "run_payloads (d_handle c f) (s\<lparr>d_chunk := []\<rparr>) qs = (s1, e)"
      "e = None \<longrightarrow> r @ bytes_of ins = concat (map frame_bytes rs) \<and> starved r rs" by blast
    have "\<And>xs p ys. qs = xs @ p # ys \<Longrightarrow> p_kind p \<noteq> 14 \<Longrightarrow> allowed (done @ xs) p"
      using Cons.prems(6) dp(1) by simp
    with inv_run [OF assms(1) inv0, of qs] Cons.prems(4) dp(1,3)
    have e: "e = None" and inv1: "inv (done @ qs) s1" by auto
    from inv_close_due [OF assms(1) inv1 t] obtain s2 where
      s2: "close_due c score stat now s1 = (s2, None)" "inv (done @ qs) s2" by blast
    have "\<And>xs p ys. rs = xs @ p # ys \<Longrightarrow> p_kind p \<noteq> 14 \<Longrightarrow> allowed ((done @ qs) @ xs) p"
      using Cons.prems(6) [of "qs @ xs" p ys for xs p ys] dp(1) by simp
    with Cons.IH [OF s2(2), of r rs] dp(1,4) e Cons.prems(4,5) obtain s' where
      "d_loop c score stat f s2 r ins = (s', [], None)" "inv ((done @ qs) @ rs) s'" by auto
    with Data dp(1,2) e s2(1) show ?thesis by simp
  qed
qed

lemma inv_finalize_all:
  assumes "conf_ok c" and "d_ok c s" and "K done s" and "distinct bs"
    and "set bs \<subseteq> set (dkeys (d_buckets s))"
  shows "\<exists>s'. finalize_all c score stat bs s = (s', None) \<and> d_ok c s' \<and> K done s'
    \<and> set (dkeys (d_buckets s')) = set (dkeys (d_buckets s)) - set bs"
  using assms(2-5)
proof (induction bs arbitrary: s)
  case (Cons b bs)
  from Cons.prems(4) obtain procs where b: "map_of (d_buckets s) b = Some procs"
    by (metis list.set_intros(1) map_of_eq_None_iff not_None_eq set_map subsetD)
  from finalize_open [OF assms(1) Cons.prems(1) b] obtain sc logged perm where
    f: "finalize c score stat b s = (closed c (make_verdict c b procs sc) logged perm s, Inr ())" by blast
  let ?s = "closed c (make_verdict c b procs sc) logged perm s"
  have "d_ok c ?s" "K done ?s"
    using d_ok_closed [OF Cons.prems(1)] K_closed [OF Cons.prems(1,2) b] by blast+
  moreover have "set bs \<subseteq> set (dkeys (d_buckets ?s))" using Cons.prems(3,4) by (auto simp: dkeys_dpop)
  ultimately obtain s' where "finalize_all c score stat bs ?s = (s', None)" "d_ok c s'" "K done s'"
    "set (dkeys (d_buckets s')) = set (dkeys (d_buckets ?s)) - set bs"
    using Cons.IH [of ?s] Cons.prems(3) by auto
  with f show ?case by (auto simp: dkeys_dpop)
qed simp

text \<open>The whole run: it ends normally, with every bucket closed.\<close>

lemma run_property:
  assumes "conf_ok c" and "bytes_of ins = concat (map frame_bytes ps)" and "\<forall>p \<in> set ps. d_valid p"
    and "\<forall>i \<in> set ins. tick (now_of i)"
    and "\<And>xs p ys. ps = xs @ p # ys \<Longrightarrow> p_kind p \<noteq> 14 \<Longrightarrow> allowed xs p"
  shows "\<exists>s. detect_run c score stat f ins intr = (s, None) \<and> K ps s \<and> d_buckets s = []"
proof -
  have "inv [] d_init" using J_init by (simp add: inv_def d_ok_def d_init_def)
  moreover have "starved [] ps" by (simp add: starved_def split: list.splits)
  ultimately obtain s where s: "d_loop c score stat f d_init [] ins = (s, [], None)" "inv ps s"
    using inv_loop [OF assms(1), of "[]" d_init "[]" ins ps, where score = score and stat = stat] assms(2-5)
    by auto
  then have ok: "d_ok c s" "K ps s" using J_K by (auto simp: inv_def)
  from ok(1) have "distinct (sort (dkeys (d_buckets s)))" by (simp add: d_ok_def dict_ok_def)
  from inv_finalize_all [OF assms(1) ok this] obtain s' where
    "finalize_all c score stat (sort (dkeys (d_buckets s))) s = (s', None)" "K ps s'"
    "set (dkeys (d_buckets s')) = {}" by auto
  with s(1) show ?thesis by (auto simp: detect_run_def)
qed

end

end
