(* ===== verification/Detect_Claims.thy ===== *)
theory Detect_Claims
  imports Detect_Lemmas
begin

section \<open>What the detector guarantees\<close>

declare split_paired_All [simp del] split_paired_Ex [simp del]

subsection \<open>Counting\<close>












subsection \<open>One verdict per bucket\<close>














subsection \<open>Samples\<close>








subsection \<open>Claims\<close>





end
