(* ===== verification/Dataset.thy ===== *)
theory Dataset
  imports Py_Parse EBPF_Prelude "HOL-Library.List_Lexorder" "HOL-Library.Product_Lexorder"
begin

section \<open>The offline dataset: \<open>build_event_time_dataset.py\<close>\<close>

text \<open>
  The diagnostic records of the detector, one per bucket of a second, are labelled with the intervals
  of a session timeline and become the rows of a dataset.  A log line is what \<open>json.loads\<close> makes of
  it: the parser is a parameter, and of a record only the fields that the code reads are kept, each
  with whether it is there and an integer.
\<close>

subsection \<open>Data\<close>

definition BUCKET_NS :: int where
  "BUCKET_NS = 1000000000"

type_synonym ival = "int \<times> int \<times> pystr \<times> pystr"

datatype jfield = Absent | IntF int | OtherF

text \<open>
  \<open>j_features\<close> is the array of the features, none where \<open>np.asarray\<close> raises or the field is missing.
\<close>

record 'f djson =
  j_type :: pystr
  j_timestamp :: jfield
  j_bucket :: jfield
  j_first :: jfield
  j_last :: jfield
  j_features :: "'f list option"

datatype 'f jparsed = NoJson | NoDict | Dict "'f djson"

record 'f bstate =
  bs_buckets :: "(int, 'f djson) pydict"
  bs_dups :: "int list"
  bs_early :: "int option"
  bs_late :: "int option"
  bs_counts :: "string counter"

definition bs_init :: "'f bstate" where
  "bs_init = \<lparr>bs_buckets = [], bs_dups = [], bs_early = None, bs_late = None, bs_counts = []\<rparr>"

definition bump :: "string \<Rightarrow> 'f bstate \<Rightarrow> 'f bstate" where
  "bump k s = s\<lparr>bs_counts := cadd k 1 (bs_counts s)\<rparr>"

subsection \<open>The timeline\<close>

definition rstrip_eol :: "pystr \<Rightarrow> pystr" where
  "rstrip_eol l = rev (dropWhile (\<lambda>c. c = 10 \<or> c = 13) (rev l))"

fun timeline_lines :: "pystr list \<Rightarrow> ival list res" where
  "timeline_lines [] = Inr []"
| "timeline_lines (l # ls) =
     (if strip l = [] then timeline_lines ls
      else let f = split_on 9 (rstrip_eol l) in
        if length f \<noteq> 4 then Inl (ValueError ''expected start_ns, end_ns, class, unit'')
        else (case (parse_int (f ! 0), parse_int (f ! 1)) of
            (Inr start, Inr stop) \<Rightarrow>
              (if start < 0 \<or> stop \<le> start \<or> f ! 2 = [] \<or> f ! 3 = []
               then Inl (ValueError ''invalid interval or label'')
               else bind_res (timeline_lines ls) (\<lambda>is. Inr ((start, stop, f ! 2, f ! 3) # is)))
          | _ \<Rightarrow> Inl (ValueError ''invalid timestamp'')))"

definition read_timeline :: "pystr \<Rightarrow> ival list res" where
  "read_timeline text = bind_res (timeline_lines (file_lines text)) (\<lambda>is. Inr (sort is))"

subsection \<open>The diagnostic logs\<close>

definition widen :: "int \<times> int \<Rightarrow> 'f bstate \<Rightarrow> 'f bstate" where
  "widen b s = s\<lparr>bs_early := Some (case bs_early s of None \<Rightarrow> fst b | Some e \<Rightarrow> min e (fst b)),
     bs_late := Some (case bs_late s of None \<Rightarrow> snd b | Some l \<Rightarrow> max l (snd b))\<rparr>"

text \<open>The bounds of the events of a bucket where they are valid, else its start.\<close>

definition bucket_bounds :: "int \<Rightarrow> 'f djson \<Rightarrow> int \<times> int" where
  "bucket_bounds start r =
    (case (j_first r, j_last r) of
       (IntF a, IntF b) \<Rightarrow> (if start \<le> a \<and> a \<le> b \<and> b < start + BUCKET_NS then (a, b) else (start, start))
     | _ \<Rightarrow> (start, start))"

definition read_record :: "'f djson \<Rightarrow> 'f bstate \<Rightarrow> 'f bstate res" where
  "read_record r s =
    (if j_type r = ucode ''health'' then
       Inr (case j_timestamp r of
           IntF t \<Rightarrow> (if 0 \<le> t then widen (t, t) (bump ''health_records'' s) else bump ''health_records'' s)
         | _ \<Rightarrow> bump ''health_records'' s)
     else if j_type r = ucode ''bucket'' then
       (case j_bucket r of
          IntF start \<Rightarrow>
            (if start < 0 \<or> start mod BUCKET_NS \<noteq> 0 then Inl (ValueError ''invalid bucket_ns'')
             else let s1 = bump ''bucket_records'' s;
                 s2 = (if start \<in> set (dkeys (bs_buckets s1))
                   then (bump ''duplicate_buckets'' s1)\<lparr>bs_dups := List.insert start (bs_dups s1)\<rparr> else s1)
               in Inr (widen (bucket_bounds start r) (s2\<lparr>bs_buckets := dset start r (bs_buckets s2)\<rparr>)))
        | _ \<Rightarrow> Inl (ValueError ''invalid bucket_ns''))
     else Inr (bump ''other_records'' s))"

text \<open>
  The lines of a log; the last line of a log that is being written may be no JSON yet.
\<close>

fun read_lines :: "(pystr \<Rightarrow> 'f jparsed) \<Rightarrow> pystr list \<Rightarrow> 'f bstate \<Rightarrow> 'f bstate res" where
  "read_lines loads [] s = Inr s"
| "read_lines loads (l # ls) s =
     (if strip l = [] then read_lines loads ls s
      else (case loads l of
          NoJson \<Rightarrow> (if last l = 10 then Inl (ValueError ''JSON'')
            else read_lines loads ls (bump ''truncated_final_lines'' s))
        | NoDict \<Rightarrow> Inl (ValueError ''JSON record must be an object'')
        | Dict r \<Rightarrow> bind_res (read_record r s) (read_lines loads ls)))"

text \<open>
  The rotation chain from the oldest log on, each with its identity before, at and after the opening.
\<close>

record logfile =
  lf_before :: "int \<times> int"
  lf_opened :: "int \<times> int"
  lf_current :: "int \<times> int"
  lf_text :: pystr

definition read_buckets :: "(pystr \<Rightarrow> 'f jparsed) \<Rightarrow> logfile list \<Rightarrow> 'f bstate res" where
  "read_buckets loads logs =
    (if logs = [] then Inl OSErr
     else if list_ex (\<lambda>g. lf_opened g \<noteq> lf_before g \<or> lf_current g \<noteq> lf_before g) logs
     then Inl (ValueError ''diagnostic logs rotated while opening; retry session'')
     else fold (\<lambda>g r. bind_res r (read_lines loads (file_lines (lf_text g)))) logs (Inr bs_init))"

subsection \<open>Labelling the buckets\<close>

definition bucket_span :: "int \<Rightarrow> 'f djson \<Rightarrow> (int \<times> int) res" where
  "bucket_span start r =
    (if j_first r \<noteq> Absent \<or> j_last r \<noteq> Absent then
       (case (j_first r, j_last r) of
          (IntF a, IntF b) \<Rightarrow> (if start \<le> a \<and> a \<le> b \<and> b < start + BUCKET_NS then Inr (a, b + 1)
            else Inl (ValueError ''invalid event bounds''))
        | _ \<Rightarrow> Inl (ValueError ''invalid event bounds''))
     else Inr (start, start + BUCKET_NS))"

definition check_features :: "('f \<Rightarrow> bool) \<Rightarrow> 'f djson \<Rightarrow> 'f list res" where
  "check_features finite_f r =
    (case j_features r of
       None \<Rightarrow> Inl (ValueError ''invalid features'')
     | Some row \<Rightarrow> if length row = 31 \<and> list_all finite_f row then Inr row
         else Inl (ValueError ''expected 31 finite float32 features''))"

datatype placing = Unlabeled | Mixed | Boundary | Unknown | Keep ival

definition left :: "ival \<Rightarrow> int" where
  "left i = fst i"

definition right :: "ival \<Rightarrow> int" where
  "right i = fst (snd i)"

definition class_of :: "ival \<Rightarrow> pystr" where
  "class_of i = fst (snd (snd i))"

definition unit_name_of :: "ival \<Rightarrow> pystr" where
  "unit_name_of i = snd (snd (snd i))"

definition overlaps :: "int \<times> int \<Rightarrow> ival \<Rightarrow> bool" where
  "overlaps span i \<longleftrightarrow> left i < snd span \<and> fst span < right i"

definition classes :: "pystr list" where
  "classes = map ucode [''normal'', ''attack'', ''precursor'']"

text \<open>The place of a span among a list of intervals.\<close>

definition placing_of :: "ival list \<Rightarrow> int \<times> int \<Rightarrow> placing" where
  "placing_of is span =
    (case filter (overlaps span) is of
       [] \<Rightarrow> Unlabeled
     | [i] \<Rightarrow> (if fst span < left i \<or> right i < snd span then Boundary
         else if class_of i \<notin> set classes then Unknown else Keep i)
     | _ \<Rightarrow> Mixed)"

text \<open>
  The sweep over the buckets in ascending order: the intervals that end are dropped from the active
  ones, and those that start before the end of the bucket are added.
\<close>

definition advance :: "ival list \<Rightarrow> int \<Rightarrow> ival list \<times> nat \<Rightarrow> ival list \<times> nat" where
  "advance is start a =
    (let new = takeWhile (\<lambda>i. left i < start + BUCKET_NS) (drop (snd a) is)
     in (filter (\<lambda>i. start < right i) (fst a) @ new, snd a + length new))"

record 'f drow =
  dr_features :: "'f list"
  dr_start :: int
  dr_label :: pystr
  dr_technique :: pystr
  dr_interval :: ival

definition make_row :: "'f list \<Rightarrow> int \<Rightarrow> ival \<Rightarrow> 'f drow" where
  "make_row row start i =
    (let u = unit_name_of i; t = (if starts_with u (ucode ''t_'') then drop 2 u else u) in
     \<lparr>dr_features = row, dr_start = start,
      dr_label = ucode (if class_of i = ucode ''attack'' then ''attack'' else ''normal''),
      dr_technique = (if class_of i = ucode ''precursor'' then ucode ''precursor:'' @ t else t),
      dr_interval = i\<rparr>)"

fun placing_key :: "placing \<Rightarrow> string" where
  "placing_key Unlabeled = ''skipped_unlabeled''"
| "placing_key Mixed = ''skipped_mixed''"
| "placing_key Boundary = ''skipped_boundary''"
| "placing_key Unknown = ''skipped_unknown''"
| "placing_key (Keep i) = (if class_of i = ucode ''normal'' then ''normal''
     else if class_of i = ucode ''attack'' then ''attack'' else ''precursor'')"

fun label_loop :: "('f \<Rightarrow> bool) \<Rightarrow> ival list \<Rightarrow> int list \<Rightarrow> (int \<times> 'f djson) list \<Rightarrow> ival list \<times> nat
    \<Rightarrow> string counter \<Rightarrow> ('f drow list \<times> string counter) res" where
  "label_loop fin is dups [] a counts = Inr ([], counts)"
| "label_loop fin is dups ((start, r) # bs) a counts =
     (if start \<in> set dups then label_loop fin is dups bs a (cadd ''skipped_duplicate'' 1 counts)
      else bind_res (check_features fin r) (\<lambda>row. bind_res (bucket_span start r) (\<lambda>span.
        let a' = advance is start a; p = placing_of (fst a') span;
            rest = label_loop fin is dups bs a' (cadd (placing_key p) 1 counts)
        in (case p of
             Keep i \<Rightarrow> bind_res rest (\<lambda>(rows, c). Inr (make_row row start i # rows, c))
           | _ \<Rightarrow> rest))))"

record 'f built =
  bt_rows :: "'f drow list"
  bt_counts :: "string counter"
  bt_buckets :: nat
  bt_intervals :: nat
  bt_missing :: "pystr list"
  bt_early :: "int option"
  bt_late :: "int option"

definition sorted_items :: "(int, 'v) pydict \<Rightarrow> (int \<times> 'v) list" where
  "sorted_items d = sort_key fst d"

text \<open>
  \<open>build\<close>: the coverage that is required, the timeline, the rows, and the statistics, with the units
  of the timeline that no row is from.
\<close>

definition build_dataset :: "('f \<Rightarrow> bool) \<Rightarrow> (pystr \<Rightarrow> 'f jparsed) \<Rightarrow> logfile list \<Rightarrow> pystr
    \<Rightarrow> int option \<Rightarrow> int option \<Rightarrow> 'f built res" where
  "build_dataset fin loads logs timeline before after =
     bind_res (read_buckets loads logs) (\<lambda>s.
       if before \<noteq> None \<and> (bs_early s = None \<or> the before < the (bs_early s))
       then Inl (ValueError ''diagnostic coverage starts too late'')
       else if after \<noteq> None \<and> (bs_late s = None \<or> the (bs_late s) < the after)
       then Inl (ValueError ''diagnostic coverage ends too early'')
       else bind_res (read_timeline timeline) (\<lambda>is.
         bind_res (label_loop fin is (bs_dups s) (sorted_items (bs_buckets s)) ([], 0) (bs_counts s))
           (\<lambda>(rows, counts). Inr \<lparr>bt_rows = rows, bt_counts = counts,
              bt_buckets = length (bs_buckets s), bt_intervals = length is,
              bt_missing = sort (remdups (filter (\<lambda>u. u \<notin> set (map (unit_name_of \<circ> dr_interval) rows))
                (map unit_name_of is))),
              bt_early = bs_early s, bt_late = bs_late s\<rparr>)))"

end
