(* ===== verification/Dataset_Claims.thy ===== *)
theory Dataset_Claims
  imports Dataset
begin

section \<open>The sweep against all intervals\<close>

text \<open>
  The specification places each bucket among all intervals of the timeline; the sweep keeps only the
  active ones.  For sorted intervals and ascending buckets both give the same rows.
\<close>

declare split_paired_All [simp del] split_paired_Ex [simp del]

text \<open>What the active list has to hold: the seen intervals that end after a later point.\<close>

definition active_ok :: "ival list \<Rightarrow> int \<Rightarrow> ival list \<times> nat \<Rightarrow> bool" where
  "active_ok is t a \<longleftrightarrow> (\<forall>s \<ge> t. filter (\<lambda>i. s < right i) (fst a)
      = filter (\<lambda>i. s < right i) (take (snd a) is))"

lemma active_ok_advance:
  assumes "active_ok is t a" and "t \<le> start"
  shows "active_ok is start (advance is start a)"
proof -
  let ?new = "takeWhile (\<lambda>i. left i < start + BUCKET_NS) (drop (snd a) is)"
  have "take (length ?new) (drop (snd a) is) = ?new" by (rule takeWhile_eq_take [symmetric])
  then have "take (snd a + length ?new) is = take (snd a) is @ ?new" by (simp only: take_add)
  moreover have "filter (\<lambda>i. s < right i) (filter (\<lambda>i. start < right i) (fst a))
      = filter (\<lambda>i. s < right i) (take (snd a) is)" if "start \<le> s" for s
  proof -
    have "(\<lambda>i. start < right i \<and> s < right i) = (\<lambda>i. s < right i)" using that by auto
    then have "filter (\<lambda>i. s < right i) (filter (\<lambda>i. start < right i) (fst a))
        = filter (\<lambda>i. s < right i) (fst a)" by (simp add: conj_commute)
    with assms that show ?thesis by (simp add: active_ok_def)
  qed
  ultimately show ?thesis by (simp add: active_ok_def advance_def Let_def)
qed

lemma later_starts:
  assumes "sorted (map left is)" and "i \<in> set (drop (n + length (takeWhile (\<lambda>i. left i < x) (drop n is))) is)"
  shows "x \<le> left i"
proof -
  let ?ws = "drop n is" and ?P = "\<lambda>i. left i < x"
  have d: "drop (n + length (takeWhile ?P ?ws)) is = dropWhile ?P ?ws"
    by (simp add: dropWhile_eq_drop add.commute)
  with assms(2) obtain j js where ds: "dropWhile ?P ?ws = j # js" by (cases "dropWhile ?P ?ws") auto
  then have "\<not> ?P j" by (metis hd_dropWhile list.distinct(1) list.sel(1))
  moreover have "sorted (map left (dropWhile ?P ?ws))"
    using assms(1) by (simp add: dropWhile_eq_drop drop_map [symmetric] sorted_wrt_drop)
  ultimately show ?thesis using assms(2) ds d by auto
qed

lemma placing_advance:
  assumes "sorted (map left is)" and "active_ok is t a" and "t \<le> start"
    and "start \<le> fst span" and "snd span \<le> start + BUCKET_NS"
  shows "placing_of (fst (advance is start a)) span = placing_of is span"
proof -
  let ?a = "advance is start a"
  let ?n = "snd ?a"
  have ok: "filter (\<lambda>i. fst span < right i) (fst ?a) = filter (\<lambda>i. fst span < right i) (take ?n is)"
    using active_ok_advance [OF assms(2,3)] assms(4) by (simp add: active_ok_def)
  have ov: "filter (overlaps span) xs = filter (\<lambda>i. left i < snd span) (filter (\<lambda>i. fst span < right i) xs)" for xs
    by (induction xs) (auto simp: overlaps_def)
  have "\<not> overlaps span i" if "i \<in> set (drop ?n is)" for i
    using later_starts [OF assms(1), of i "snd a" "start + BUCKET_NS"] that assms(5)
    by (simp add: advance_def Let_def overlaps_def)
  then have "filter (overlaps span) (drop ?n is) = []" by (simp add: filter_empty_conv)
  then have "filter (overlaps span) is = filter (overlaps span) (take ?n is)"
    by (metis append_Nil2 append_take_drop_id filter_append)
  also have "\<dots> = filter (overlaps span) (fst ?a)" using ok by (simp add: ov)
  finally show ?thesis by (simp add: placing_of_def)
qed

lemma bucket_span_within:
  "bucket_span start r = Inr span \<Longrightarrow> start \<le> fst span \<and> fst span < snd span \<and> snd span \<le> start + BUCKET_NS"
  by (auto simp: bucket_span_def BUCKET_NS_def split: if_splits jfield.splits)

definition naive_rows :: "('f \<Rightarrow> bool) \<Rightarrow> ival list \<Rightarrow> int list \<Rightarrow> int \<times> 'f djson \<Rightarrow> 'f drow list" where
  "naive_rows fin is dups b =
    (if fst b \<in> set dups then []
     else (case (check_features fin (snd b), bucket_span (fst b) (snd b)) of
         (Inr row, Inr span) \<Rightarrow> (case placing_of is span of Keep i \<Rightarrow> [make_row row (fst b) i] | _ \<Rightarrow> [])
       | _ \<Rightarrow> []))"

lemma label_loop_naive:
  assumes "sorted (map left is)" and "sorted (map fst bs)" and "active_ok is t a"
    and "\<forall>b \<in> set bs. t \<le> fst b" and "label_loop fin is dups bs a counts = Inr (rows, counts')"
  shows "rows = concat (map (naive_rows fin is dups) bs)"
  using assms(2-5)
proof (induction bs arbitrary: t a counts rows)
  case (Cons b bs)
  obtain start r where b: "b = (start, r)" by fastforce
  show ?case
  proof (cases "start \<in> set dups")
    case True
    with Cons.prems b Cons.IH [of t a] show ?thesis by (simp add: naive_rows_def)
  next
    case False
    with Cons.prems(4) b obtain row span where rs: "check_features fin r = Inr row"
      "bucket_span start r = Inr span" by (auto simp: bind_res_Inr)
    let ?a = "advance is start a"
    define p where "p = placing_of (fst ?a) span"
    have t: "t \<le> start" using Cons.prems(3) b by simp
    have ok: "active_ok is start ?a" using active_ok_advance [OF Cons.prems(2) t] .
    have p': "p = placing_of is span"
      unfolding p_def using placing_advance [OF assms(1) Cons.prems(2) t] bucket_span_within [OF rs(2)]
      by blast
    have later: "sorted (map fst bs)" "\<forall>b \<in> set bs. start \<le> fst b" using Cons.prems(1) b by auto
    from Cons.prems(4) b rs False obtain rest where
      l: "label_loop fin is dups bs ?a (cadd (placing_key p) 1 counts) = Inr (rest, counts')"
      "rows = (case p of Keep i \<Rightarrow> make_row row start i # rest | _ \<Rightarrow> rest)"
      by (cases p) (auto simp: p_def [symmetric] Let_def bind_res_Inr)
    from Cons.IH [OF later(1) ok later(2) l(1)] l(2) b rs False p' show ?thesis
      by (auto simp: naive_rows_def split: placing.splits)
  qed
qed simp

lemma sorted_lefts: "sorted (is :: ival list) \<Longrightarrow> sorted (map left is)"
  by (induction "is") (auto simp: less_eq_prod_def left_def)

text \<open>
  C26. A bucket becomes a row exactly when one interval of the whole timeline overlaps its events and
  covers them: the rows of the dataset are, in the order of the buckets, those of the buckets that
  are no duplicates and whose span lies in its only overlapping interval, with a known class; the
  sweep with active intervals loses and adds nothing.
\<close>

theorem rows_have_one_interval:
  assumes "build_dataset fin loads logs timeline before after = Inr b"
    and "read_buckets loads logs = Inr s" and "read_timeline timeline = Inr is"
  shows "bt_rows b = concat (map (naive_rows fin is (bs_dups s)) (sorted_items (bs_buckets s)))
    \<and> (\<forall>i span. placing_of is span = Keep i \<longleftrightarrow> filter (overlaps span) is = [i]
        \<and> left i \<le> fst span \<and> snd span \<le> right i \<and> class_of i \<in> set classes)"
proof -
  from assms obtain rows counts where
    l: "label_loop fin is (bs_dups s) (sorted_items (bs_buckets s)) ([], 0) (bs_counts s) = Inr (rows, counts)"
    and b: "bt_rows b = rows"
    by (auto simp: build_dataset_def bind_res_Inr split: if_splits)
  let ?bs = "sorted_items (bs_buckets s)"
  have sorted: "sorted (map left is)"
    using assms(3) by (auto simp: read_timeline_def bind_res_Inr intro: sorted_lefts)
  have asc: "sorted (map fst ?bs)" by (simp add: sorted_items_def)
  define t where "t = (case ?bs of [] \<Rightarrow> 0 | x # _ \<Rightarrow> fst x)"
  have t: "\<forall>x \<in> set ?bs. t \<le> fst x" using asc by (cases ?bs) (auto simp: t_def)
  have "active_ok is t ([], 0)" by (simp add: active_ok_def)
  from label_loop_naive [OF sorted asc this t l]
  have "rows = concat (map (naive_rows fin is (bs_dups s)) ?bs)" .
  moreover have "placing_of is span = Keep i \<longleftrightarrow> filter (overlaps span) is = [i]
        \<and> left i \<le> fst span \<and> snd span \<le> right i \<and> class_of i \<in> set classes" for i span
    by (auto simp: placing_of_def split: list.splits)
  ultimately show ?thesis using b by blast
qed

definition sample_loads :: "pystr \<Rightarrow> int jparsed" where
  "sample_loads l = Dict \<lparr>j_type = ucode ''bucket'', j_timestamp = Absent, j_bucket = IntF 2000000000,
     j_first = IntF 2000000005, j_last = IntF 2000000009, j_features = Some (replicate 31 0)\<rparr>"

definition sample_log :: logfile where
  "sample_log = \<lparr>lf_before = (1, 2), lf_opened = (1, 2), lf_current = (1, 2), lf_text = [123, 10]\<rparr>"

definition sample_times :: pystr where
  "sample_times = ucode ''2000000000'' @ [9] @ ucode ''2000000010'' @ [9] @ ucode ''attack'' @ [9]
     @ ucode ''t_scan'' @ [10]"

theorem rows_have_one_interval_witness:
  "\<exists>b. build_dataset (\<lambda>_. True) sample_loads [sample_log] sample_times None None = Inr b
    \<and> map dr_technique (bt_rows b) = [ucode ''scan'']"
proof -
  have "\<not> isl (build_dataset (\<lambda>_. True) sample_loads [sample_log] sample_times None None)"
    "\<not> isl (read_buckets sample_loads [sample_log])" "\<not> isl (read_timeline sample_times)" by code_simp+
  then obtain b s i where r: "build_dataset (\<lambda>_. True) sample_loads [sample_log] sample_times None None = Inr b"
    "read_buckets sample_loads [sample_log] = Inr s" "read_timeline sample_times = Inr i"
    by (metis isl_def sum.exhaust)
  have "map dr_technique (concat (map (naive_rows (\<lambda>_. True) (projr (read_timeline sample_times))
      (bs_dups (projr (read_buckets sample_loads [sample_log]))))
      (sorted_items (bs_buckets (projr (read_buckets sample_loads [sample_log])))))) = [ucode ''scan'']"
    by code_simp
  with rows_have_one_interval [OF r] r show ?thesis by auto
qed

end
