(* ===== verification/Decode_Types.thy ===== *)
theory Decode_Types
  imports Decode_Events
begin

section \<open>The types of the decoded events\<close>

text \<open>
  Every event that the decoder yields, from whatever bytes, has the variant of its kind, integers
  within the widths of the C structure, and texts of Unicode scalar values of a bounded length.
\<close>

declare split_paired_All [simp del] split_paired_Ex [simp del]

subsection \<open>Texts\<close>

definition text_ok :: "nat \<Rightarrow> pystr \<Rightarrow> bool" where
  "text_ok n s \<longleftrightarrow> length s \<le> 4 * n \<and> (\<forall>c \<in> set s. is_scalar c \<and> c \<noteq> 0)"

lemma scalar3:
  assumes "224 \<le> b" "b \<le> 239" "second3 b c" "cont d" "cp = (b - 224) * 4096 + (c - 128) * 64 + (d - 128)"
  shows "is_scalar cp \<and> cp \<noteq> 0"
proof -
  have c: "128 \<le> c" "c \<le> 191" "128 \<le> d" "d \<le> 191" "b = 224 \<Longrightarrow> 160 \<le> c" "b = 237 \<Longrightarrow> c \<le> 159"
    using assms by (auto simp: cont_def second3_def)
  consider "b = 224" | "225 \<le> b" "b \<le> 236" | "b = 237" | "238 \<le> b" using assms(1) by linarith
  then show ?thesis
  proof cases
    case 1
    then show ?thesis using c assms(5) by (simp add: is_scalar_def)
  next
    case 2
    then show ?thesis using c(1-4) assms(5) by (simp add: is_scalar_def)
  next
    case 3
    then show ?thesis using c assms(5) by (simp add: is_scalar_def)
  next
    case 4
    then show ?thesis using c(1-4) assms(2,5) by (simp add: is_scalar_def)
  qed
qed

lemma scalar4:
  assumes "240 \<le> b" "b \<le> 244" "second4 b c" "cont d" "cont e"
    "cp = (b - 240) * 262144 + (c - 128) * 4096 + (d - 128) * 64 + (e - 128)"
  shows "is_scalar cp \<and> cp \<noteq> 0"
proof -
  have c: "128 \<le> c" "c \<le> 191" "128 \<le> d" "d \<le> 191" "128 \<le> e" "e \<le> 191"
    "b = 240 \<Longrightarrow> 144 \<le> c" "b = 244 \<Longrightarrow> c \<le> 143"
    using assms by (auto simp: cont_def second4_def)
  consider "b = 240" | "241 \<le> b" "b \<le> 243" | "b = 244" using assms(1,2) by linarith
  then show ?thesis
  proof cases
    case 1
    then show ?thesis using c assms(6) by (simp add: is_scalar_def)
  next
    case 2
    then show ?thesis using c(1-6) assms(6) by (simp add: is_scalar_def)
  next
    case 3
    then show ?thesis using c assms(6) by (simp add: is_scalar_def)
  qed
qed

lemma utf8_step_scalar:
  assumes "utf8_step bs = (Some cp, n)" and "\<forall>b \<in> set bs. 0 < b \<and> b < 256"
  shows "is_scalar cp \<and> cp \<noteq> 0"
proof (cases bs)
  case (Cons b rest)
  consider "b < 128" | "194 \<le> b" "b \<le> 223" | "224 \<le> b" "b \<le> 239" | "240 \<le> b" "b \<le> 244"
    using assms(1) Cons by (auto simp: utf8_step.simps split: if_splits)
  then show ?thesis
  proof cases
    case 1
    then show ?thesis using assms Cons by (auto simp: utf8_step.simps is_scalar_def)
  next
    case 2
    then show ?thesis using assms Cons
      by (auto simp: utf8_step.simps cont_def is_scalar_def split: if_splits list.splits)
  next
    case 3
    then obtain c d where "second3 b c" "cont d" "cp = (b - 224) * 4096 + (c - 128) * 64 + (d - 128)"
      using assms(1) Cons by (auto simp: utf8_step.simps split: if_splits list.splits)
    then show ?thesis using scalar3 3 by blast
  next
    case 4
    then obtain c d e where "second4 b c" "cont d" "cont e"
      "cp = (b - 240) * 262144 + (c - 128) * 4096 + (d - 128) * 64 + (e - 128)"
      using assms(1) Cons by (auto simp: utf8_step.simps split: if_splits list.splits)
    then show ?thesis using scalar4 4 by blast
  qed
qed (use assms in \<open>simp add: utf8_step.simps\<close>)

lemma on_backslash_ok:
  assumes "\<forall>b \<in> set bs. 0 < b \<and> b < (256 :: int)"
  shows "text_ok (length bs) (on_backslash bs)"
proof -
  have "is_scalar (hex_digit d) \<and> hex_digit d \<noteq> 0" if "0 \<le> d" "d < 16" for d
    using that by (auto simp: hex_digit_def is_scalar_def)
  moreover have "0 \<le> b div 16 \<and> b div 16 < 16 \<and> 0 \<le> b mod 16 \<and> b mod 16 < 16" if "b \<in> set bs" for b
    using assms that by auto
  moreover have "is_scalar 92" "is_scalar 120" by (simp_all add: is_scalar_def)
  ultimately have "\<forall>c \<in> set (on_backslash bs). is_scalar c \<and> c \<noteq> 0" by (auto simp: on_backslash_def)
  moreover have "length (on_backslash bs) = 4 * length bs" by (induction bs) (auto simp: on_backslash_def)
  ultimately show ?thesis by (simp add: text_ok_def)
qed

lemma text_ok_append: "text_ok m s \<Longrightarrow> text_ok n t \<Longrightarrow> m + n \<le> k \<Longrightarrow> text_ok k (s @ t)"
  by (auto simp: text_ok_def)

lemma utf8_decode_ok:
  "\<forall>b \<in> set bs. 0 < b \<and> b < 256 \<Longrightarrow> text_ok (length bs) (utf8_decode on_backslash bs)"
proof (induction "on_backslash" bs rule: utf8_decode.induct)
  case (2 b bs)
  let ?bs = "b # bs"
  obtain r n where rn: "utf8_step ?bs = (r, n)" by fastforce
  have n: "0 < n" by (rule utf8_step_pos [OF rn])
  have rest: "\<forall>x \<in> set (drop n ?bs). 0 < x \<and> x < 256" "\<forall>x \<in> set (take n ?bs). 0 < x \<and> x < 256"
    using "2.prems" by (meson in_set_dropD, meson in_set_takeD)
  show ?case
  proof (cases r)
    case None
    have "text_ok (length (drop n ?bs)) (utf8_decode on_backslash (drop n ?bs))"
      using "2.hyps" [OF rn [symmetric]] None rest by (auto simp del: drop_Cons')
    from text_ok_append [OF on_backslash_ok [OF rest(2)] this, of "length ?bs"] None rn show ?thesis
      by (simp del: drop_Cons' take_Cons')
  next
    case (Some cp)
    have "text_ok (length (drop n ?bs)) (utf8_decode on_backslash (drop n ?bs))"
      using "2.hyps" [OF rn [symmetric]] Some rest by (auto simp del: drop_Cons')
    moreover have "text_ok 1 [cp]"
      using utf8_step_scalar [of ?bs cp n] rn Some "2.prems" by (simp add: text_ok_def)
    ultimately have "text_ok (length ?bs) ([cp] @ utf8_decode on_backslash (drop n ?bs))"
      using n by (intro text_ok_append) auto
    then show ?thesis using rn Some by simp
  qed
qed (simp add: text_ok_def)

lemma c_string_ok: "length v \<le> n \<Longrightarrow> text_ok n (c_string v)"
proof -
  assume v: "length v \<le> n"
  have "0 < uint b" if "b \<noteq> 0" for b :: byte
    using that uint_byte_bounds(1) [of b] by (simp add: order_le_less uint_0_iff)
  then have "\<forall>b \<in> set (until_nul v). 0 < b \<and> b < 256"
    by (auto simp: until_nul_def uint_byte_bounds(2) dest!: set_takeWhileD)
  moreover have "length (until_nul v) \<le> n" using v length_takeWhile_le [of "\<lambda>b. b \<noteq> 0" v] by (simp add: until_nul_def)
  ultimately show "text_ok n (c_string v)"
    using utf8_decode_ok [of "until_nul v"] by (auto simp: c_string_def text_ok_def)
qed

subsection \<open>Fields\<close>

lemma fits_rd [simp]: "fits n (rd n b a)"
  using rd_bounds by (simp add: fits_def)

lemma sfits_le_sint: "length bs = n \<Longrightarrow> sfits n (le_sint bs)"
proof -
  assume n: "length bs = n"
  have "- (256 ^ length bs) \<le> 2 * le_int bs" by (rule order_trans [of _ 0]) simp_all
  with le_int_bound [of bs] n show ?thesis by (auto simp: sfits_def le_sint_def Let_def)
qed

lemma sfits_rds: "a + n \<le> length b \<Longrightarrow> sfits n (rds n b a)"
  by (auto simp: rds_def intro!: sfits_le_sint)

lemma wf_unpack_header: "88 \<le> length p \<Longrightarrow> wf_header (unpack_header p)"
  by (simp add: wf_header_def unpack_header_def sfits_le_sint)

definition typed_net :: "int \<Rightarrow> net_fields \<Rightarrow> bool" where
  "typed_net flags n \<longleftrightarrow>
     (\<forall>x \<in> {n_duration n, n_netns_id n, n_netns_cookie n, n_socket_cookie n, n_bytes_requested n}. fits 8 x)
     \<and> sfits 8 (n_retval n) \<and> sfits 4 (n_backlog n)
     \<and> (\<forall>x \<in> {n_sockfd n, n_src_scope n, n_dst_scope n}. fits 4 x)
     \<and> (\<forall>x \<in> {n_family n, n_socket_type n, n_src_port n, n_dst_port n, n_old_state n, n_new_state n}. fits 2 x)
     \<and> fits 1 (n_protocol n)
     \<and> (n_src_ip n \<noteq> None \<longleftrightarrow> flags AND 32 \<noteq> 0 \<and> n_family n \<in> {2, 10})
     \<and> (n_dst_ip n \<noteq> None \<longleftrightarrow> flags AND 16 \<noteq> 0 \<and> n_family n \<in> {2, 10})"

fun typed_body :: "int \<Rightarrow> int \<Rightarrow> body \<Rightarrow> bool" where
  "typed_body kind flags (Fork p c npid start) \<longleftrightarrow> kind = 1 \<and> fits 4 p \<and> fits 4 c
     \<and> pred_option (fits 4) npid \<and> pred_option (fits 8) start
     \<and> (npid \<noteq> None \<longleftrightarrow> flags AND 2048 \<noteq> 0) \<and> (start \<noteq> None \<longleftrightarrow> flags AND 2048 \<noteq> 0)"
| "typed_body kind flags (Exec p c path) \<longleftrightarrow> kind = 2 \<and> fits 4 p \<and> fits 4 c \<and> text_ok 256 path"
| "typed_body kind flags (Exit p c code) \<longleftrightarrow> kind = 3 \<and> fits 4 p \<and> fits 4 c \<and> sfits 4 code"
| "typed_body kind flags (SyscallEnter nr) \<longleftrightarrow> kind = 4 \<and> fits 4 nr"
| "typed_body kind flags (SyscallExit nr ret) \<longleftrightarrow> kind = 5 \<and> fits 4 nr \<and> sfits 8 ret"
| "typed_body kind flags (File i j a b c d path) \<longleftrightarrow> kind \<in> {6, 7} \<and> fits 8 i \<and> fits 8 j
     \<and> fits 4 a \<and> fits 4 b \<and> fits 4 c \<and> fits 4 d \<and> text_ok 256 path"
| "typed_body kind flags (Network n) \<longleftrightarrow> 8 \<le> kind \<and> kind \<le> 13 \<and> typed_net flags n"
| "typed_body kind flags (Health q p k f r) \<longleftrightarrow> kind = 14
     \<and> fits 8 q \<and> fits 8 p \<and> fits 8 k \<and> fits 8 f \<and> fits 8 r"

definition typed_event :: "event \<Rightarrow> bool" where
  "typed_event e \<longleftrightarrow> wf_header (ev_head e) \<and> h_schema (ev_head e) = 1
     \<and> event_name (h_kind (ev_head e)) = Some (ev_type e)
     \<and> event_size (h_kind (ev_head e)) = Some (h_size (ev_head e))
     \<and> text_ok 16 (ev_comm e) \<and> typed_body (h_kind (ev_head e)) (h_flags (ev_head e)) (ev_body e)"

lemma typed_network: "200 \<le> length p \<Longrightarrow> typed_net flags (network_fields flags p)"
  by (simp add: typed_net_def network_fields_def sfits_rds ip_string_def)

lemma typed_event_body:
  assumes "event_size kind = Some (int (length p))"
  shows "typed_body kind flags (event_body kind flags p)"
proof -
  have k: "1 \<le> kind" "kind \<le> 14" "kind \<le> 7 \<Longrightarrow> length p = 376"
    "8 \<le> kind \<Longrightarrow> kind \<le> 13 \<Longrightarrow> length p = 200"
    using assms by (auto simp: event_size_def split: if_splits)
  consider "kind = 1" | "kind = 2" | "kind = 3" | "kind = 4" | "kind = 5" | "kind = 6 \<or> kind = 7"
    | "8 \<le> kind" "kind \<le> 13" | "kind = 14" using k by linarith
  then show ?thesis
    by cases (use k in \<open>auto simp: event_body_def Let_def sfits_rds c_string_ok typed_network\<close>)
qed

lemma decode_typed: "decode_event p = Inr e \<Longrightarrow> typed_event e"
proof -
  assume "decode_event p = Inr e"
  then have d: "88 \<le> length p" "h_schema (unpack_header p) = 1" "h_size (unpack_header p) = int (length p)"
    "event_size (h_kind (unpack_header p)) = Some (int (length p))"
    "event_name (h_kind (unpack_header p)) = Some (ev_type e)"
    "e = \<lparr>ev_head = unpack_header p, ev_type = ev_type e, ev_comm = c_string (h_comm (unpack_header p)),
       ev_body = event_body (h_kind (unpack_header p)) (h_flags (unpack_header p)) p\<rparr>"
    unfolding decode_event_Inr by blast+
  have "text_ok 16 (c_string (h_comm (unpack_header p)))"
    by (rule c_string_ok) (simp add: unpack_header_def)
  with wf_unpack_header [OF d(1)] d(2-5) typed_event_body [OF d(4)]
  show ?thesis by (subst d(6)) (simp add: typed_event_def)
qed

lemma frames_typed:
  "\<forall>e \<in> set (fst (frames b)). typed_event e"
proof (induction b rule: frames.induct)
  case (1 b)
  let ?h = "unpack_frame b" and ?p = "take (nat (fh_size (unpack_frame b))) (drop 12 b)"
  show ?case
  proof (cases "b = [] \<or> length b < 12 \<or> frame_check ?h \<noteq> None \<or> length (drop 12 b) < nat (fh_size ?h)")
    case True
    then show ?thesis by (subst frames.simps) (auto simp: Let_def split: option.splits)
  next
    case False
    then have f: "frames b = (case decode_event ?p of
        Inl (UnsupportedEvent _) \<Rightarrow> frames (drop (12 + nat (fh_size ?h)) b)
      | Inl e \<Rightarrow> ([], Some e)
      | Inr ev \<Rightarrow> apfst (Cons ev) (frames (drop (12 + nat (fh_size ?h)) b)))"
      by (subst frames.simps) (auto simp: Let_def)
    have IH: "\<forall>e \<in> set (fst (frames (drop (12 + nat (fh_size ?h)) b))). typed_event e"
      if "decode_event ?p = Inr ev \<or> decode_event ?p = Inl (UnsupportedEvent m)" for ev m
      using that False "1.IH" by (auto simp: not_less)
    show ?thesis
    proof (cases "decode_event ?p")
      case (Inl e)
      then show ?thesis using IH f by (cases e) auto
    next
      case (Inr ev)
      then show ?thesis using IH [of ev] f decode_typed [OF Inr] by simp
    qed
  qed
qed

text \<open>
  C33. Whatever the bytes of the file, every event that the decoder yields is well typed: its header
  fits the C structure and carries schema 1 and the size of its kind, its body is the variant of its
  kind with every integer in the range of its field, optional fields are there exactly when their
  flags say so, and command and paths are Unicode scalar values without NUL of bounded length.
\<close>

theorem frames_well_typed: "list_all typed_event (fst (frames b))"
  using frames_typed [of b] by (simp only: list_all_iff)

end
