(* ===== verification/Temporal.thy ===== *)
theory Temporal
  imports Aggregate
begin

section \<open>Trailing windows of deletions: \<open>temporal_unlinks.py\<close>\<close>

text \<open>
  The audited deletions of a session, one row per second, become rows of trailing window features.
  The functions of the array library are parameters; \<open>numpy_ok\<close> states what its documentation says
  of them, for arrays of integers that stay within 64 bits.  The counts of an audit are integers:
  what the code refuses as another type is not represented.  Floating point stays symbolic.
\<close>

subsection \<open>The array library\<close>

record numpy =
  np_argsort :: "int list \<Rightarrow> nat list"
  np_searchsorted :: "int list \<Rightarrow> int \<Rightarrow> nat"
  np_cumsum :: "int list \<Rightarrow> int list"

definition numpy_ok :: "numpy \<Rightarrow> bool" where
  "numpy_ok np \<longleftrightarrow>
    (\<forall>xs. distinct (np_argsort np xs) \<and> set (np_argsort np xs) = {..<length xs}
        \<and> sorted (map ((!) xs) (np_argsort np xs)))
    \<and> (\<forall>xs x. sorted xs \<longrightarrow> np_searchsorted np xs x \<le> length xs
        \<and> (\<forall>j < np_searchsorted np xs x. xs ! j < x)
        \<and> (\<forall>j < length xs. np_searchsorted np xs x \<le> j \<longrightarrow> x \<le> xs ! j))
    \<and> (\<forall>xs. (\<forall>x \<in> set xs. 0 \<le> x) \<and> sum_list xs < 2 ^ 63 \<longrightarrow> length (np_cumsum np xs) = length xs
        \<and> (\<forall>i < length xs. np_cumsum np xs ! i = sum_list (take (i + 1) xs)))"

subsection \<open>Data\<close>

definition SECOND :: int where
  "SECOND = 1000000000"

definition WINDOWS :: "int list" where
  "WINDOWS = [5, 30, 60]"

definition HISTORY_SECONDS :: int where
  "HISTORY_SECONDS = Max (set WINDOWS)"

record urow =
  u_time :: int
  u_attempts :: int
  u_scopes :: int
  u_unscoped :: int

record unlink_audit =
  au_rows :: "urow list"
  au_outside :: int
  au_npz_buckets :: int
  au_matched :: int
  au_recorded :: int

subsection \<open>The operations\<close>

definition times_of :: "numpy \<Rightarrow> int list \<Rightarrow> (int list \<times> nat list) res" where
  "times_of np ts =
    (if ts = [] \<or> list_ex (\<lambda>t. t < 0) ts \<or> list_ex (\<lambda>t. t mod SECOND \<noteq> 0) ts
        \<or> list_ex (\<lambda>t. 2 ^ 63 - 1 - HISTORY_SECONDS * SECOND < t) ts \<or> \<not> distinct ts
     then Inl (ValueError ''invalid/duplicate temporal bucket timestamps'')
     else Inr (ts, np_argsort np ts))"

text \<open>\<open>np.r_[0, np.cumsum(xs)]\<close>, and the difference of its entries over a trailing window.\<close>

definition prefix_sums :: "numpy \<Rightarrow> int list \<Rightarrow> int list" where
  "prefix_sums np xs = 0 # np_cumsum np xs"

definition trailing :: "numpy \<Rightarrow> int list \<Rightarrow> int list \<Rightarrow> nat \<Rightarrow> int \<Rightarrow> int" where
  "trailing np t sums i seconds =
    sums ! (i + 1) - sums ! (np_searchsorted np t (t ! i - (seconds - 1) * SECOND))"

text \<open>\<open>result[order] = rows\<close> on a new array.\<close>

definition scatter :: "'a \<Rightarrow> nat list \<Rightarrow> 'a list \<Rightarrow> 'a list" where
  "scatter d order rows = fold (\<lambda>(k, r) out. out[k := r]) (zip order rows) (replicate (length rows) d)"

definition check_counts :: "urow list \<Rightarrow> unit res" where
  "check_counts rows =
    (case find (\<lambda>r. u_attempts r < 0 \<or> u_scopes r < 0 \<or> u_unscoped r < 0
        \<or> u_attempts r < u_scopes r + u_unscoped r) rows of
       None \<Rightarrow> Inr ()
     | Some r \<Rightarrow> if u_attempts r < 0 \<or> u_scopes r < 0 \<or> u_unscoped r < 0
         then Inl (ValueError ''invalid unlink count'')
         else Inl (ValueError ''directory scope/count mismatch''))"

definition sorted_rows :: "numpy \<Rightarrow> urow list \<Rightarrow> int list \<Rightarrow> nat list \<Rightarrow> feat list list" where
  "sorted_rows np rows tms order =
    (let counts = map (\<lambda>k. u_attempts (rows ! k)) order;
         scopes = map (\<lambda>k. u_scopes (rows ! k)) order;
         t = map ((!) tms) order;
         sums = prefix_sums np counts;
         active = prefix_sums np (map (\<lambda>c. if 0 < c then 1 else 0) counts)
     in map (\<lambda>i. [Log1p (counts ! i), Log1p (scopes ! i)] @ concat (map (\<lambda>seconds.
          [Log1p (trailing np t sums i seconds), Ratio (trailing np t active i seconds) seconds]) WINDOWS))
        [0..<length t])"

definition temporal_features :: "numpy \<Rightarrow> unlink_audit \<Rightarrow> feat list list res" where
  "temporal_features np a =
    (if au_outside a \<noteq> 0
     then Inl (ValueError ''outside-NPZ unlink attempts would leave history incomplete'')
     else bind_res (times_of np (map u_time (au_rows a))) (\<lambda>(tms, order).
       if au_npz_buckets a \<noteq> int (length (au_rows a))
       then Inl (ValueError ''audit bucket count mismatch'')
       else bind_res (check_counts (au_rows a)) (\<lambda>_.
         let total = sum_list (map u_attempts (au_rows a)) in
         if 2 ^ 63 - 1 < total then Inl (ValueError ''unlink history exceeds int64 capacity'')
         else if total \<noteq> au_matched a then Inl (ValueError ''audit unlink sum mismatch'')
         else if au_matched a \<noteq> au_recorded a then Inl (ValueError ''incomplete audited unlink history'')
         else Inr (scatter [] order (sorted_rows np (au_rows a) tms order)))))"

datatype labels = NumLabels "int list" | TextLabels "pystr list"

fun attack_mask :: "labels \<Rightarrow> bool list" where
  "attack_mask (NumLabels ls) = map (\<lambda>l. l = 1) ls"
| "attack_mask (TextLabels ls) = map (\<lambda>l. l = ucode ''attack'') ls"

definition history_clean :: "numpy \<Rightarrow> int list \<Rightarrow> labels \<Rightarrow> bool list \<Rightarrow> bool list res" where
  "history_clean np bucket_ns labels forbidden =
    bind_res (times_of np bucket_ns) (\<lambda>(tms, order).
      let attacks = attack_mask labels in
      if length attacks \<noteq> length tms \<or> length forbidden \<noteq> length tms
      then Inl (ValueError ''invalid history labels/mask'')
      else if list_ex (\<lambda>(f, a). f \<and> \<not> a) (zip forbidden attacks)
      then Inl (ValueError ''forbidden history mask must select attack rows only'')
      else let t = map ((!) tms) order;
          prefix = prefix_sums np (map (\<lambda>k. if forbidden ! k then 1 else 0) order)
        in Inr (scatter False order (map (\<lambda>i. trailing np t prefix i HISTORY_SECONDS = 0
             \<and> t ! 0 + (HISTORY_SECONDS - 1) * SECOND \<le> t ! i) [0..<length t])))"

end
