(* ===== verification/Temporal_Claims.thy ===== *)
theory Temporal_Claims
  imports Temporal "HOL-Library.Multiset"
begin

section \<open>The windows against their definition\<close>

text \<open>
  Differences of prefix sums between positions found by binary search, against the sum over the rows
  whose time lies in the window.
\<close>

declare split_paired_All [simp del] split_paired_Ex [simp del]

subsection \<open>Lists\<close>

lemma filter_segment:
  assumes "b \<le> e" and "e \<le> length xs" and "\<And>j. j < length xs \<Longrightarrow> P (xs ! j) \<longleftrightarrow> b \<le> j \<and> j < e"
  shows "filter P xs = take (e - b) (drop b xs)"
proof -
  have "xs = take b xs @ take (e - b) (drop b xs) @ drop e xs"
    using assms(1) by (metis add.commute append_take_drop_id drop_drop le_add_diff_inverse2)
  moreover have "filter P (take b xs) = []" "filter P (drop e xs) = []"
    "filter P (take (e - b) (drop b xs)) = take (e - b) (drop b xs)"
    using assms by (auto simp: filter_empty_conv filter_id_conv in_set_conv_nth)
  ultimately show ?thesis by (metis append_Nil append_Nil2 filter_append)
qed

lemma sum_segment:
  assumes "b \<le> e"
  shows "sum_list (take (e - b) (drop b xs)) = sum_list (take e xs) - (sum_list (take b xs) :: int)"
proof -
  have "take e xs = take b xs @ take (e - b) (drop b xs)"
    using assms by (metis le_add_diff_inverse take_add)
  then show ?thesis by simp
qed

lemma sum_list_perm: "mset xs = mset ys \<Longrightarrow> sum_list (map f xs) = (sum_list (map f ys) :: int)"
  by (metis mset_map sum_mset_sum_list)

lemma mset_order:
  assumes "distinct \<sigma>" and "set \<sigma> = {..<length xs}"
  shows "mset (map ((!) xs) \<sigma>) = mset xs"
proof -
  have "mset \<sigma> = mset [0..<length xs]"
    using assms by (metis atLeast_upt distinct_upt set_eq_iff_mset_eq_distinct)
  then have "mset (map ((!) xs) \<sigma>) = mset (map ((!) xs) [0..<length xs])" by simp
  then show ?thesis by (simp add: map_nth)
qed

lemma length_order: "distinct \<sigma> \<Longrightarrow> set \<sigma> = {..<n} \<Longrightarrow> length \<sigma> = n"
  by (metis card_lessThan distinct_card)

lemma scatter_other:
  "k \<notin> set ks \<Longrightarrow> fold (\<lambda>(k, r) out. out[k := r]) (zip ks rs) out ! k = out ! k"
proof (induction ks arbitrary: rs out)
  case (Cons a ks)
  then show ?case by (cases rs) simp_all
qed simp

lemma scatter_fold:
  "distinct ks \<Longrightarrow> length ks = length rs \<Longrightarrow> \<forall>k \<in> set ks. k < length out \<Longrightarrow> i < length ks \<Longrightarrow>
    fold (\<lambda>(k, r) out. out[k := r]) (zip ks rs) out ! (ks ! i) = rs ! i"
proof (induction ks arbitrary: rs out i)
  case (Cons k ks)
  then obtain r rs' where rs: "rs = r # rs'" by (cases rs) auto
  show ?case
  proof (cases i)
    case 0
    with Cons.prems rs show ?thesis by (simp add: scatter_other)
  next
    case (Suc j)
    with Cons.prems rs Cons.IH [of rs' "out[k := r]" j] show ?thesis by simp
  qed
qed simp

lemma length_scatter [simp]: "length (scatter d ks rs) = length rs"
proof -
  have "length (fold (\<lambda>(k, r) out. out[k := r]) ps out) = length out" for ps and out :: "'a list"
    by (induction ps arbitrary: out) auto
  then show ?thesis by (simp add: scatter_def)
qed

lemma scatter_order:
  assumes "distinct \<sigma>" and "set \<sigma> = {..<n}"
  shows "scatter d \<sigma> (map (\<lambda>i. f (\<sigma> ! i)) [0..<n]) = map f [0..<n]"
proof (rule nth_equalityI)
  fix k assume "k < length (scatter d \<sigma> (map (\<lambda>i. f (\<sigma> ! i)) [0..<n]))"
  then have "k \<in> set \<sigma>" using assms by simp
  then obtain i where i: "i < length \<sigma>" "k = \<sigma> ! i" by (metis in_set_conv_nth)
  have "length \<sigma> = n" by (rule length_order [OF assms])
  let ?rs = "map (\<lambda>i. f (\<sigma> ! i)) [0..<n]"
  have "fold (\<lambda>(k, r) out. out[k := r]) (zip \<sigma> ?rs) (replicate n d) ! (\<sigma> ! i) = ?rs ! i"
    by (rule scatter_fold) (use assms i \<open>length \<sigma> = n\<close> in simp_all)
  then have "scatter d \<sigma> ?rs ! k = f k" using i \<open>length \<sigma> = n\<close> by (simp add: scatter_def)
  moreover have "k < n" using \<open>k \<in> set \<sigma>\<close> assms by simp
  ultimately show "scatter d \<sigma> ?rs ! k = map f [0..<n] ! k" by simp
qed simp

subsection \<open>A trailing window\<close>

lemma prefix_sums_nth:
  assumes "numpy_ok np" and "\<forall>x \<in> set xs. 0 \<le> x" and "sum_list xs < 2 ^ 63" and "e \<le> length xs"
  shows "prefix_sums np xs ! e = sum_list (take e xs)"
proof (cases e)
  case 0
  then show ?thesis by (simp add: prefix_sums_def)
next
  case (Suc i)
  with assms show ?thesis by (simp add: prefix_sums_def numpy_ok_def)
qed

lemma sorted_distinct_nth_le:
  assumes "sorted xs" and "distinct xs" and "i < length xs" and "j < length xs"
  shows "xs ! j \<le> (xs ! i :: int) \<longleftrightarrow> j \<le> i"
  using assms by (metis le_cases nth_eq_iff_index_eq order_antisym sorted_nth_mono)

text \<open>The positions whose time lies in the window of \<open>k0\<close>.\<close>

definition in_window :: "int list \<Rightarrow> nat \<Rightarrow> int \<Rightarrow> nat \<Rightarrow> bool" where
  "in_window ts k0 seconds k \<longleftrightarrow> ts ! k0 - (seconds - 1) * SECOND \<le> ts ! k \<and> ts ! k \<le> ts ! k0"

lemma trailing_window:
  assumes np: "numpy_ok np" and d: "distinct ts" and \<sigma>: "\<sigma> = np_argsort np ts"
    and cs: "length cs = length ts" "\<forall>c \<in> set cs. 0 \<le> c" "sum_list cs < 2 ^ 63"
    and i: "i < length ts" and s: "1 \<le> seconds"
  shows "trailing np (map ((!) ts) \<sigma>) (prefix_sums np (map ((!) cs) \<sigma>)) i seconds
    = sum_list (map ((!) cs) (filter (in_window ts (\<sigma> ! i) seconds) [0..<length ts]))"
proof -
  let ?t = "map ((!) ts) \<sigma>" and ?C = "map ((!) cs) \<sigma>" and ?n = "length ts"
  let ?x = "?t ! i - (seconds - 1) * SECOND"
  let ?b = "np_searchsorted np ?t ?x"
  have o: "distinct \<sigma>" "set \<sigma> = {..<?n}" "sorted ?t" using np by (simp_all add: numpy_ok_def \<sigma>)
  have n: "length \<sigma> = ?n" by (rule length_order [OF o(1,2)])
  have dt: "distinct ?t" using o d by (auto simp: distinct_map inj_on_def nth_eq_iff_index_eq)
  have b: "\<forall>j < ?b. ?t ! j < ?x" "\<forall>j < ?n. ?b \<le> j \<longrightarrow> ?x \<le> ?t ! j"
    using np o(3) n by (auto simp: numpy_ok_def)
  have "?x \<le> ?t ! i" using s by (simp add: SECOND_def)
  then have bi: "?b \<le> i" using b(1) by (metis linorder_not_le)
  have mC: "mset ?C = mset cs" using mset_order [of \<sigma> cs] o cs(1) by simp
  then have pos: "\<forall>c \<in> set ?C. 0 \<le> c" "sum_list ?C < 2 ^ 63"
    using cs by (metis mset_eq_setD, metis sum_mset_sum_list)
  have "filter (in_window ts (\<sigma> ! i) seconds) \<sigma> = take (i + 1 - ?b) (drop ?b \<sigma>)"
  proof (rule filter_segment)
    fix j assume j: "j < length \<sigma>"
    have "?t ! j \<le> ?t ! i \<longleftrightarrow> j \<le> i" using sorted_distinct_nth_le [OF o(3) dt] i j n by simp
    moreover have "?x \<le> ?t ! j \<longleftrightarrow> ?b \<le> j" using b j n by (metis linorder_not_le)
    ultimately show "in_window ts (\<sigma> ! i) seconds (\<sigma> ! j) \<longleftrightarrow> ?b \<le> j \<and> j < i + 1"
      using i j n by (auto simp: in_window_def)
  qed (use bi i n in auto)
  then have "take (i + 1 - ?b) (drop ?b ?C) = map ((!) cs) (filter (in_window ts (\<sigma> ! i) seconds) \<sigma>)"
    by (simp add: take_map drop_map)
  moreover have "trailing np ?t (prefix_sums np ?C) i seconds = sum_list (take (i + 1 - ?b) (drop ?b ?C))"
    using prefix_sums_nth [OF np pos] bi i n sum_segment [of ?b "i + 1" ?C] by (simp add: trailing_def)
  moreover have "mset \<sigma> = mset [0..<?n]"
    using o by (metis atLeast_upt distinct_upt set_eq_iff_mset_eq_distinct)
  then have "mset (filter (in_window ts (\<sigma> ! i) seconds) \<sigma>)
      = mset (filter (in_window ts (\<sigma> ! i) seconds) [0..<?n])" by simp
  ultimately show ?thesis by (metis sum_list_perm)
qed

subsection \<open>The features of an audit\<close>

definition times_valid :: "int list \<Rightarrow> bool" where
  "times_valid ts \<longleftrightarrow> ts \<noteq> [] \<and> distinct ts
    \<and> (\<forall>t \<in> set ts. 0 \<le> t \<and> t mod SECOND = 0 \<and> t \<le> 2 ^ 63 - 1 - 60 * SECOND)"

lemma times_of_Inr:
  "times_of np ts = Inr p \<longleftrightarrow> times_valid ts \<and> p = (ts, np_argsort np ts)"
proof -
  have "HISTORY_SECONDS = 60" by (simp add: HISTORY_SECONDS_def WINDOWS_def)
  then show ?thesis
    unfolding times_of_def times_valid_def by (auto simp: list_ex_iff not_less) fastforce+
qed

lemma times_few:
  assumes "times_valid ts"
  shows "int (length ts) < 2 ^ 63"
proof -
  have "set ts \<subseteq> {0 .. 2 ^ 63 - 1 - 60 * SECOND}" using assms by (auto simp: times_valid_def)
  then have "card (set ts) \<le> card {0 .. 2 ^ 63 - 1 - 60 * SECOND}" by (intro card_mono) auto
  moreover have "card (set ts) = length ts" using assms by (simp add: times_valid_def distinct_card)
  ultimately show ?thesis by (simp add: SECOND_def)
qed

definition audit_complete :: "unlink_audit \<Rightarrow> bool" where
  "audit_complete a \<longleftrightarrow> au_outside a = 0 \<and> times_valid (map u_time (au_rows a))
    \<and> au_npz_buckets a = int (length (au_rows a))
    \<and> (\<forall>r \<in> set (au_rows a). 0 \<le> u_attempts r \<and> 0 \<le> u_scopes r \<and> 0 \<le> u_unscoped r
        \<and> u_scopes r + u_unscoped r \<le> u_attempts r)
    \<and> sum_list (map u_attempts (au_rows a)) < 2 ^ 63
    \<and> sum_list (map u_attempts (au_rows a)) = au_matched a \<and> au_matched a = au_recorded a"

definition window_sum :: "(urow \<Rightarrow> int) \<Rightarrow> urow list \<Rightarrow> urow \<Rightarrow> int \<Rightarrow> int" where
  "window_sum f rows r seconds = sum_list (map f (filter (\<lambda>q.
     u_time r - (seconds - 1) * SECOND \<le> u_time q \<and> u_time q \<le> u_time r) rows))"

definition window_row :: "urow list \<Rightarrow> urow \<Rightarrow> feat list" where
  "window_row rows r = [Log1p (u_attempts r), Log1p (u_scopes r)] @ concat (map (\<lambda>seconds.
     [Log1p (window_sum u_attempts rows r seconds),
      Ratio (window_sum (\<lambda>q. if 0 < u_attempts q then 1 else 0) rows r seconds) seconds]) WINDOWS)"

lemma window_sum_positions:
  assumes "k0 < length rows"
  shows "window_sum f rows (rows ! k0) seconds
    = sum_list (map ((!) (map f rows)) (filter (in_window (map u_time rows) k0 seconds) [0..<length rows]))"
proof -
  let ?P = "\<lambda>q. u_time (rows ! k0) - (seconds - 1) * SECOND \<le> u_time q \<and> u_time q \<le> u_time (rows ! k0)"
  have "filter ?P rows = filter ?P (map ((!) rows) [0..<length rows])" by (simp add: map_nth)
  also have "\<dots> = map ((!) rows) (filter (\<lambda>k. ?P (rows ! k)) [0..<length rows])"
    by (simp add: filter_map o_def)
  also have "filter (\<lambda>k. ?P (rows ! k)) [0..<length rows]
      = filter (in_window (map u_time rows) k0 seconds) [0..<length rows]"
    by (rule filter_cong) (auto simp: in_window_def assms)
  finally have "filter ?P rows = map ((!) rows)
      (filter (in_window (map u_time rows) k0 seconds) [0..<length rows])" .
  moreover have "map f (map ((!) rows) ks) = map ((!) (map f rows)) ks"
    if "set ks \<subseteq> {..<length rows}" for ks using that by (auto simp: subset_iff)
  ultimately show ?thesis unfolding window_sum_def by (metis (no_types) set_upt atLeast_upt filter_is_subset)
qed

lemma trailing_rows:
  assumes np: "numpy_ok np" and v: "times_valid (map u_time rows)" and \<sigma>: "\<sigma> = np_argsort np (map u_time rows)"
    and f: "\<forall>r \<in> set rows. 0 \<le> f r" "sum_list (map f rows) < 2 ^ 63" and i: "i < length rows" "1 \<le> seconds"
  shows "trailing np (map ((!) (map u_time rows)) \<sigma>)
      (prefix_sums np (map (\<lambda>k. f (rows ! k)) \<sigma>)) i seconds = window_sum f rows (rows ! (\<sigma> ! i)) seconds"
proof -
  have o: "distinct \<sigma>" "set \<sigma> = {..<length rows}" using np by (simp_all add: numpy_ok_def \<sigma>)
  have n: "length \<sigma> = length rows" by (rule length_order [OF o])
  have "\<sigma> ! i \<in> set \<sigma>" using i n by (metis nth_mem)
  then have k: "\<sigma> ! i < length rows" using o by simp
  have m: "map (\<lambda>k. f (rows ! k)) \<sigma> = map ((!) (map f rows)) \<sigma>" using o(2) by auto
  have "distinct (map u_time rows)" using v by (simp add: times_valid_def)
  from trailing_window [OF np this \<sigma>, of "map f rows" i seconds] f i
  show ?thesis unfolding m window_sum_positions [OF k] by (simp only: length_map set_map ball_simps)
qed

lemma sorted_rows_spec:
  assumes np: "numpy_ok np" and v: "times_valid (map u_time rows)"
    and c: "\<forall>r \<in> set rows. 0 \<le> u_attempts r" "sum_list (map u_attempts rows) < 2 ^ 63"
    and \<sigma>: "\<sigma> = np_argsort np (map u_time rows)"
  shows "sorted_rows np rows (map u_time rows) \<sigma>
    = map (\<lambda>i. window_row rows (rows ! (\<sigma> ! i))) [0..<length rows]"
proof -
  let ?act = "\<lambda>q. if 0 < u_attempts q then 1 else (0 :: int)"
  have o: "distinct \<sigma>" "set \<sigma> = {..<length rows}" using np by (simp_all add: numpy_ok_def \<sigma>)
  have n: "length \<sigma> = length rows" by (rule length_order [OF o])
  have "sum_list (map ?act rows) \<le> sum_list (map (\<lambda>_. 1) rows)" by (rule sum_list_mono) simp
  then have a: "sum_list (map ?act rows) < 2 ^ 63" "\<forall>r \<in> set rows. 0 \<le> ?act r"
    using times_few [OF v] by (simp_all add: sum_list_triv)
  have m: "map (\<lambda>c. if 0 < c then 1 else 0) (map (\<lambda>k. u_attempts (rows ! k)) \<sigma>) = map (\<lambda>k. ?act (rows ! k)) \<sigma>"
    by simp
  have W: "set WINDOWS = {5, 30, 60}" by (simp add: WINDOWS_def)
  show ?thesis
    unfolding sorted_rows_def Let_def m window_row_def
    by (rule map_cong)
      (auto simp: n W intro!: arg_cong [where f = concat] trailing_rows [OF np v \<sigma> c, simplified]
        trailing_rows [OF np v \<sigma> a(2,1), simplified])
qed

lemma check_counts_Inr:
  "check_counts rows = Inr u \<longleftrightarrow> (\<forall>r \<in> set rows. 0 \<le> u_attempts r \<and> 0 \<le> u_scopes r \<and> 0 \<le> u_unscoped r
     \<and> u_scopes r + u_unscoped r \<le> u_attempts r)"
proof -
  have "check_counts rows = Inr u \<longleftrightarrow> find (\<lambda>r. u_attempts r < 0 \<or> u_scopes r < 0 \<or> u_unscoped r < 0
        \<or> u_attempts r < u_scopes r + u_unscoped r) rows = None"
    by (simp add: check_counts_def split: option.splits)
  also have "\<dots> \<longleftrightarrow> (\<forall>r \<in> set rows. \<not> (u_attempts r < 0 \<or> u_scopes r < 0 \<or> u_unscoped r < 0
        \<or> u_attempts r < u_scopes r + u_unscoped r))"
    by (auto simp only: find_None_iff)
  finally show ?thesis by (simp only: de_Morgan_disj not_less)
qed

lemma windows_spec:
  assumes "numpy_ok np"
  shows "temporal_features np a = Inr rows
    \<longleftrightarrow> audit_complete a \<and> rows = map (window_row (au_rows a)) (au_rows a)"
proof -
  let ?rs = "au_rows a" and ?\<sigma> = "np_argsort np (map u_time (au_rows a))"
  have "scatter [] ?\<sigma> (sorted_rows np ?rs (map u_time ?rs) ?\<sigma>) = map (window_row ?rs) ?rs"
    if "audit_complete a"
  proof -
    from that have v: "times_valid (map u_time ?rs)" and c: "\<forall>r \<in> set ?rs. 0 \<le> u_attempts r"
      "sum_list (map u_attempts ?rs) < 2 ^ 63" by (simp_all add: audit_complete_def)
    have "distinct ?\<sigma>" "set ?\<sigma> = {..<length ?rs}" using assms by (simp_all add: numpy_ok_def)
    from scatter_order [OF this, of "[]" "\<lambda>k. window_row ?rs (?rs ! k)"]
    have "scatter [] ?\<sigma> (sorted_rows np ?rs (map u_time ?rs) ?\<sigma>)
        = map (window_row ?rs) (map ((!) ?rs) [0..<length ?rs])"
      unfolding sorted_rows_spec [OF assms v c refl] by (simp only: map_map o_def)
    then show ?thesis by (simp only: map_nth)
  qed
  moreover have "temporal_features np a = Inr rows \<longleftrightarrow> audit_complete a
      \<and> rows = scatter [] ?\<sigma> (sorted_rows np ?rs (map u_time ?rs) ?\<sigma>)"
    unfolding temporal_features_def audit_complete_def
    by (auto simp: bind_res_Inr times_of_Inr check_counts_Inr Let_def split: if_splits)
  ultimately show ?thesis by auto
qed

text \<open>
  C29. The features are computed exactly for the audits that are complete: valid distinct seconds, sane
  counts, and a sum that fits 64 bits and agrees with what was matched and recorded.  The row of a
  second, in the order of the audit, consists of its own counts and, for 5, 30 and 60 seconds, of the
  sum of the deletions and the fraction of active seconds over the rows of that window up to the
  second itself: no later row has an influence, and no intermediate sum overflows.
\<close>

theorem unlink_windows:
  assumes "numpy_ok np"
  shows "temporal_features np a = Inr rows
    \<longleftrightarrow> audit_complete a \<and> rows = map (window_row (au_rows a)) (au_rows a)"
  by (rule windows_spec [OF assms])

subsection \<open>An instance of the array library\<close>

definition plain_numpy :: numpy where
  "plain_numpy = \<lparr>np_argsort = \<lambda>xs. sort_key ((!) xs) [0..<length xs],
     np_searchsorted = \<lambda>xs x. length (takeWhile (\<lambda>y. y < x) xs),
     np_cumsum = \<lambda>xs. map (\<lambda>i. sum_list (take (i + 1) xs)) [0..<length xs]\<rparr>"

lemma plain_numpy_ok: "numpy_ok plain_numpy"
proof -
  have "x \<le> xs ! j" if "sorted xs" "j < length xs" "length (takeWhile (\<lambda>y. y < x) xs) \<le> j" for xs j and x :: int
  proof -
    let ?n = "length (takeWhile (\<lambda>y. y < x) xs)"
    have "\<not> xs ! ?n < x" using that nth_length_takeWhile [of "\<lambda>y. y < x" xs] by simp
    then show ?thesis using sorted_nth_mono [OF that(1,3,2)] by simp
  qed
  moreover have "xs ! j < x" if "j < length (takeWhile (\<lambda>y. y < x) xs)" for xs j and x :: int
    using that by (metis nth_mem set_takeWhileD takeWhile_nth)
  ultimately show ?thesis
    by (auto simp: numpy_ok_def plain_numpy_def length_takeWhile_le lessThan_atLeast0)
qed

definition sample_audit :: unlink_audit where
  "sample_audit = \<lparr>au_rows = [
       \<lparr>u_time = 9000000000, u_attempts = 4, u_scopes = 2, u_unscoped = 1\<rparr>,
       \<lparr>u_time = 2000000000, u_attempts = 3, u_scopes = 1, u_unscoped = 0\<rparr>,
       \<lparr>u_time = 5000000000, u_attempts = 0, u_scopes = 0, u_unscoped = 0\<rparr>],
     au_outside = 0, au_npz_buckets = 3, au_matched = 7, au_recorded = 7\<rparr>"

theorem unlink_windows_witness:
  "temporal_features plain_numpy sample_audit = Inr [
     [Log1p 4, Log1p 2, Log1p 4, Ratio 1 5, Log1p 7, Ratio 2 30, Log1p 7, Ratio 2 60],
     [Log1p 3, Log1p 1, Log1p 3, Ratio 1 5, Log1p 3, Ratio 1 30, Log1p 3, Ratio 1 60],
     [Log1p 0, Log1p 0, Log1p 3, Ratio 1 5, Log1p 3, Ratio 1 30, Log1p 3, Ratio 1 60]]"
proof -
  have "audit_complete sample_audit"
    by (simp add: audit_complete_def times_valid_def sample_audit_def SECOND_def)
  moreover have "map (window_row (au_rows sample_audit)) (au_rows sample_audit) = [
     [Log1p 4, Log1p 2, Log1p 4, Ratio 1 5, Log1p 7, Ratio 2 30, Log1p 7, Ratio 2 60],
     [Log1p 3, Log1p 1, Log1p 3, Ratio 1 5, Log1p 3, Ratio 1 30, Log1p 3, Ratio 1 60],
     [Log1p 0, Log1p 0, Log1p 3, Ratio 1 5, Log1p 3, Ratio 1 30, Log1p 3, Ratio 1 60]]" by code_simp
  ultimately show ?thesis using unlink_windows [OF plain_numpy_ok] by metis
qed

subsection \<open>Rows with a clean history\<close>

lemma sum_list_zero_one:
  "sum_list (map (\<lambda>k. if P k then 1 else (0 :: int)) ks) = 0 \<longleftrightarrow> (\<forall>k \<in> set ks. \<not> P k)"
proof -
  have "sum_list (map (\<lambda>k. if P k then 1 else (0 :: int)) ks) = int (length (filter P ks))"
    by (induction ks) auto
  then show ?thesis by (simp add: filter_empty_conv)
qed

lemma clean_at:
  assumes np: "numpy_ok np" and v: "times_valid ts" and f: "length forb = length ts"
    and \<sigma>: "\<sigma> = np_argsort np ts" and i: "i < length ts"
  shows "trailing np (map ((!) ts) \<sigma>)
      (prefix_sums np (map (\<lambda>k. if forb ! k then 1 else 0) \<sigma>)) i HISTORY_SECONDS = 0
    \<longleftrightarrow> (\<forall>j < length ts. forb ! j \<longrightarrow> \<not> in_window ts (\<sigma> ! i) 60 j)"
proof -
  let ?cs = "map (\<lambda>b. if b then 1 else (0 :: int)) forb"
  have H: "HISTORY_SECONDS = 60" by (simp add: HISTORY_SECONDS_def WINDOWS_def)
  have "set \<sigma> = {..<length ts}" using np by (simp add: numpy_ok_def \<sigma>)
  then have m: "map (\<lambda>k. if forb ! k then 1 else 0) \<sigma> = map ((!) ?cs) \<sigma>" using f by auto
  have "sum_list ?cs \<le> sum_list (map (\<lambda>_. 1) forb)" by (rule sum_list_mono) simp
  then have "sum_list ?cs < 2 ^ 63" using times_few [OF v] f by (simp add: sum_list_triv)
  moreover have "distinct ts" using v by (simp add: times_valid_def)
  ultimately have "trailing np (map ((!) ts) \<sigma>) (prefix_sums np (map ((!) ?cs) \<sigma>)) i 60
      = sum_list (map ((!) ?cs) (filter (in_window ts (\<sigma> ! i) 60) [0..<length ts]))"
    by (intro trailing_window [OF np _ \<sigma>]) (use f i in auto)
  also have "map ((!) ?cs) (filter (in_window ts (\<sigma> ! i) 60) [0..<length ts])
      = map (\<lambda>j. if forb ! j then 1 else 0) (filter (in_window ts (\<sigma> ! i) 60) [0..<length ts])"
    using f by auto
  finally show ?thesis unfolding m H by (auto simp: sum_list_zero_one)
qed

lemma first_sorted_is_Min:
  assumes "numpy_ok np" and "ts \<noteq> []"
  shows "map ((!) ts) (np_argsort np ts) ! 0 = Min (set ts)"
proof -
  let ?t = "map ((!) ts) (np_argsort np ts)"
  have o: "distinct (np_argsort np ts)" "set (np_argsort np ts) = {..<length ts}" "sorted ?t"
    using assms by (simp_all add: numpy_ok_def)
  have "mset ?t = mset ts" by (rule mset_order [OF o(1,2)])
  then have st: "set ?t = set ts" by (rule mset_eq_setD)
  with assms(2) obtain x xs where t: "?t = x # xs" by (cases ?t) auto
  then have "Min (set ?t) = x" using o(3) by (auto intro!: Min_eqI)
  then show ?thesis using st t by simp
qed

lemma history_clean_spec:
  assumes "numpy_ok np"
  shows "history_clean np ts labels forb = Inr clean \<longleftrightarrow>
    times_valid ts \<and> length (attack_mask labels) = length ts \<and> length forb = length ts
    \<and> list_all2 (\<lambda>f a. f \<longrightarrow> a) forb (attack_mask labels)
    \<and> clean = map (\<lambda>k. Min (set ts) + 59 * SECOND \<le> ts ! k
        \<and> (\<forall>j < length ts. ts ! k - 59 * SECOND \<le> ts ! j \<and> ts ! j \<le> ts ! k \<longrightarrow> \<not> forb ! j)) [0..<length ts]"
proof -
  let ?\<sigma> = "np_argsort np ts" and ?t = "map ((!) ts) (np_argsort np ts)"
  let ?ok = "times_valid ts \<and> length (attack_mask labels) = length ts \<and> length forb = length ts
    \<and> list_all2 (\<lambda>f a. f \<longrightarrow> a) forb (attack_mask labels)"
  let ?cl = "\<lambda>k. Min (set ts) + 59 * SECOND \<le> ts ! k
        \<and> (\<forall>j < length ts. ts ! k - 59 * SECOND \<le> ts ! j \<and> ts ! j \<le> ts ! k \<longrightarrow> \<not> forb ! j)"
  let ?code = "scatter False ?\<sigma> (map (\<lambda>i. trailing np ?t (prefix_sums np
        (map (\<lambda>k. if forb ! k then 1 else 0) ?\<sigma>)) i HISTORY_SECONDS = 0
      \<and> ?t ! 0 + (HISTORY_SECONDS - 1) * SECOND \<le> ?t ! i) [0..<length ?t])"
  have o: "distinct ?\<sigma>" "set ?\<sigma> = {..<length ts}" using assms by (simp_all add: numpy_ok_def)
  have n: "length ?\<sigma> = length ts" by (rule length_order [OF o])
  have "?code = map ?cl [0..<length ts]" if ok: ?ok
  proof -
    from ok have v: "times_valid ts" and f: "length forb = length ts" and ne: "ts \<noteq> []"
      by (simp_all add: times_valid_def)
    have H: "HISTORY_SECONDS = 60" by (simp add: HISTORY_SECONDS_def WINDOWS_def)
    have "map (\<lambda>i. trailing np ?t (prefix_sums np
        (map (\<lambda>k. if forb ! k then 1 else 0) ?\<sigma>)) i HISTORY_SECONDS = 0
      \<and> ?t ! 0 + (HISTORY_SECONDS - 1) * SECOND \<le> ?t ! i) [0..<length ?t]
      = map (\<lambda>i. ?cl (?\<sigma> ! i)) [0..<length ts]"
      by (rule map_cong) (auto simp: n clean_at [OF assms v f refl, unfolded H] H in_window_def
        first_sorted_is_Min [OF assms ne, simplified] simp del: map_map)
    then show ?thesis using scatter_order [OF o, of False ?cl] by (simp only:)
  qed
  moreover have "history_clean np ts labels forb = Inr clean \<longleftrightarrow> ?ok \<and> clean = ?code"
  proof (cases "times_valid ts")
    case True
    then have t: "times_of np ts = Inr (ts, ?\<sigma>)" by (simp add: times_of_Inr)
    have mask: "list_ex (\<lambda>(f, a). f \<and> \<not> a) (zip forb as) \<longleftrightarrow> \<not> list_all2 (\<lambda>f a. f \<longrightarrow> a) forb as"
      if "length forb = length as" for as using that by (auto simp: list_all2_iff list_ex_iff)
    show ?thesis
      by (cases "length (attack_mask labels) = length ts \<and> length forb = length ts")
        (use True in \<open>auto simp only: history_clean_def t bind_res.simps Let_def mask if_True if_False
          prod.case simp_thms sum.inject sum.simps split: if_splits\<close>)
  next
    case False
    then have "times_of np ts = Inr p \<longleftrightarrow> False" for p by (simp add: times_of_Inr)
    then obtain e where "times_of np ts = Inl e" by (cases "times_of np ts") auto
    with False show ?thesis by (simp add: history_clean_def)
  qed
  ultimately show ?thesis by auto
qed

text \<open>
  C30. A mask of eligible rows is computed exactly for valid times with labels and a forbidden mask of
  their length that selects attack rows only; a row is eligible when it lies at least 59 seconds after
  the first row and no forbidden row is at its second or within the 59 seconds before it.
\<close>

theorem clean_history:
  assumes "numpy_ok np"
  shows "history_clean np ts labels forb = Inr clean \<longleftrightarrow>
    times_valid ts \<and> length (attack_mask labels) = length ts \<and> length forb = length ts
    \<and> list_all2 (\<lambda>f a. f \<longrightarrow> a) forb (attack_mask labels)
    \<and> clean = map (\<lambda>k. Min (set ts) + 59 * SECOND \<le> ts ! k
        \<and> (\<forall>j < length ts. ts ! k - 59 * SECOND \<le> ts ! j \<and> ts ! j \<le> ts ! k \<longrightarrow> \<not> forb ! j)) [0..<length ts]"
  by (rule history_clean_spec [OF assms])

theorem clean_history_witness:
  "history_clean plain_numpy [62000000000, 1000000000, 61000000000] (NumLabels [0, 1, 0]) [False, True, False]
    = Inr [True, False, True]"
proof -
  have "times_valid [62000000000, 1000000000, 61000000000]" by (simp add: times_valid_def SECOND_def)
  then show ?thesis
    unfolding clean_history [OF plain_numpy_ok] by (simp add: SECOND_def numeral_3_eq_3 All_less_Suc)
qed

end
