(* ===== verification/Archive.thy ===== *)
theory Archive
  imports EBPF_Prelude
begin

section \<open>Archiving a raw capture: \<open>archive_raw_capture.py\<close>\<close>

text \<open>
  The archiver compresses a capture, proves that the archive decodes to what was hashed, publishes
  archive and manifest, and removes the capture last.  Each call of the operating system is a step of
  a machine; it can fail, the process can die between two steps, and another process can change the
  capture at any time.  A file is known by its status (device, inode, size, times); every change gives
  it a new status, so that the status determines the contents: \<open>t_content\<close> is a parameter, as are \<open>zstd\<close> and SHA-256.
\<close>

subsection \<open>The world\<close>

type_synonym stat_id = "int \<times> int \<times> int \<times> int \<times> int"

record 'd tools =
  t_content :: "stat_id \<Rightarrow> bytes"
  t_zstd :: "bytes \<Rightarrow> bytes option"
  t_unzstd :: "bytes \<Rightarrow> bytes option"
  t_sha :: "bytes \<Rightarrow> 'd"

text \<open>What \<open>archive_raw_capture\<close> checks of the path that it is given.\<close>

record capture_path =
  cp_suffix_bin :: bool
  cp_regular :: bool
  cp_inside_root :: bool
  cp_mode :: int

datatype stage = ArchiveStage | RecordStage

datatype pc = Start | Reserve | Opening | Check1 | Hash | Check2 | Compress | Check3 | Verify
  | Check4 | Record | LinkArchive | LinkManifest | DropArchive | DropRecord | Unreserve | Sync
  | Check5 | Remove | Done | Failed

record 'd prov =
  pv_source_sha :: 'd
  pv_stat :: stat_id
  pv_archive_sha :: 'd
  pv_size :: nat

text \<open>
  The file system (the capture, the open descriptor, the published files, the reserved directory with
  the staged files) and the variables of the program.
\<close>

record 'd astate =
  a_source :: "stat_id option"
  a_fd :: "stat_id option"
  a_dest :: "bytes option"
  a_manifest :: "'d prov option"
  a_partial :: "stage list option"
  a_archive :: bytes
  a_record :: "'d prov option"
  a_identity :: stat_id
  a_hash :: "'d option"
  a_staged :: "stage list"
  a_cleaned :: bool
  a_pc :: pc

definition a_init :: "stat_id option \<Rightarrow> bytes option \<Rightarrow> 'd prov option \<Rightarrow> stage list option \<Rightarrow> 'd astate" where
  "a_init source dest manifest partial = \<lparr>a_source = source, a_fd = None, a_dest = dest,
     a_manifest = manifest, a_partial = partial, a_archive = [], a_record = None,
     a_identity = (0, 0, 0, 0, 0), a_hash = None, a_staged = [], a_cleaned = False, a_pc = Start\<rparr>"

subsection \<open>The steps\<close>

definition admit :: "capture_path \<Rightarrow> 'd astate \<Rightarrow> py_error option" where
  "admit p s =
    (if a_source s = None then Some OSErr
     else if \<not> cp_suffix_bin p \<or> \<not> cp_regular p
     then Some (ValueError ''input must be a regular, non-symlink .bin file'')
     else if \<not> cp_inside_root p then Some (ValueError ''input resolves outside allowed_root'')
     else if cp_mode p \<noteq> 448 then Some (ValueError ''input directory must have mode 0700'')
     else if a_dest s \<noteq> None \<or> a_partial s \<noteq> None \<or> a_manifest s \<noteq> None then Some OSErr
     else None)"

definition unchanged :: "'d astate \<Rightarrow> bool" where
  "unchanged s \<longleftrightarrow> a_source s = Some (a_identity s) \<and> a_fd s = Some (a_identity s)"

text \<open>
  The \<open>finally\<close> clause: the staged files and the reserved directory go unless that was done.  Before
  the directory is reserved there is nothing to clean.
\<close>

definition abort :: "'d astate \<Rightarrow> 'd astate" where
  "abort s =
    (if a_pc s = Start \<or> a_pc s = Reserve \<or> a_cleaned s then s\<lparr>a_fd := None, a_pc := Failed\<rparr>
     else s\<lparr>a_fd := None, a_partial := None, a_staged := [], a_pc := Failed\<rparr>)"

definition goto :: "pc \<Rightarrow> 'd astate \<Rightarrow> 'd astate" where
  "goto q s = s\<lparr>a_pc := q\<rparr>"

definition unless_changed :: "pc \<Rightarrow> 'd astate \<Rightarrow> 'd astate" where
  "unless_changed q s = (if unchanged s then goto q s else abort s)"

definition provenance :: "'d tools \<Rightarrow> 'd astate \<Rightarrow> 'd prov" where
  "provenance T s = \<lparr>pv_source_sha = the (a_hash s), pv_stat = a_identity s,
     pv_archive_sha = t_sha T (a_archive s), pv_size = length (a_archive s)\<rparr>"

fun astep :: "'d tools \<Rightarrow> capture_path \<Rightarrow> pc \<Rightarrow> 'd astate \<Rightarrow> 'd astate" where
  "astep T p Start s = (case admit p s of Some e \<Rightarrow> abort s
     | None \<Rightarrow> goto Reserve (s\<lparr>a_identity := the (a_source s)\<rparr>))"
| "astep T p Reserve s = (if a_partial s = None then goto Opening (s\<lparr>a_partial := Some []\<rparr>) else abort s)"
| "astep T p Opening s = (case a_source s of None \<Rightarrow> abort s | Some i \<Rightarrow> goto Check1 (s\<lparr>a_fd := Some i\<rparr>))"
| "astep T p Check1 s = unless_changed Hash s"
| "astep T p Hash s = goto Check2 (s\<lparr>a_hash := map_option (\<lambda>i. t_sha T (t_content T i)) (a_fd s)\<rparr>)"
| "astep T p Check2 s = unless_changed Compress s"
| "astep T p Compress s = (case map_option (\<lambda>i. t_zstd T (t_content T i)) (a_fd s) of
      Some (Some z) \<Rightarrow> goto Check3 (s\<lparr>a_archive := z, a_partial := Some [ArchiveStage],
        a_staged := [ArchiveStage]\<rparr>)
    | _ \<Rightarrow> abort (s\<lparr>a_partial := Some [ArchiveStage], a_staged := [ArchiveStage]\<rparr>))"
| "astep T p Check3 s = unless_changed Verify s"
| "astep T p Verify s = (case t_unzstd T (a_archive s) of
      None \<Rightarrow> abort s
    | Some d \<Rightarrow> if Some (t_sha T d) = a_hash s then goto Check4 s else abort s)"
| "astep T p Check4 s = unless_changed Record s"
| "astep T p Record s = goto LinkArchive (s\<lparr>a_record := Some (provenance T s),
     a_partial := Some [ArchiveStage, RecordStage], a_staged := [ArchiveStage, RecordStage]\<rparr>)"
| "astep T p LinkArchive s = (if a_dest s = None then goto LinkManifest (s\<lparr>a_dest := Some (a_archive s)\<rparr>)
     else abort s)"
| "astep T p LinkManifest s = (if a_manifest s = None then goto DropArchive (s\<lparr>a_manifest := a_record s\<rparr>)
     else abort s)"
| "astep T p DropArchive s = goto DropRecord (s\<lparr>a_partial := Some [RecordStage]\<rparr>)"
| "astep T p DropRecord s = goto Unreserve (s\<lparr>a_partial := Some [], a_staged := []\<rparr>)"
| "astep T p Unreserve s = goto Sync (s\<lparr>a_partial := None, a_cleaned := True\<rparr>)"
| "astep T p Sync s = goto Check5 s"
| "astep T p Check5 s = unless_changed Remove s"
| "astep T p Remove s = (if a_source s = None then abort s
     else goto Done (s\<lparr>a_source := None, a_fd := None\<rparr>))"
| "astep T p Done s = s"
| "astep T p Failed s = s"

definition run_step :: "'d tools \<Rightarrow> capture_path \<Rightarrow> 'd astate \<Rightarrow> 'd astate" where
  "run_step T p s = astep T p (a_pc s) s"

text \<open>
  A step of the program, a call that fails, the death of the process, and another process that changes
  what the path names and what the descriptor reads.  Every change of the open file gives it a new
  status: it does not get the recorded one back.
\<close>

inductive move :: "'d tools \<Rightarrow> capture_path \<Rightarrow> 'd astate \<Rightarrow> 'd astate \<Rightarrow> bool" for T p where
  call: "a_pc s \<notin> {Done, Failed} \<Longrightarrow> move T p s (run_step T p s)"
| fault: "a_pc s \<notin> {Done, Failed} \<Longrightarrow> move T p s (abort s)"
| crash: "a_pc s \<notin> {Done, Failed} \<Longrightarrow> move T p s (s\<lparr>a_fd := None, a_pc := Failed\<rparr>)"
| meddle: "fd = a_fd s \<or> (fd \<noteq> None \<and> a_fd s \<noteq> None \<and> fd \<noteq> Some (a_identity s))
    \<Longrightarrow> move T p s (s\<lparr>a_source := source, a_fd := fd\<rparr>)"

inductive_cases moveE: "move T p s s'"

end
