(* ===== verification/Archive_Claims.thy ===== *)
theory Archive_Claims
  imports Archive
begin

section \<open>The capture is removed last\<close>

declare split_paired_All [simp del] split_paired_Ex [simp del]

subsection \<open>An invariant of every interleaving\<close>

definition decodes_to :: "'d tools \<Rightarrow> stat_id \<Rightarrow> bytes \<Rightarrow> bool" where
  "decodes_to T i z \<longleftrightarrow> (\<exists>d. t_unzstd T z = Some d \<and> t_sha T d = t_sha T (t_content T i))"

definition truthful :: "'d tools \<Rightarrow> stat_id \<Rightarrow> bytes \<Rightarrow> 'd prov \<Rightarrow> bool" where
  "truthful T i z m \<longleftrightarrow> m = \<lparr>pv_source_sha = t_sha T (t_content T i), pv_stat = i,
     pv_archive_sha = t_sha T z, pv_size = length z\<rparr>"

fun rank :: "pc \<Rightarrow> nat" where
  "rank Start = 0" | "rank Reserve = 1" | "rank Opening = 2" | "rank Check1 = 3" | "rank Hash = 4"
| "rank Check2 = 5" | "rank Compress = 6" | "rank Check3 = 7" | "rank Verify = 8" | "rank Check4 = 9"
| "rank Record = 10" | "rank LinkArchive = 11" | "rank LinkManifest = 12" | "rank DropArchive = 13"
| "rank DropRecord = 14" | "rank Unreserve = 15" | "rank Sync = 16" | "rank Check5 = 17"
| "rank Remove = 18" | "rank Done = 19" | "rank Failed = 20"

text \<open>
  Up to the links the published files are what they were; from the check after the hashing on, the
  hash is that of the contents that the recorded status stands for; from the verification on, the
  staged archive decodes to contents of that hash.
\<close>

definition published_ok :: "'d tools \<Rightarrow> bytes option \<Rightarrow> 'd prov option \<Rightarrow> 'd astate \<Rightarrow> bool" where
  "published_ok T dest0 man0 s \<longleftrightarrow>
     (a_dest s = dest0 \<or> dest0 = None \<and> (\<exists>z. a_dest s = Some z \<and> decodes_to T (a_identity s) z))
     \<and> (a_manifest s = man0 \<or> man0 = None \<and> (\<exists>z m. a_dest s = Some z \<and> a_manifest s = Some m
          \<and> truthful T (a_identity s) z m))"

definition a_inv :: "'d tools \<Rightarrow> bytes option \<Rightarrow> 'd prov option \<Rightarrow> 'd astate \<Rightarrow> bool" where
  "a_inv T dest0 man0 s \<longleftrightarrow> published_ok T dest0 man0 s \<and>
    (let r = rank (a_pc s); i = a_identity s; z = a_archive s in r < 20 \<longrightarrow>
     (r \<le> 11 \<longrightarrow> a_dest s = dest0) \<and> (r \<le> 12 \<longrightarrow> a_manifest s = man0)
     \<and> (1 \<le> r \<longrightarrow> dest0 = None \<and> man0 = None)
     \<and> (r = 5 \<and> a_fd s = Some i \<or> 6 \<le> r \<longrightarrow> a_hash s = Some (t_sha T (t_content T i)))
     \<and> (9 \<le> r \<longrightarrow> decodes_to T i z)
     \<and> (11 \<le> r \<longrightarrow> a_record s = Some (provenance T s) \<and> truthful T i z (provenance T s))
     \<and> (12 \<le> r \<longrightarrow> a_dest s = Some z) \<and> (13 \<le> r \<longrightarrow> a_manifest s = Some (provenance T s))
     \<and> (16 \<le> r \<longrightarrow> a_partial s = None))"

lemma a_inv_init: "a_inv T dest0 man0 (a_init source dest0 man0 partial)"
  by (simp add: a_inv_def published_ok_def a_init_def)

lemma failed_inv:
  assumes "a_inv T dest0 man0 s" and "a_pc s' = Failed" and "a_dest s' = a_dest s"
    and "a_manifest s' = a_manifest s" and "a_identity s' = a_identity s"
  shows "a_inv T dest0 man0 s'"
  using assms by (simp add: a_inv_def published_ok_def)

lemma abort_simps [simp]:
  "a_pc (abort s) = Failed" "a_dest (abort s) = a_dest s" "a_manifest (abort s) = a_manifest s"
  "a_identity (abort s) = a_identity s" "a_source (abort s) = a_source s"
  by (simp_all add: abort_def)

lemma abort_inv: "a_inv T dest0 man0 s \<Longrightarrow> a_inv T dest0 man0 (abort s)"
  by (rule failed_inv [of T dest0 man0 s]) simp_all

lemma provenance_updates [simp]:
  "provenance T (s\<lparr>a_pc := q\<rparr>) = provenance T s" "provenance T (s\<lparr>a_dest := z\<rparr>) = provenance T s"
  "provenance T (s\<lparr>a_manifest := m\<rparr>) = provenance T s" "provenance T (s\<lparr>a_partial := d\<rparr>) = provenance T s"
  "provenance T (s\<lparr>a_staged := g\<rparr>) = provenance T s" "provenance T (s\<lparr>a_cleaned := c\<rparr>) = provenance T s"
  "provenance T (s\<lparr>a_source := f\<rparr>) = provenance T s" "provenance T (s\<lparr>a_fd := f\<rparr>) = provenance T s"
  "provenance T (s\<lparr>a_record := m\<rparr>) = provenance T s"
  by (simp_all add: provenance_def)

lemma goto_simps [simp]:
  "a_pc (goto q s) = q" "a_dest (goto q s) = a_dest s" "a_manifest (goto q s) = a_manifest s"
  "a_identity (goto q s) = a_identity s" "a_source (goto q s) = a_source s" "a_fd (goto q s) = a_fd s"
  "a_archive (goto q s) = a_archive s" "a_hash (goto q s) = a_hash s" "a_record (goto q s) = a_record s"
  "a_partial (goto q s) = a_partial s" "provenance T (goto q s) = provenance T s"
  by (simp_all add: goto_def)

lemma failed_fields:
  assumes "a_pc (run_step T p s) = Failed"
  shows "a_dest (run_step T p s) = a_dest s \<and> a_manifest (run_step T p s) = a_manifest s
    \<and> a_identity (run_step T p s) = a_identity s"
  using assms by (cases "a_pc s") (auto simp: run_step_def unless_changed_def split: if_splits option.splits)

lemma step_inv:
  assumes inv: "a_inv T dest0 man0 s"
  shows "a_inv T dest0 man0 (run_step T p s)"
proof (cases "a_pc (run_step T p s) = Failed")
  case True
  then show ?thesis using failed_fields [OF True] by (intro failed_inv [OF inv]) simp_all
next
  case False
  have pub: "published_ok T dest0 man0 s" using inv by (simp add: a_inv_def)
  note rules = a_inv_def Let_def published_ok_def run_step_def
  show ?thesis
  proof (cases "a_pc s")
    case Start
    with False inv show ?thesis by (simp add: rules admit_def split: if_splits)
  next
    case Verify
    with False inv show ?thesis by (auto simp: rules decodes_to_def split: option.splits if_splits)
  next
    case Record
    with False inv show ?thesis by (simp add: rules truthful_def) (simp add: provenance_def)
  next
    case Check2
    with False inv show ?thesis by (simp add: rules unless_changed_def unchanged_def split: if_splits)
  qed (use False inv in \<open>simp_all add: rules unless_changed_def split: if_splits option.splits\<close>)
qed

lemma meddle_inv:
  assumes "a_inv T dest0 man0 s" and "fd = a_fd s \<or> fd \<noteq> Some (a_identity s)"
  shows "a_inv T dest0 man0 (s\<lparr>a_source := source, a_fd := fd\<rparr>)"
proof (cases "rank (a_pc s) = 5 \<and> fd = Some (a_identity s)")
  case True
  with assms show ?thesis by (simp add: a_inv_def published_ok_def Let_def)
next
  case False
  with assms show ?thesis by (simp add: a_inv_def published_ok_def Let_def) blast
qed

lemma move_inv:
  assumes "move T p s s'" and inv: "a_inv T dest0 man0 s"
  shows "a_inv T dest0 man0 s'"
  using assms(1)
proof (cases rule: move.cases)
  case call
  then show ?thesis using step_inv [OF inv] by simp
next
  case fault
  then show ?thesis using abort_inv [OF inv] by simp
next
  case crash
  then show ?thesis using failed_inv [OF inv, of s'] by simp
next
  case (meddle fd source)
  then show ?thesis using meddle_inv [OF inv, of fd source] by blast
qed

lemma reachable_inv:
  assumes "(move T p)\<^sup>*\<^sup>* (a_init source dest0 man0 partial) s"
  shows "a_inv T dest0 man0 s"
  using assms by (induction rule: rtranclp_induct) (simp_all add: a_inv_init move_inv)

lemma step_source:
  assumes "a_source (run_step T p s) \<noteq> a_source s"
  shows "a_pc s = Remove \<and> a_pc (run_step T p s) = Done \<and> a_source (run_step T p s) = None"
  using assms by (cases "a_pc s")
    (auto simp: run_step_def goto_def unless_changed_def split: if_splits option.splits)

text \<open>
  C27. However calls fail, the process dies or other processes change the capture: a call of the program
  that removes the capture is the last one, and by then archive and manifest are published where none
  were, the archive decodes to contents with the SHA-256 of what was hashed, the manifest states that
  hash and the hash and size of the archive, and nothing staged is left.  Earlier calls and the cleaning
  up keep the capture.  At every moment the published archive is the one that was there before, if there
  was one, and else one that decodes to the capture.
\<close>

theorem raw_removed_last:
  assumes "(move T p)\<^sup>*\<^sup>* (a_init source dest0 man0 partial) s"
  shows "(a_source (run_step T p s) \<noteq> a_source s \<longrightarrow>
      dest0 = None \<and> man0 = None \<and> a_pc (run_step T p s) = Done \<and> a_partial s = None
      \<and> (\<exists>z m. a_dest s = Some z \<and> a_manifest s = Some m \<and> decodes_to T (a_identity s) z
          \<and> truthful T (a_identity s) z m))
    \<and> a_source (abort s) = a_source s
    \<and> (a_dest s = dest0 \<or> dest0 = None \<and> (\<exists>z. a_dest s = Some z \<and> decodes_to T (a_identity s) z))"
proof -
  have inv: "a_inv T dest0 man0 s" by (rule reachable_inv [OF assms])
  then have "published_ok T dest0 man0 s" by (simp add: a_inv_def)
  moreover have "dest0 = None \<and> man0 = None \<and> a_pc (run_step T p s) = Done \<and> a_partial s = None
      \<and> a_dest s = Some (a_archive s) \<and> a_manifest s = Some (provenance T s)
      \<and> decodes_to T (a_identity s) (a_archive s) \<and> truthful T (a_identity s) (a_archive s) (provenance T s)"
    if "a_source (run_step T p s) \<noteq> a_source s"
    using inv step_source [OF that] by (simp add: a_inv_def Let_def)
  ultimately show ?thesis by (auto simp: published_ok_def)
qed

definition sample_tools :: "bytes tools" where
  "sample_tools = \<lparr>t_content = \<lambda>i. if i = (1, 2, 3, 4, 5) then [10, 20, 30] else [], t_zstd = \<lambda>b. Some (rev b),
     t_unzstd = \<lambda>z. Some (rev z), t_sha = \<lambda>b. b\<rparr>"

definition sample_path :: capture_path where
  "sample_path = \<lparr>cp_suffix_bin = True, cp_regular = True, cp_inside_root = True, cp_mode = 448\<rparr>"

lemma raw_removed_last_witness_path:
  "(move sample_tools sample_path)\<^sup>*\<^sup>* (a_init (Some (1, 2, 3, 4, 5)) None None None)
     ((run_step sample_tools sample_path ^^ 18) (a_init (Some (1, 2, 3, 4, 5)) None None None))"
proof -
  have "(move T p)\<^sup>*\<^sup>* s ((run_step T p ^^ n) s)" for T p n and s :: "'d astate"
  proof (induction n)
    case (Suc n)
    let ?s = "(run_step T p ^^ n) s"
    show ?case
    proof (cases "a_pc ?s \<in> {Done, Failed}")
      case True
      then have "run_step T p ?s = ?s" by (auto simp: run_step_def)
      with Suc show ?thesis by simp
    next
      case False
      then have "move T p ?s (run_step T p ?s)" by (rule move.call)
      with Suc show ?thesis by (simp add: rtranclp.rtrancl_into_rtrancl)
    qed
  qed simp
  then show ?thesis .
qed

lemma run_numeral: "(f ^^ numeral k) x = (f ^^ pred_numeral k) (f x)"
  by (simp add: numeral_eq_Suc funpow_swap1)

lemmas quiet_run = run_numeral run_step_def a_init_def goto_def unless_changed_def unchanged_def abort_def

theorem raw_removed_last_witness:
  "let s = (run_step sample_tools sample_path ^^ 18) (a_init (Some (1, 2, 3, 4, 5)) None None None)
   in a_source s = Some (1, 2, 3, 4, 5) \<and> a_source (run_step sample_tools sample_path s) = None
     \<and> (\<exists>z m. a_dest s = Some z \<and> a_manifest s = Some m \<and> pv_source_sha m = [10, 20, 30])"
proof -
  define s where "s = (run_step sample_tools sample_path ^^ 18) (a_init (Some (1, 2, 3, 4, 5)) None None None)"
  have e: "a_source s = Some (1, 2, 3, 4, 5)" "a_source (run_step sample_tools sample_path s) = None"
    "a_identity s = (1, 2, 3, 4, 5)" unfolding s_def
    by (simp_all add: quiet_run sample_tools_def sample_path_def admit_def)
  have c: "t_sha sample_tools (t_content sample_tools (1, 2, 3, 4, 5)) = [10, 20, 30]"
    by (simp add: sample_tools_def)
  have "a_source (run_step sample_tools sample_path s) \<noteq> a_source s"
    unfolding e(1,2) by (rule option.distinct(1))
  with raw_removed_last [OF raw_removed_last_witness_path, folded s_def] obtain z m where
    m: "a_dest s = Some z" "a_manifest s = Some m" "truthful sample_tools (1, 2, 3, 4, 5) z m"
    unfolding e(3) by blast
  then have "pv_source_sha m = [10, 20, 30]" by (simp add: truthful_def c)
  with e m show ?thesis unfolding s_def [symmetric] Let_def by blast
qed

subsection \<open>A run in a quiet world\<close>





end
