(* ===== verification/Exact_Frames.thy ===== *)
theory Exact_Frames
  imports Frame_Loop Py_Parse
begin

section \<open>Readers that account for every byte\<close>

text \<open>
  The audits end with an error unless the buffer is empty at the end.  For a reader whose header check
  admits the header of the collector only, a run without error and rest means that the input was a
  sequence of whole frames, and that the handler accepted the payload of each.
\<close>

lemma bslice_split:
  assumes "a \<le> m" and "m \<le> e"
  shows "bslice b a m @ bslice b m e = bslice b a e"
proof -
  have "e - a = (m - a) + (e - m)" and "drop m b = drop (m - a) (drop a b)" using assms by simp_all
  then show ?thesis by (simp only: bslice_def take_add)
qed

lemma to_le_rd: "a + n \<le> length b \<Longrightarrow> to_le n (rd n b a) = bslice b a (a + n)"
  using to_le_le_int [of "bslice b a (a + n)"] by (simp add: rd_def)

lemma pack_unpacked:
  assumes "12 \<le> length b" and "fh_magic (unpack_frame b) = ebpf_magic"
    and "fh_version (unpack_frame b) = 1" and "fh_little (unpack_frame b) = 1"
    and "fh_reserved (unpack_frame b) = 0"
  shows "pack_frame (fh_size (unpack_frame b)) = take 12 b"
proof -
  have "bslice b 4 5 = to_le 1 1" "bslice b 5 6 = to_le 1 1" "bslice b 6 8 = to_le 2 0"
    "bslice b 8 12 = to_le 4 (fh_size (unpack_frame b))" "bslice b 0 4 = ebpf_magic"
    using assms to_le_rd [of 4 1 b] to_le_rd [of 5 1 b] to_le_rd [of 6 2 b] to_le_rd [of 8 4 b]
    by (simp_all add: unpack_frame_def del: to_le.simps)
  then have "pack_frame (fh_size (unpack_frame b))
      = bslice b 0 4 @ bslice b 4 5 @ bslice b 5 6 @ bslice b 6 8 @ bslice b 8 12"
    by (simp add: pack_frame_def del: to_le.simps)
  also have "\<dots> = bslice b 0 12" by (simp add: bslice_split)
  finally show ?thesis by (simp add: bslice_def)
qed

locale exact_reader = framed_reader +
  assumes chk_exact: "chk h = None \<Longrightarrow> fh_magic h = ebpf_magic \<and> fh_version h = 1 \<and> fh_little h = 1
      \<and> fh_reserved h = 0 \<and> 0 \<le> fh_size h"
begin

lemma drain_exact:
  assumes "drain chk hnd s b = (s', [], None)"
  shows "\<exists>ps. b = concat (map frame_bytes ps) \<and> run_payloads hnd s ps = (s', None)
    \<and> (\<forall>p \<in> set ps. fits 4 (int (length p)) \<and> chk (unpack_frame (frame_bytes p)) = None)"
  using assms
proof (induction "length b" arbitrary: b s rule: less_induct)
  case less
  let ?h = "unpack_frame b" and ?n = "nat (fh_size (unpack_frame b))"
  show ?case
  proof (cases "length b < 12 \<or> (chk ?h = None \<and> length b < 12 + ?n)")
    case True
    then have "drain chk hnd s b = (s, b, None)" by (auto simp: drain.simps [of chk hnd s b] Let_def)
    with less.prems show ?thesis by (intro exI [of _ "[]"]) simp
  next
    case False
    with less.prems have len: "\<not> length b < 12" and chk: "chk ?h = None" and full: "\<not> length b < 12 + ?n"
      by (auto simp: drain.simps [of chk hnd s b] Let_def split: option.splits)
    let ?p = "take ?n (drop 12 b)"
    have lp: "length ?p = ?n" and sz: "fh_size ?h = int ?n" using full by (simp_all add: unpack_frame_def rd_bounds)
    have "pack_frame (fh_size ?h) = take 12 b" using pack_unpacked [of b] chk_exact [OF chk] len by simp
    then have fb: "b = frame_bytes ?p @ drop (12 + ?n) b"
      using full lp sz by (simp add: frame_bytes_def) (metis append_take_drop_id add.commute drop_drop)
    have hp: "hnd s (drop 12 b) ?n = hnd s ?p ?n" using hnd_payload [of ?n "drop 12 b" ?h s] full chk sz by simp
    obtain t u where hz: "hnd s ?p ?n = (t, Inr u)"
      using less.prems len chk full hp
      by (cases "hnd s ?p ?n"; cases "snd (hnd s ?p ?n)") (auto simp: drain.simps [of chk hnd s b] Let_def)
    have "drain chk hnd t (drop (12 + ?n) b) = (s', [], None)"
      using less.prems len chk full hp hz by (simp add: drain.simps [of chk hnd s b] Let_def)
    moreover have "length (drop (12 + ?n) b) < length b" using len by (cases b) simp_all
    ultimately obtain ps where ps: "drop (12 + ?n) b = concat (map frame_bytes ps)"
      "run_payloads hnd t ps = (s', None)"
      "\<forall>p \<in> set ps. fits 4 (int (length p)) \<and> chk (unpack_frame (frame_bytes p)) = None"
      using less.hyps [of "drop (12 + ?n) b" t] by blast
    have "b = concat (map frame_bytes (?p # ps))" using fb ps(1) by simp
    moreover have "run_payloads hnd s (?p # ps) = (s', None)" using hz ps(2) by (simp only: run_payloads.simps lp) simp
    moreover have f: "fits 4 (int (length ?p))" using lp sz rd_bounds [of 4 b 8] by (simp add: fits_def unpack_frame_def)
    moreover have "unpack_frame (frame_bytes ?p) = ?h"
      using len unpack_frame_append [of "frame_bytes ?p" "drop (12 + ?n) b"] fb by simp
    ultimately show ?thesis using ps(3) chk by (intro exI [of _ "?p # ps"]) auto
  qed
qed

lemma feed_exact:
  assumes "feed chk hnd s [] cs = (s', [], None)"
  shows "\<exists>ps. concat cs = concat (map frame_bytes ps) \<and> run_payloads hnd s ps = (s', None)
    \<and> (\<forall>p \<in> set ps. fits 4 (int (length p)) \<and> chk (unpack_frame (frame_bytes p)) = None)"
proof -
  have rest: "feed chk hnd s buf cs = (s', r, None) \<Longrightarrow> drain chk hnd s buf = (s, buf, None)
      \<Longrightarrow> drain chk hnd s (buf @ concat cs) = (s', r, None)" for s buf r cs
  proof (induction cs arbitrary: s buf)
    case (Cons c cs)
    obtain t b e where d: "drain chk hnd s (buf @ c) = (t, b, e)" by (metis prod_cases3)
    with Cons.prems(1) have e: "e = None" by (cases e) auto
    with d have "drain chk hnd t b = (t, b, None)" by (simp add: drain_stuck)
    with Cons.IH [of t b] Cons.prems(1) d e have "drain chk hnd t (b @ concat cs) = (s', r, None)" by simp
    with drain_append [of s "buf @ c" "concat cs"] d e show ?case by simp
  qed simp
  have "drain chk hnd s [] = (s, [], None)" by (simp add: drain.simps)
  from rest [OF assms this] show ?thesis using drain_exact by simp
qed

end

text \<open>\<open>require(condition, message)\<close>.\<close>

definition require :: "bool \<Rightarrow> string \<Rightarrow> unit res" where
  "require c m = (if c then Inr () else Inl (ValueError m))"

lemma require_Inr [simp]: "require c m = Inr u \<longleftrightarrow> c"
  by (simp add: require_def)

end
