(* ===== verification/Py_Regex.thy ===== *)
theory Py_Regex
  imports Exact_Frames
begin

section \<open>The regular expressions of the collector log\<close>

text \<open>
  The patterns of the program are sequences of literals, anchors and repetitions of a class, some of
  them in a group, and are searched with \<open>re.M\<close>.  Matching is by backtracking: a repetition takes as
  much as it can first.  \<open>\d\<close> stands for the ASCII digits; no log has the digits of other scripts.
\<close>

datatype re_item =
    Bol
  | Eol
  | Lit int
  | Rep "int \<Rightarrow> bool" nat bool

text \<open>The first success of \<open>f\<close> from \<open>n\<close> down to \<open>m\<close>.\<close>

primrec try_down :: "(nat \<Rightarrow> 'a option) \<Rightarrow> nat \<Rightarrow> nat \<Rightarrow> 'a option" where
  "try_down f m 0 = (if m = 0 then f 0 else None)"
| "try_down f m (Suc n) =
     (if Suc n < m then None else (case f (Suc n) of Some x \<Rightarrow> Some x | None \<Rightarrow> try_down f m n))"

lemma try_down_cong [fundef_cong]:
  "m = m' \<Longrightarrow> n = n' \<Longrightarrow> (\<And>k. k \<le> n' \<Longrightarrow> f k = g k) \<Longrightarrow> try_down f m n = try_down g m' n'"
  by (induction n arbitrary: n') (auto split: option.splits)

lemma try_down_Some: "try_down f m n = Some x \<Longrightarrow> \<exists>k \<le> n. f k = Some x"
proof (induction n)
  case (Suc n)
  then show ?case by (cases "f (Suc n)") (auto split: if_splits intro: le_SucI)
qed (auto split: if_splits)

definition prev_after :: "nat \<Rightarrow> pystr \<Rightarrow> int option \<Rightarrow> int option" where
  "prev_after k s prev = (if k = 0 then prev else Some (s ! (k - 1)))"

text \<open>The groups of a match at the beginning of a text, the character before the rest, and the rest.\<close>

fun re_match :: "re_item list \<Rightarrow> int option \<Rightarrow> pystr \<Rightarrow> (pystr list \<times> int option \<times> pystr) option" where
  "re_match [] prev s = Some ([], prev, s)"
| "re_match (Bol # re) prev s = (if prev = None \<or> prev = Some 10 then re_match re prev s else None)"
| "re_match (Eol # re) prev s = (if take 1 s = [] \<or> take 1 s = [10] then re_match re prev s else None)"
| "re_match (Lit c # re) prev s = (if take 1 s = [c] then re_match re (Some c) (drop 1 s) else None)"
| "re_match (Rep P m grp # re) prev s =
     try_down (\<lambda>k. map_option (\<lambda>(gs, rest). (if grp then take k s # gs else gs, rest))
         (re_match re (prev_after k s prev) (drop k s))) m (length (takeWhile P s))"

lemma re_match_rest: "re_match re prev s = Some (gs, prev', s') \<Longrightarrow> length s' \<le> length s"
proof (induction re prev s arbitrary: gs prev' s' rule: re_match.induct)
  case (5 P m grp re prev s)
  from try_down_Some [OF "5.prems" [unfolded re_match.simps]] obtain k where
    k: "k \<le> length (takeWhile P s)"
    "map_option (\<lambda>(gs, rest). (if grp then take k s # gs else gs, rest))
       (re_match re (prev_after k s prev) (drop k s)) = Some (gs, prev', s')" by blast
  from k(2) obtain gs' where "re_match re (prev_after k s prev) (drop k s) = Some (gs', prev', s')"
    by (auto split: prod.splits)
  from "5.IH" [OF k(1) this] show ?case by simp
qed (auto split: if_splits intro: le_trans)

text \<open>\<open>re.findall\<close> for a pattern that matches no empty text.\<close>

function re_findall :: "re_item list \<Rightarrow> int option \<Rightarrow> pystr \<Rightarrow> pystr list list" where
  "re_findall re prev s =
    (case re_match re prev s of
       Some (gs, prev', s') \<Rightarrow> (if length s' < length s then gs # re_findall re prev' s' else [gs])
     | None \<Rightarrow> (case s of [] \<Rightarrow> [] | c # cs \<Rightarrow> re_findall re (Some c) cs))"
  by pat_completeness auto
termination
  by (relation "measure (\<lambda>(re, prev, s). length s)") auto

declare re_findall.simps [simp del]

text \<open>A pattern that is anchored to the beginning of a line is tried once per line; evaluation uses this.\<close>

lemma findall_next_line:
  "c \<noteq> 10 \<Longrightarrow> re_findall (Bol # re) (Some c) s =
     (case dropWhile (\<lambda>x. x \<noteq> 10) s of [] \<Rightarrow> [] | x # s' \<Rightarrow> re_findall (Bol # re) (Some 10) s')"
proof (induction s arbitrary: c)
  case (Cons x s)
  then show ?case by (cases "x = 10") (simp_all add: re_findall.simps [of "Bol # re" "Some c"])
qed (simp add: re_findall.simps)

definition re_scan :: "re_item list \<Rightarrow> int option \<Rightarrow> pystr \<Rightarrow> pystr list list" where
  "re_scan re prev s =
    (case re_match re prev s of
       Some (gs, prev', s') \<Rightarrow> (if length s' < length s then gs # re_findall re prev' s' else [gs])
     | None \<Rightarrow> (case s of [] \<Rightarrow> [] | c # cs \<Rightarrow> re_findall re (Some c) cs))"

lemma re_findall_code [code]:
  "re_findall re prev s =
    (case (re, prev) of
       (Bol # _, Some c) \<Rightarrow> (if c = 10 then re_scan re prev s
         else (case dropWhile (\<lambda>x. x \<noteq> 10) s of [] \<Rightarrow> [] | x # s' \<Rightarrow> re_findall re (Some 10) s'))
     | _ \<Rightarrow> re_scan re prev s)"
proof (cases "\<exists>re' c. re = Bol # re' \<and> prev = Some c \<and> c \<noteq> 10")
  case True
  then show ?thesis by (elim exE conjE) (hypsubst, simp add: findall_next_line)
next
  case False
  have "re_findall re prev s = re_scan re prev s" by (simp add: re_scan_def re_findall.simps [of re prev s])
  then show ?thesis using False by (auto split: list.split re_item.split option.split)
qed

definition lits :: "string \<Rightarrow> re_item list" where
  "lits t = map Lit (ucode t)"

definition upper_name :: "int \<Rightarrow> bool" where
  "upper_name c \<longleftrightarrow> (65 \<le> c \<and> c \<le> 90) \<or> c = 95"

definition writer_pattern :: "string \<Rightarrow> re_item list" where
  "writer_pattern n = [Bol] @ lits ''writer '' @ lits n @ lits '' dropped='' @ [Rep is_digit 1 True, Rep is_space 0 False, Eol]"

definition event_pattern :: "re_item list" where
  "event_pattern = [Bol, Rep is_space 1 False, Rep upper_name 1 True, Rep is_space 1 False] @ lits ''received=''
     @ [Rep is_digit 1 True] @ lits '' lost='' @ [Rep is_digit 1 True, Rep is_space 0 False, Eol]"

definition network_pattern :: "string \<Rightarrow> re_item list" where
  "network_pattern n = [Bol, Rep is_space 1 False] @ lits n
     @ [Rep is_space 1 False, Rep is_digit 1 True, Rep is_space 0 False, Eol]"

definition flags_pattern :: "re_item list" where
  "flags_pattern = [Bol] @ lits ''flags:'' @ [Rep is_space 1 False, Rep (\<lambda>c. 48 \<le> c \<and> c \<le> 55) 1 True, Eol]"

text \<open>The texts that a group has matched, and their value.\<close>

lemma pattern_samples:
  "re_findall (writer_pattern ''queue'') None (ucode ''x'' @ [10] @ ucode ''writer queue dropped=120 '' @ [10, 10])
    = [[ucode ''120'']]"
  "re_findall event_pattern None ([10, 10] @ ucode ''FILE_OPEN  received=12 lost=0'' @ [10] @ ucode '' HEALTH received=1 lost=2'')
    = [[ucode ''FILE_OPEN'', ucode ''12'', ucode ''0''], [ucode ''HEALTH'', ucode ''1'', ucode ''2'']]"
  "re_findall (network_pattern ''filtered'') None (ucode ''  filtered   0 x'') = []"
  by code_simp+

end
