(* ===== verification/Sources.thy ===== *)
theory Sources
  imports Py_Regex Archive
begin

section \<open>Guarding the source files\<close>

text \<open>
  \<open>snapshot\<close> and \<open>check_closed\<close> of \<open>finalize_event_time_session.py\<close>, which the audits share: the
  identities of the files that are read, and that no process has one of them open for writing.  The
  world is read several times; each reading is a value of \<open>world\<close>.
\<close>

record finfo =
  fi_regular :: bool
  fi_stat :: stat_id

datatype fdinfo = NoInfo | DeniedInfo | Info pystr

text \<open>A descriptor below \<open>/proc\<close>: it can vanish or be refused before its file is known, or after.\<close>

datatype proc_fd = Gone | Denied | FdOf "int \<times> int" fdinfo

record world =
  w_files :: "pystr \<Rightarrow> finfo option"
  w_proc :: "proc_fd list option"

definition stat_size :: "stat_id \<Rightarrow> int" where
  "stat_size i = fst (snd (snd i))"

fun snapshot_from :: "world \<Rightarrow> (pystr, stat_id) pydict \<Rightarrow> pystr list \<Rightarrow> (pystr, stat_id) pydict res" where
  "snapshot_from w d [] = Inr d"
| "snapshot_from w d (p # ps) =
     (case w_files w p of
        None \<Rightarrow> Inl OSErr
      | Some i \<Rightarrow> bind_res (require (fi_regular i \<and> 0 < stat_size (fi_stat i)) ''invalid source file'')
          (\<lambda>_. snapshot_from w (dset p (fi_stat i) d) ps))"

definition snapshot :: "world \<Rightarrow> pystr list \<Rightarrow> (pystr, stat_id) pydict res" where
  "snapshot w paths = snapshot_from w [] paths"

definition octal :: "pystr \<Rightarrow> int" where
  "octal s = foldl (\<lambda>n c. 8 * n + (c - 48)) 0 s"

definition read_only :: "pystr \<Rightarrow> bool" where
  "read_only text \<longleftrightarrow> (let flags = re_findall flags_pattern None text in
     length flags = 1 \<and> octal (hd (hd flags)) AND 3 = 0)"

fun check_fds :: "(int \<times> int) list \<Rightarrow> proc_fd list \<Rightarrow> unit res" where
  "check_fds ids [] = Inr ()"
| "check_fds ids (Gone # fs) = check_fds ids fs"
| "check_fds ids (Denied # fs) = Inl OSErr"
| "check_fds ids (FdOf i info # fs) =
     (if i \<notin> set ids then check_fds ids fs
      else (case info of
          NoInfo \<Rightarrow> check_fds ids fs
        | DeniedInfo \<Rightarrow> Inl OSErr
        | Info text \<Rightarrow> bind_res (require (read_only text) ''capture still has a writable source descriptor'')
            (\<lambda>_. check_fds ids fs)))"

definition check_closed :: "world \<Rightarrow> (pystr, stat_id) pydict \<Rightarrow> unit res" where
  "check_closed w sources =
    (case w_proc w of
       None \<Rightarrow> Inl (ValueError ''source writer check requires Linux /proc'')
     | Some fds \<Rightarrow> check_fds (map (\<lambda>(p, i). (fst i, fst (snd i))) sources) fds)"

subsection \<open>What a snapshot says\<close>

lemma snapshot_from_Inr:
  "snapshot_from w d ps = Inr d' \<Longrightarrow>
     (\<forall>p \<in> set ps. \<exists>i. w_files w p = Some i \<and> fi_regular i \<and> 0 < stat_size (fi_stat i)
        \<and> map_of d' p = Some (fi_stat i))
     \<and> (\<forall>p. p \<notin> set ps \<longrightarrow> map_of d' p = map_of d p)"
proof (induction ps arbitrary: d)
  case (Cons p ps)
  then obtain i where i: "w_files w p = Some i" "fi_regular i" "0 < stat_size (fi_stat i)"
    "snapshot_from w (dset p (fi_stat i) d) ps = Inr d'"
    by (auto simp: bind_res_Inr split: option.splits)
  from Cons.IH [OF i(4)] i(1-3) show ?case by (cases "p \<in> set ps") (auto simp: map_of_dset)
qed simp

lemma snapshot_Inr:
  assumes "snapshot w ps = Inr d" and "p \<in> set ps"
  shows "\<exists>i. w_files w p = Some i \<and> fi_regular i \<and> 0 < stat_size (fi_stat i) \<and> map_of d p = Some (fi_stat i)"
  using snapshot_from_Inr [of w "[]" ps d] assms by (simp add: snapshot_def)

end
