(* ===== verification/Unlink_Audit.thy ===== *)
theory Unlink_Audit
  imports Sources Temporal Detect Dataset
begin

section \<open>Counting deletions: \<open>audit_unlink_buckets.py\<close>\<close>

text \<open>
  The audit reads a compressed capture and a dataset, and counts the \<open>FILE_UNLINK\<close> events of each row
  of the dataset: the attempts, the distinct directories, and the attempts whose directory is not
  known.  The report extends what \<open>temporal_features\<close> reads.  The NPZ file, the decompressor and the
  readings of the file system are inputs; the summaries by class and technique are left out.
\<close>

subsection \<open>Data\<close>

record npz =
  z_buckets :: "int list"
  z_labels :: "pystr list"
  z_techniques :: "pystr list"
  z_sessions :: "pystr list"

record ustate =
  us_attempts :: "int list"
  us_unknown :: "int list"
  us_scopes :: "(int \<times> int) list list"
  us_total :: int
  us_outside :: int
  us_outside_unknown :: int
  us_frames :: int
  us_inode_zero :: int
  us_partial :: int
  us_unavailable :: int
  us_truncated :: int

record unlink_report = unlink_audit +
  ur_frames :: int
  ur_expected :: int
  ur_unknown :: int
  ur_matched_unknown :: int
  ur_outside_unknown :: int
  ur_inode_zero :: int
  ur_path_flags :: "int \<times> int \<times> int"
  ur_session :: pystr
  ur_bucket_ns :: int
  ur_labels :: "pystr list"
  ur_techniques :: "pystr list"

subsection \<open>The dataset\<close>

definition check_npz :: "npz \<Rightarrow> unit res" where
  "check_npz z =
    (if z_buckets z = [] \<or> list_ex (\<lambda>b. b < 0) (z_buckets z)
        \<or> list_ex (\<lambda>b. b mod BUCKET_NS \<noteq> 0) (z_buckets z) \<or> \<not> distinct (z_buckets z)
     then Inl (ValueError ''invalid/duplicate NPZ bucket_ns'')
     else if list_ex (\<lambda>a. length a \<noteq> length (z_buckets z)) [z_labels z, z_techniques z, z_sessions z]
     then Inl (ValueError ''NPZ array length mismatch'')
     else if \<not> list_all (\<lambda>l. l \<in> set [ucode ''normal'', ucode ''attack'']) (z_labels z)
        \<or> [] \<in> set (z_techniques z) \<or> length (remdups (z_sessions z)) \<noteq> 1 \<or> [] \<in> set (z_sessions z)
     then Inl (ValueError ''invalid NPZ labels/techniques/session'')
     else Inr ())"

definition u_init :: "int list \<Rightarrow> ustate" where
  "u_init bs = \<lparr>us_attempts = map (\<lambda>_. 0) bs, us_unknown = map (\<lambda>_. 0) bs, us_scopes = map (\<lambda>_. []) bs,
     us_total = 0, us_outside = 0, us_outside_unknown = 0, us_frames = 0, us_inode_zero = 0,
     us_partial = 0, us_unavailable = 0, us_truncated = 0\<rparr>"

definition row_index :: "int list \<Rightarrow> int \<Rightarrow> nat option" where
  "row_index bs b = map_of (rev (zip bs [0..<length bs])) b"

subsection \<open>The events\<close>

definition u_check :: "frame_hdr \<Rightarrow> py_error option" where
  "u_check h =
    (if fh_magic h \<noteq> ebpf_magic \<or> fh_version h \<noteq> 1 \<or> fh_little h \<noteq> 1 \<or> fh_reserved h \<noteq> 0
        \<or> \<not> (88 \<le> fh_size h \<and> fh_size h \<le> 376)
     then Some (ValueError ''invalid frame'') else None)"

definition one_if :: "bool \<Rightarrow> int" where
  "one_if b = (if b then 1 else 0)"

definition scope_missing :: "bytes \<Rightarrow> bool" where
  "scope_missing ev \<longleftrightarrow> rd 4 ev 104 = 0 \<or> rd 8 ev 96 = 0"

text \<open>An unlink event that is counted, and its row.\<close>

definition u_place :: "int list \<Rightarrow> bytes \<Rightarrow> ustate \<Rightarrow> ustate" where
  "u_place bs ev s =
    (let missing = scope_missing ev in
     case row_index bs (rd 8 ev 0 div BUCKET_NS * BUCKET_NS) of
       None \<Rightarrow> s\<lparr>us_outside := us_outside s + 1, us_outside_unknown := us_outside_unknown s + one_if missing\<rparr>
     | Some row \<Rightarrow> s\<lparr>us_attempts := (us_attempts s)[row := us_attempts s ! row + 1],
         us_unknown := (us_unknown s)[row := us_unknown s ! row + one_if missing],
         us_scopes := (if missing then us_scopes s
           else (us_scopes s)[row := List.insert (rd 4 ev 104, rd 8 ev 96) (us_scopes s ! row)])\<rparr>)"

definition u_unlink :: "int list \<Rightarrow> bytes \<Rightarrow> ustate \<Rightarrow> ustate" where
  "u_unlink bs ev s =
    (let flags = rd 4 ev 64 in
     u_place bs ev (s\<lparr>us_total := us_total s + 1, us_inode_zero := us_inode_zero s + one_if (rd 8 ev 88 = 0),
       us_partial := us_partial s + one_if (flags AND 4 \<noteq> 0),
       us_unavailable := us_unavailable s + one_if (flags AND 1 \<noteq> 0),
       us_truncated := us_truncated s + one_if (flags AND 2 \<noteq> 0)\<rparr>))"

definition u_handle :: "int list \<Rightarrow> ustate handler" where
  "u_handle bs s buf n =
    (let ev = take n buf; kind = rd 2 ev 70 in
     if rd 2 ev 68 \<noteq> 1 \<or> rd 4 ev 60 \<noteq> int n \<or> int n < min_event_size kind
     then (s, Inl (ValueError ''invalid event schema/declared size/type/minimum size''))
     else let s1 = s\<lparr>us_frames := us_frames s + 1\<rparr> in
       if kind = 7 then
         (if rd 4 ev 116 \<noteq> 2 then (s1, Inl (ValueError ''FILE_UNLINK has invalid operation''))
          else (u_unlink bs ev s1, Inr ()))
       else (s1, Inr ()))"

subsection \<open>The audit\<close>

text \<open>
  What the audit is given: the paths, two readings of the world, the identity of the opened capture
  before and after reading it, the arrays of the dataset, and the output and status of \<open>zstd\<close>.
\<close>

record audit_input =
  ai_capture :: pystr
  ai_npz :: pystr
  ai_expected :: int
  ai_before :: world
  ai_after :: world
  ai_opened :: stat_id
  ai_closed :: stat_id
  ai_data :: "npz res"
  ai_chunks :: "bytes list"
  ai_status :: int

definition ends_with :: "pystr \<Rightarrow> string \<Rightarrow> bool" where
  "ends_with s t \<longleftrightarrow> starts_with (rev s) (rev (ucode t))"

definition unlink_rows :: "npz \<Rightarrow> ustate \<Rightarrow> urow list" where
  "unlink_rows z s = map (\<lambda>i. \<lparr>u_time = z_buckets z ! i, u_attempts = us_attempts s ! i,
     u_scopes = int (length (us_scopes s ! i)), u_unscoped = us_unknown s ! i\<rparr>) [0..<length (z_buckets z)]"

definition unlink_report_of :: "audit_input \<Rightarrow> npz \<Rightarrow> ustate \<Rightarrow> unlink_report" where
  "unlink_report_of a z s = \<lparr>au_rows = unlink_rows z s, au_outside = us_outside s,
     au_npz_buckets = int (length (z_buckets z)), au_matched = sum_list (us_attempts s),
     au_recorded = us_total s, ur_frames = us_frames s, ur_expected = ai_expected a,
     ur_unknown = sum_list (us_unknown s) + us_outside_unknown s,
     ur_matched_unknown = sum_list (us_unknown s), ur_outside_unknown = us_outside_unknown s,
     ur_inode_zero = us_inode_zero s,
     ur_path_flags = (us_partial s, us_unavailable s, us_truncated s), ur_session = hd (z_sessions z),
     ur_bucket_ns = BUCKET_NS, ur_labels = z_labels z, ur_techniques = z_techniques z\<rparr>"

text \<open>Reading the decompressed capture: its frames, the status of the decompressor, a rest.\<close>

definition read_unlinks :: "audit_input \<Rightarrow> npz \<Rightarrow> ustate res" where
  "read_unlinks a z =
    (case feed u_check (u_handle (z_buckets z)) (u_init (z_buckets z)) [] (ai_chunks a) of
       (s, rest, Some e) \<Rightarrow> Inl e
     | (s, rest, None) \<Rightarrow>
         bind_res (require (ai_status a = 0) ''zstd decompression failed'') (\<lambda>_.
         bind_res (require (rest = []) ''incomplete final frame'') (\<lambda>_. Inr s)))"

definition audit_unlinks :: "audit_input \<Rightarrow> unlink_report res" where
  "audit_unlinks a =
    bind_res (require (ends_with (ai_capture a) ''.bin.zst'' \<and> 0 \<le> ai_expected a)
      ''require a .bin.zst capture and nonnegative expected unlink count'') (\<lambda>_.
    bind_res (snapshot (ai_before a) [ai_capture a, ai_npz a]) (\<lambda>sources.
    bind_res (check_closed (ai_before a) sources) (\<lambda>_.
    bind_res (ai_data a) (\<lambda>z.
    bind_res (check_npz z) (\<lambda>_.
    bind_res (require (Some (ai_opened a) = map_of sources (ai_capture a))
      ''capture identity changed before reading'') (\<lambda>_.
    bind_res (read_unlinks a z) (\<lambda>s.
    bind_res (require (Some (ai_closed a) = map_of sources (ai_capture a))
      ''capture identity changed while reading'') (\<lambda>_.
    bind_res (snapshot (ai_after a) [ai_capture a, ai_npz a]) (\<lambda>again.
    bind_res (require (again = sources) ''source identity changed while reading'') (\<lambda>_.
    bind_res (check_closed (ai_after a) sources) (\<lambda>_.
    bind_res (require (us_total s = ai_expected a) ''FILE_UNLINK count mismatch'') (\<lambda>_.
      Inr (unlink_report_of a z s)))))))))))))"

end
