(* ===== verification/Collection.thy ===== *)
theory Collection
  imports Unlink_Audit
begin

section \<open>The quality of a collection\<close>

text \<open>
  \<open>audit_network_capture.py\<close> counts the network events of a capture and lists those without complete
  socket metadata; \<open>check_collection\<close> of \<open>finalize_event_time_session.py\<close> holds them against the
  counters that the collector printed when it ended.
\<close>

subsection \<open>Auditing the network events\<close>

text \<open>\<open>str.split()\<close>.\<close>

fun words_from :: "pystr \<Rightarrow> pystr \<Rightarrow> pystr list" where
  "words_from acc [] = (if acc = [] then [] else [rev acc])"
| "words_from acc (c # cs) =
     (if is_space c then (if acc = [] then words_from [] cs else rev acc # words_from [] cs)
      else words_from (c # acc) cs)"

definition words :: "pystr \<Rightarrow> pystr list" where
  "words s = words_from [] s"

record incomplete =
  in_type :: int
  in_ts :: int
  in_flags :: int
  in_result :: int
  in_family :: int
  in_unit :: "pystr option"

record network_audit =
  na_counts :: "int counter"
  na_incomplete :: "incomplete list"

definition nth_word :: "pystr list \<Rightarrow> nat \<Rightarrow> pystr res" where
  "nth_word t i = (if i < length t then Inr (t ! i) else Inl (RuntimeErr ''IndexError''))"

text \<open>The unit of the first interval that contains a time; the words are read only as far as needed.\<close>

fun unit_at :: "pystr list list \<Rightarrow> int \<Rightarrow> pystr option res" where
  "unit_at [] ts = Inr None"
| "unit_at (t # rest) ts =
     bind_res (nth_word t 0) (\<lambda>w0. bind_res (parse_int w0) (\<lambda>start.
       if ts < start then unit_at rest ts
       else bind_res (nth_word t 1) (\<lambda>w1. bind_res (parse_int w1) (\<lambda>stop.
         if stop < ts then unit_at rest ts
         else bind_res (nth_word t 3) (\<lambda>u. Inr (Some u))))))"

definition incomplete_event :: "bytes \<Rightarrow> pystr option \<Rightarrow> incomplete" where
  "incomplete_event ev u = \<lparr>in_type = rd 2 ev 70, in_ts = rd 8 ev 0, in_flags = rd 4 ev 64,
     in_result = le_sint (bslice ev 56 60), in_family = rd 2 ev 152, in_unit = u\<rparr>"

definition n_handle :: "pystr list list \<Rightarrow> network_audit handler" where
  "n_handle ivs s buf n =
    (let ev = take n buf; kind = rd 2 ev 70 in
     if 8 \<le> kind \<and> kind \<le> 13 then
       (if n < 200 then (s, Inl (ValueError ''short network frame''))
        else let s1 = s\<lparr>na_counts := cadd kind 1 (na_counts s)\<rparr> in
          if rd 4 ev 64 AND 64 \<noteq> 0 then (s1, Inr ())
          else (case unit_at ivs (rd 8 ev 0) of
              Inl e \<Rightarrow> (s1, Inl e)
            | Inr u \<Rightarrow> (s1\<lparr>na_incomplete := na_incomplete s1 @ [incomplete_event ev u]\<rparr>, Inr ())))
     else (s, Inr ()))"

definition audit_network :: "bytes list \<Rightarrow> pystr \<Rightarrow> network_audit res" where
  "audit_network chunks timeline =
    (case feed u_check (n_handle (map words (file_lines timeline))) \<lparr>na_counts = [], na_incomplete = []\<rparr> [] chunks of
       (s, rest, Some e) \<Rightarrow> Inl e
     | (s, rest, None) \<Rightarrow> bind_res (require (rest = []) ''incomplete final frame'') (\<lambda>_. Inr s))"

subsection \<open>The counters of the collector\<close>

definition EVENT_NAMES :: "string list" where
  "EVENT_NAMES = [''PROCESS_FORK'', ''PROCESS_EXEC'', ''PROCESS_EXIT'', ''SYSCALL_ENTER'', ''SYSCALL_EXIT'',
     ''FILE_OPEN'', ''FILE_UNLINK'', ''NETWORK_CONNECT'', ''NETWORK_BIND'', ''NETWORK_LISTEN'',
     ''NETWORK_ACCEPT'', ''NETWORK_UDP_SEND'', ''NETWORK_TCP_STATE'', ''HEALTH'']"

definition NETWORK_NAMES :: "(int \<times> string) list" where
  "NETWORK_NAMES = zip [8..13] (take 6 (drop 7 EVENT_NAMES))"

record quality =
  q_writer :: "(string \<times> int) list"
  q_received :: "(pystr, int) pydict"
  q_network :: "(string \<times> int) list"
  q_complete :: bool

definition counter_of :: "pystr \<Rightarrow> re_item list \<Rightarrow> int res" where
  "counter_of log re =
    (let found = re_findall re None log in
     bind_res (require (length found = 1) ''missing/duplicate collector counter'')
       (\<lambda>_. Inr (digits_value (hd (hd found)))))"

fun counters_of :: "pystr \<Rightarrow> (string \<Rightarrow> re_item list) \<Rightarrow> string list \<Rightarrow> (string \<times> int) list res" where
  "counters_of log re [] = Inr []"
| "counters_of log re (n # ns) = bind_res (counter_of log (re n)) (\<lambda>v.
     bind_res (counters_of log re ns) (\<lambda>vs. Inr ((n, v) # vs)))"

fun check_kinds :: "network_audit \<Rightarrow> (pystr, int) pydict \<Rightarrow> (int \<times> string) list \<Rightarrow> unit res" where
  "check_kinds na received [] = Inr ()"
| "check_kinds na received ((kind, name) # ks) =
     (case map_of received (ucode name) of
        None \<Rightarrow> Inl (KeyErr name)
      | Some r \<Rightarrow>
          bind_res (require (cget (na_counts na) kind = r) ''raw/collector count mismatch'') (\<lambda>_.
          bind_res (require (kind \<in> {8, 9} \<or> r = 0) ''unsupported network type'') (\<lambda>_.
          check_kinds na received ks)))"

definition check_collection :: "pystr \<Rightarrow> network_audit \<Rightarrow> quality res" where
  "check_collection log na =
    bind_res (counters_of log writer_pattern [''queue'', ''priority'']) (\<lambda>writer.
    bind_res (require (list_all (\<lambda>(n, v). v = 0) writer) ''writer loss'') (\<lambda>_.
    let rows = re_findall event_pattern None log in
    bind_res (require (length rows = length EVENT_NAMES \<and> set (map (\<lambda>r. r ! 0) rows) = set (map ucode EVENT_NAMES))
      ''missing/duplicate collector event statistics'') (\<lambda>_.
    bind_res (require (list_all (\<lambda>r. digits_value (r ! 2) = 0) rows) ''collector event loss'') (\<lambda>_.
    let received = fold (\<lambda>r d. dset (r ! 0) (digits_value (r ! 1)) d) rows [] in
    bind_res (counters_of log network_pattern [''map_update_failed'', ''socket_read_failed'', ''ringbuf_lost'',
      ''user_read_failed'', ''filtered'', ''rate_limited'']) (\<lambda>network.
    bind_res (require (list_all (\<lambda>(n, v). n = ''socket_read_failed'' \<or> v = 0) network) ''network loss/filtering'') (\<lambda>_.
    bind_res (require (list_all (\<lambda>(k, v). k \<in> set (map fst NETWORK_NAMES) \<and> 0 \<le> v) (na_counts na))
      ''invalid audited network counts'') (\<lambda>_.
    bind_res (check_kinds na received NETWORK_NAMES) (\<lambda>_.
    bind_res (require (map_of network ''socket_read_failed'' = Some (int (length (na_incomplete na))))
      ''socket metadata count does not match socket_read_failed'') (\<lambda>_.
    bind_res (require (list_all (\<lambda>i. in_type i \<in> {8, 9} \<and> in_flags i AND 64 = 0) (na_incomplete na))
      ''unsupported incomplete socket metadata'') (\<lambda>_.
      Inr \<lparr>q_writer = writer, q_received = received, q_network = network, q_complete = (na_incomplete na = [])\<rparr>))))))))))"

subsection \<open>What was checked\<close>

lemma check_kinds_Inr:
  "check_kinds na received ks = Inr u \<longleftrightarrow> (\<forall>(kind, name) \<in> set ks.
     map_of received (ucode name) = Some (cget (na_counts na) kind) \<and> (kind \<in> {8, 9} \<or> cget (na_counts na) kind = 0))"
  by (induction ks) (auto simp: bind_res_Inr split: option.splits)

lemma check_collection_Inr:
  assumes "check_collection log na = Inr q"
  shows "\<forall>(kind, name) \<in> set NETWORK_NAMES. map_of (q_received q) (ucode name) = Some (cget (na_counts na) kind)
      \<and> (kind \<in> {8, 9} \<or> cget (na_counts na) kind = 0)"
    and "list_all (\<lambda>(n, v). v = 0) (q_writer q)"
    and "list_all (\<lambda>(n, v). n = ''socket_read_failed'' \<or> v = 0) (q_network q)"
    and "map_of (q_network q) ''socket_read_failed'' = Some (int (length (na_incomplete na)))"
  using assms unfolding check_collection_def by (auto simp: bind_res_Inr Let_def check_kinds_Inr)

end
