(* ===== verification/Finalize.thy ===== *)
theory Finalize
  imports Collection
begin

section \<open>Finalising a session: \<open>finalize_event_time_session.py\<close>\<close>

text \<open>
  \<open>finalize\<close> audits a closed capture, replays it, builds the dataset and publishes it last.  The files
  beside the prefix are the list of their suffixes; a step creates or removes one, or only checks.  The
  readings of the world between the steps, the exit status of the replay and the logs that it wrote
  are inputs; the parser of JSON is a parameter.
\<close>

subsection \<open>Steps on the files of a session\<close>

type_synonym suffixes = "string list"
type_synonym 'a fz = "suffixes \<Rightarrow> suffixes \<times> 'a res"

definition fz_bind :: "'a fz \<Rightarrow> ('a \<Rightarrow> 'b fz) \<Rightarrow> 'b fz" where
  "fz_bind m f fs = (case m fs of (fs', Inl e) \<Rightarrow> (fs', Inl e) | (fs', Inr a) \<Rightarrow> f a fs')"

definition fz_lift :: "'a res \<Rightarrow> 'a fz" where
  "fz_lift r fs = (fs, r)"

definition fz_require :: "bool \<Rightarrow> string \<Rightarrow> unit fz" where
  "fz_require c m fs = (fs, require c m)"

text \<open>\<open>create\<close>: exclusive creation; \<open>build\<close> opens its output without that.\<close>

definition fz_create :: "string \<Rightarrow> unit fz" where
  "fz_create x fs = (if x \<in> set fs then (fs, Inl OSErr) else (x # fs, Inr ()))"

definition fz_write :: "string \<Rightarrow> unit fz" where
  "fz_write x fs = (List.insert x fs, Inr ())"

definition fz_remove :: "string \<Rightarrow> unit fz" where
  "fz_remove x fs = (removeAll x fs, Inr ())"

text \<open>The replay rotates its log: with more than one file, the older ones have appeared.\<close>

definition fz_rotate :: "nat \<Rightarrow> unit fz" where
  "fz_rotate n fs = ((if 3 \<le> n then [''.diagnostic.jsonl.2''] else []) @ (if 2 \<le> n then [''.diagnostic.jsonl.1''] else [])
     @ fs, Inr ())"

definition fz_get :: "suffixes fz" where
  "fz_get fs = (fs, Inr fs)"

subsection \<open>The health records\<close>

datatype health_line = BadJson | NotHealth | HealthLine jfield "jfield list"

definition check_record :: "health_line \<Rightarrow> int list res" where
  "check_record h =
    (case h of
       BadJson \<Rightarrow> Inl (ValueError ''JSON'')
     | NotHealth \<Rightarrow> Inr []
     | HealthLine ts losses \<Rightarrow>
         (case ts of
            IntF t \<Rightarrow> bind_res (require (losses = replicate 4 (IntF 0)) ''HEALTH loss/missing counters'') (\<lambda>_. Inr [t])
          | _ \<Rightarrow> Inl (ValueError ''invalid HEALTH timestamp'')))"

fun health_times :: "health_line list \<Rightarrow> int list res" where
  "health_times [] = Inr []"
| "health_times (h # hs) = bind_res (check_record h) (\<lambda>t. bind_res (health_times hs) (\<lambda>ts. Inr (t @ ts)))"

record health_cover =
  hc_records :: nat
  hc_first :: int
  hc_last :: int

definition check_health :: "(pystr \<Rightarrow> health_line) \<Rightarrow> pystr list \<Rightarrow> int \<Rightarrow> int \<Rightarrow> health_cover res" where
  "check_health loads logs start stop =
    bind_res (health_times (map loads (concat (map file_lines logs)))) (\<lambda>health.
    bind_res (require (health \<noteq> [] \<and> Min (set health) \<le> start \<and> stop \<le> Max (set health))
      ''missing pre/post-session HEALTH coverage'') (\<lambda>_.
      Inr \<lparr>hc_records = length health, hc_first = Min (set health), hc_last = Max (set health)\<rparr>))"

subsection \<open>The session\<close>

record 'f session =
  s_prefix :: pystr
  s_below_whs :: bool
  s_start :: int
  s_end :: int
  s_id :: "pystr option"
  s_paths :: "pystr list"
  s_worlds :: "nat \<Rightarrow> world"
  s_chunks :: "bytes list"
  s_timeline :: pystr
  s_log :: pystr
  s_replay :: int
  s_diagnostic :: "logfile list"

record 'f manifest =
  m_session :: pystr
  m_sources :: "(pystr, stat_id) pydict"
  m_quality :: quality
  m_health :: health_cover
  m_incomplete :: nat
  m_stats :: "'f built"

definition path_char :: "int \<Rightarrow> bool" where
  "path_char c \<longleftrightarrow> is_digit c \<or> (65 \<le> c \<and> c \<le> 90) \<or> (97 \<le> c \<and> c \<le> 122) \<or> c \<in> {95, 45}"

definition valid_prefix :: "pystr \<Rightarrow> bool" where
  "valid_prefix s \<longleftrightarrow> starts_with s (ucode ''/whs/'') \<and> drop 5 s \<noteq> [] \<and> list_all (\<lambda>c. path_char c \<or> c \<in> {46, 47}) (drop 5 s)"

definition valid_id :: "pystr option \<Rightarrow> bool" where
  "valid_id i = (case i of None \<Rightarrow> False | Some s \<Rightarrow> s \<noteq> [] \<and> list_all path_char s)"

definition outputs :: "string list" where
  "outputs = [''.diagnostic.jsonl'', ''.diagnostic.jsonl.1'', ''.diagnostic.jsonl.2'', ''.replay.alerts.jsonl'',
     ''.replay.log'', ''.event_time.partial'', ''.event_time.npz'', ''.event_time.stats.partial'',
     ''.event_time.stats.json'', ''.network.audit.json'', ''.manifest.json'']"

text \<open>The intervals of a complete session: 93 units in order, within its bounds, without overlap.\<close>

definition check_timeline :: "int \<Rightarrow> int \<Rightarrow> ival list \<Rightarrow> unit res" where
  "check_timeline start stop is =
    bind_res (require (length is = 93 \<and> length (remdups (map unit_name_of is)) = 93)
      ''expected 93 distinct completed timeline units'') (\<lambda>_.
    bind_res (require (list_all (\<lambda>i. class_of i \<in> set classes) is) ''unknown timeline unit'') (\<lambda>_.
    require (start \<le> left (hd is) \<and> right (last is) \<le> stop
        \<and> list_all (\<lambda>(a, b). right a \<le> left b) (zip is (tl is)))
      ''timeline overlaps or lies outside session bounds''))"

definition stats_complete :: "'f built \<Rightarrow> bool" where
  "stats_complete b \<longleftrightarrow> 0 < cget (bt_counts b) ''normal'' \<and> 0 < cget (bt_counts b) ''attack'' \<and> bt_missing b = []
     \<and> cget (bt_counts b) ''duplicate_buckets'' = cget (bt_counts b) ''skipped_duplicate''
     \<and> cget (bt_counts b) ''skipped_duplicate'' = cget (bt_counts b) ''skipped_unknown''
     \<and> cget (bt_counts b) ''skipped_unknown'' = cget (bt_counts b) ''truncated_final_lines''
     \<and> cget (bt_counts b) ''truncated_final_lines'' = 0"

definition same_sources :: "'f session \<Rightarrow> nat \<Rightarrow> (pystr, stat_id) pydict \<Rightarrow> unit res" where
  "same_sources s n sources = bind_res (snapshot (s_worlds s n) (s_paths s)) (\<lambda>again.
     require (again = sources) ''source files changed'')"

text \<open>The body of the \<open>try\<close> statement, with the lock held.\<close>

definition finalize_locked :: "('f \<Rightarrow> bool) \<Rightarrow> (pystr \<Rightarrow> 'f jparsed) \<Rightarrow> (pystr \<Rightarrow> health_line) \<Rightarrow> 'f session
    \<Rightarrow> 'f manifest fz" where
  "finalize_locked fin loads hloads s =
    fz_bind fz_get (\<lambda>fs.
    fz_bind (fz_require (list_all (\<lambda>p. p \<notin> set fs) outputs) ''finalization artifact already exists'') (\<lambda>_.
    fz_bind (fz_lift (snapshot (s_worlds s 0) (s_paths s))) (\<lambda>sources.
    fz_bind (fz_lift (check_closed (s_worlds s 1) sources)) (\<lambda>_.
    fz_bind (fz_lift (read_timeline (s_timeline s))) (\<lambda>is.
    fz_bind (fz_lift (check_timeline (s_start s) (s_end s) is)) (\<lambda>_.
    fz_bind (fz_lift (audit_network (s_chunks s) (s_timeline s))) (\<lambda>network.
    fz_bind (fz_lift (check_collection (s_log s) network)) (\<lambda>quality.
    fz_bind (fz_lift (same_sources s 2 sources)) (\<lambda>_.
    fz_bind (fz_create ''.diagnostic.jsonl'') (\<lambda>_.
    fz_bind (fz_create ''.replay.alerts.jsonl'') (\<lambda>_.
    fz_bind (fz_create ''.replay.log'') (\<lambda>_.
    fz_bind (fz_rotate (length (s_diagnostic s))) (\<lambda>_.
    fz_bind (fz_lift (if s_replay s = 0 then Inr () else Inl (RuntimeErr ''CalledProcessError''))) (\<lambda>_.
    fz_bind (fz_lift (same_sources s 3 sources)) (\<lambda>_.
    fz_bind (fz_lift (build_dataset fin loads (s_diagnostic s) (s_timeline s) (Some (s_start s)) (Some (s_end s)))) (\<lambda>stats.
    fz_bind (fz_write ''.event_time.partial'') (\<lambda>_.
    fz_bind (fz_require (stats_complete stats) ''dataset missing/unknown/duplicate buckets or units'') (\<lambda>_.
    fz_bind (fz_lift (check_health hloads (map lf_text (s_diagnostic s)) (s_start s) (s_end s))) (\<lambda>health.
    fz_bind (fz_lift (check_closed (s_worlds s 4) sources)) (\<lambda>_.
    fz_bind (fz_lift (same_sources s 5 sources)) (\<lambda>_.
    fz_bind (fz_create ''.event_time.stats.json'') (\<lambda>_.
    fz_bind (fz_create ''.network.audit.json'') (\<lambda>_.
    fz_bind (fz_create ''.manifest.json'') (\<lambda>_.
    fz_bind (fz_lift (same_sources s 6 sources)) (\<lambda>_.
    fz_bind fz_get (\<lambda>now.
    fz_bind (fz_require (''.event_time.npz'' \<notin> set now) ''source changed or final NPZ already exists'') (\<lambda>_.
    fz_bind (fz_create ''.event_time.npz'') (\<lambda>_.
    fz_bind (fz_remove ''.event_time.partial'') (\<lambda>_.
      fz_lift (Inr \<lparr>m_session = the (s_id s), m_sources = sources, m_quality = quality, m_health = health,
        m_incomplete = length (na_incomplete network), m_stats = stats\<rparr>))))))))))))))))))))))))))))))"

text \<open>\<open>finalize\<close>: the arguments, the lock, the body, and the removal of the lock whatever happened.\<close>

definition finalize_session :: "('f \<Rightarrow> bool) \<Rightarrow> (pystr \<Rightarrow> 'f jparsed) \<Rightarrow> (pystr \<Rightarrow> health_line) \<Rightarrow> 'f session
    \<Rightarrow> 'f manifest fz" where
  "finalize_session fin loads hloads s =
    fz_bind (fz_require (valid_prefix (s_prefix s)) ''invalid /whs prefix'') (\<lambda>_.
    fz_bind (fz_require (s_below_whs s) ''prefix escapes /whs'') (\<lambda>_.
    fz_bind (fz_require (0 \<le> s_start s \<and> s_start s < s_end s) ''invalid session bounds'') (\<lambda>_.
    fz_bind (fz_require (valid_id (s_id s)) ''invalid session ID'') (\<lambda>_.
    fz_bind (fz_create ''.finalize.lock'') (\<lambda>_ fs.
      (case finalize_locked fin loads hloads s fs of (fs', r) \<Rightarrow> (removeAll ''.finalize.lock'' fs', r)))))))"

end
