(* ===== verification/Unlink_Claims.thy ===== *)
theory Unlink_Claims
  imports Unlink_Audit Detect_Lemmas Temporal_Claims
begin

section \<open>The audit counts every deletion once\<close>

declare split_paired_All [simp del] split_paired_Ex [simp del]

subsection \<open>The counts of a list of events\<close>

definition is_unlink :: "bytes \<Rightarrow> bool" where
  "is_unlink p \<longleftrightarrow> p_kind p = 7"

definition bucket_of :: "bytes \<Rightarrow> int" where
  "bucket_of p = rd 8 p 0 div BUCKET_NS * BUCKET_NS"

definition hits :: "int \<Rightarrow> bytes list \<Rightarrow> bytes list" where
  "hits b ps = filter (\<lambda>p. is_unlink p \<and> bucket_of p = b) ps"

definition scope_of :: "bytes \<Rightarrow> int \<times> int" where
  "scope_of p = (rd 4 p 104, rd 8 p 96)"

definition scopes_of :: "bytes list \<Rightarrow> (int \<times> int) list" where
  "scopes_of ps = fold (\<lambda>p. List.insert (scope_of p)) (filter (\<lambda>p. \<not> scope_missing p) ps) []"

definition n_of :: "('a \<Rightarrow> bool) \<Rightarrow> 'a list \<Rightarrow> int" where
  "n_of P xs = int (length (filter P xs))"

lemma one_if_simps [simp]: "one_if True = 1" "one_if False = 0"
  by (simp_all add: one_if_def)

lemma n_of_snoc [simp]: "n_of P [] = 0" "n_of P (xs @ [x]) = n_of P xs + one_if (P x)"
  by (simp_all add: n_of_def one_if_def)

lemma hits_snoc: "hits b (ps @ [p]) = hits b ps @ (if is_unlink p \<and> bucket_of p = b then [p] else [])"
  by (simp add: hits_def)

definition counted :: "int list \<Rightarrow> bytes list \<Rightarrow> ustate" where
  "counted bs ps = \<lparr>us_attempts = map (\<lambda>b. n_of (\<lambda>_. True) (hits b ps)) bs,
     us_unknown = map (\<lambda>b. n_of scope_missing (hits b ps)) bs,
     us_scopes = map (\<lambda>b. scopes_of (hits b ps)) bs,
     us_total = n_of is_unlink ps,
     us_outside = n_of (\<lambda>p. is_unlink p \<and> bucket_of p \<notin> set bs) ps,
     us_outside_unknown = n_of (\<lambda>p. is_unlink p \<and> bucket_of p \<notin> set bs \<and> scope_missing p) ps,
     us_frames = int (length ps),
     us_inode_zero = n_of (\<lambda>p. is_unlink p \<and> rd 8 p 88 = 0) ps,
     us_partial = n_of (\<lambda>p. is_unlink p \<and> rd 4 p 64 AND 4 \<noteq> 0) ps,
     us_unavailable = n_of (\<lambda>p. is_unlink p \<and> rd 4 p 64 AND 1 \<noteq> 0) ps,
     us_truncated = n_of (\<lambda>p. is_unlink p \<and> rd 4 p 64 AND 2 \<noteq> 0) ps\<rparr>"

lemma counted_Nil: "counted bs [] = u_init bs"
  by (simp add: counted_def u_init_def hits_def scopes_of_def)

lemma row_index_None: "row_index bs b = None \<longleftrightarrow> b \<notin> set bs"
  by (simp add: row_index_def map_of_eq_None_iff map_fst_zip flip: set_map)

lemma row_index_Some: "row_index bs b = Some i \<Longrightarrow> i < length bs \<and> bs ! i = b"
  by (auto simp: row_index_def in_set_zip dest!: map_of_SomeD)

lemma map_update_at:
  assumes "distinct bs" and "i < length bs"
  shows "(map f bs)[i := y] = map (\<lambda>b. if b = bs ! i then y else f b) bs"
  by (rule nth_equalityI) (use assms in \<open>auto simp: nth_list_update nth_eq_iff_index_eq\<close>)

lemma scopes_of_snoc: "scopes_of (ps @ [p]) = (if scope_missing p then scopes_of ps else List.insert (scope_of p) (scopes_of ps))"
  by (simp add: scopes_of_def)

definition u_valid :: "bytes \<Rightarrow> bool" where
  "u_valid p \<longleftrightarrow> d_valid p \<and> (is_unlink p \<longrightarrow> rd 4 p 116 = 2)"

lemma u_handle_counted:
  assumes "distinct bs" and "u_valid p"
  shows "u_handle bs (counted bs ps) p (length p) = (counted bs (ps @ [p]), Inr ())"
proof (cases "is_unlink p")
  case False
  with assms(2) show ?thesis
    by (simp add: u_handle_def u_valid_def d_valid_def is_unlink_def p_kind_def counted_def hits_snoc one_if_def)
next
  case True
  have h: "u_handle bs (counted bs ps) p (length p)
      = (u_unlink bs p ((counted bs ps)\<lparr>us_frames := us_frames (counted bs ps) + 1\<rparr>), Inr ())"
    using assms(2) True by (simp add: u_handle_def u_valid_def d_valid_def is_unlink_def p_kind_def Let_def)
  show ?thesis
  proof (cases "row_index bs (bucket_of p)")
    case None
    then have "bucket_of p \<notin> set bs" by (simp add: row_index_None)
    with None True show ?thesis unfolding h
      by (auto simp: u_unlink_def u_place_def Let_def bucket_of_def [symmetric] counted_def hits_snoc)
  next
    case (Some i)
    then have i: "i < length bs" "bs ! i = bucket_of p" by (auto dest: row_index_Some)
    then have "bucket_of p \<in> set bs" by (metis nth_mem)
    with Some True i show ?thesis unfolding h
      by (auto simp: u_unlink_def u_place_def Let_def bucket_of_def [symmetric] counted_def hits_snoc
          map_update_at [OF assms(1)] scopes_of_snoc scope_of_def one_if_def)
  qed
qed

subsection \<open>The run over a capture\<close>

interpretation ur: exact_reader u_check "u_handle bs" d_accepts for bs
  by unfold_locales (auto simp: u_handle_def u_check_def d_accepts_def Let_def split: if_splits)

lemma u_handle_accepted:
  assumes "u_handle bs s p (length p) = (s', Inr u)" and "d_accepts p"
  shows "u_valid p"
  using assms by (auto simp: u_handle_def u_valid_def d_valid_def is_unlink_def p_kind_def Let_def split: if_splits)

lemma run_counted:
  assumes "distinct bs" and "\<forall>p \<in> set ps. d_accepts p"
    and "run_payloads (u_handle bs) (counted bs qs) ps = (s, None)"
  shows "(\<forall>p \<in> set ps. u_valid p) \<and> s = counted bs (qs @ ps)"
  using assms(2,3)
proof (induction ps arbitrary: qs)
  case (Cons p ps)
  obtain t y where h: "u_handle bs (counted bs qs) p (length p) = (t, y)" by fastforce
  with Cons.prems(2) obtain u where y: "y = Inr u" by (cases y) auto
  then have v: "u_valid p" using u_handle_accepted h Cons.prems(1) by simp
  then have "t = counted bs (qs @ [p])" using u_handle_counted [OF assms(1) v, of qs] h by simp
  then have "run_payloads (u_handle bs) (counted bs (qs @ [p])) ps = (s, None)" using Cons.prems(2) h y by simp
  from Cons.IH [OF _ this] Cons.prems(1) v show ?case by simp
qed simp

lemma read_unlinks_counted:
  assumes "read_unlinks a z = Inr s" and "distinct (z_buckets z)"
  shows "\<exists>ps. concat (ai_chunks a) = concat (map frame_bytes ps) \<and> (\<forall>p \<in> set ps. u_valid p)
    \<and> s = counted (z_buckets z) ps"
proof -
  let ?bs = "z_buckets z"
  from assms(1) have "feed u_check (u_handle ?bs) (u_init ?bs) [] (ai_chunks a) = (s, [], None)"
    by (auto simp: read_unlinks_def bind_res_Inr split: prod.splits option.splits)
  from ur.feed_exact [OF this] obtain ps where ps: "concat (ai_chunks a) = concat (map frame_bytes ps)"
    "run_payloads (u_handle ?bs) (counted ?bs []) ps = (s, None)"
    "\<forall>p \<in> set ps. fits 4 (int (length p)) \<and> u_check (unpack_frame (frame_bytes p)) = None"
    unfolding counted_Nil by blast
  have "d_accepts p" if "fits 4 (int (length p))" "u_check (unpack_frame (frame_bytes p)) = None" for p
    using that unpack_pack_frame [OF that(1), of p]
    by (auto simp: frame_bytes_def u_check_def d_accepts_def split: if_splits)
  with ps(3) have "\<forall>p \<in> set ps. d_accepts p" by blast
  from run_counted [OF assms(2) this ps(2)] ps(1) show ?thesis by auto
qed

text \<open>The row of a second, from the events of the capture.\<close>

definition unlink_row :: "bytes list \<Rightarrow> int \<Rightarrow> urow" where
  "unlink_row ps b = \<lparr>u_time = b, u_attempts = n_of (\<lambda>_. True) (hits b ps),
     u_scopes = int (card (scope_of ` {p \<in> set (hits b ps). \<not> scope_missing p})),
     u_unscoped = n_of scope_missing (hits b ps)\<rparr>"

lemma scopes_of_card: "length (scopes_of ps) = card (scope_of ` {p \<in> set ps. \<not> scope_missing p})"
proof -
  have "distinct (fold (\<lambda>p. List.insert (scope_of p)) qs xs)
      \<and> set (fold (\<lambda>p. List.insert (scope_of p)) qs xs) = set xs \<union> scope_of ` set qs"
    if "distinct xs" for qs and xs :: "(int \<times> int) list"
    using that by (induction qs arbitrary: xs) auto
  from this [of "[]" "filter (\<lambda>p. \<not> scope_missing p) ps"]
  have "distinct (scopes_of ps) \<and> set (scopes_of ps) = scope_of ` {p \<in> set ps. \<not> scope_missing p}"
    by (simp add: scopes_of_def)
  then show ?thesis by (metis distinct_card)
qed

lemma unlink_rows_counted:
  "unlink_rows z (counted (z_buckets z) ps) = map (unlink_row ps) (z_buckets z)"
  by (rule nth_equalityI) (simp_all add: unlink_rows_def counted_def unlink_row_def scopes_of_card)

subsection \<open>The report\<close>

lemma unlinks_split:
  assumes "distinct bs"
  shows "n_of is_unlink ps = sum_list (map (\<lambda>b. n_of (\<lambda>_. True) (hits b ps)) bs)
    + n_of (\<lambda>p. is_unlink p \<and> bucket_of p \<notin> set bs) ps"
proof (induction ps rule: rev_induct)
  case Nil
  have "sum_list (map (\<lambda>b. 0 :: int) bs) = 0" by (induction bs) auto
  then show ?case by (simp add: hits_def)
next
  case (snoc p ps)
  have one: "sum_list (map (\<lambda>b. if bucket_of p = b then 1 else 0) bs) = one_if (bucket_of p \<in> set bs)"
    using assms by (induction bs) (auto simp: one_if_def)
  have "sum_list (map (\<lambda>b. n_of (\<lambda>_. True) (hits b (ps @ [p]))) bs)
      = sum_list (map (\<lambda>b. n_of (\<lambda>_. True) (hits b ps) + (if is_unlink p \<and> bucket_of p = b then 1 else 0)) bs)"
    by (rule arg_cong [where f = sum_list]) (auto simp: hits_snoc)
  also have "\<dots> = sum_list (map (\<lambda>b. n_of (\<lambda>_. True) (hits b ps)) bs)
      + (if is_unlink p then one_if (bucket_of p \<in> set bs) else 0)"
    using one by (cases "is_unlink p") (simp_all add: sum_list_addf)
  finally show ?case using snoc.IH by (simp add: one_if_def)
qed

lemma unlink_row_sane:
  "0 \<le> u_attempts (unlink_row ps b) \<and> 0 \<le> u_scopes (unlink_row ps b) \<and> 0 \<le> u_unscoped (unlink_row ps b)
    \<and> u_scopes (unlink_row ps b) + u_unscoped (unlink_row ps b) \<le> u_attempts (unlink_row ps b)"
proof -
  let ?h = "hits b ps"
  have "card (scope_of ` {p \<in> set ?h. \<not> scope_missing p}) \<le> length (filter (\<lambda>p. \<not> scope_missing p) ?h)"
    by (metis card_image_le card_length finite_set le_trans set_filter)
  moreover have "length (filter (\<lambda>p. \<not> scope_missing p) ?h) + length (filter scope_missing ?h) = length ?h"
    by (simp add: add.commute sum_length_filter_compl)
  ultimately show ?thesis by (simp add: unlink_row_def n_of_def)
qed

lemma audit_unlinks_Inr:
  assumes "audit_unlinks a = Inr r"
  obtains z ps sources where "ai_data a = Inr z" "check_npz z = Inr ()"
    "snapshot (ai_before a) [ai_capture a, ai_npz a] = Inr sources"
    "snapshot (ai_after a) [ai_capture a, ai_npz a] = Inr sources"
    "map_of sources (ai_capture a) = Some (ai_opened a)" "ai_closed a = ai_opened a"
    "concat (ai_chunks a) = concat (map frame_bytes ps)" "\<forall>p \<in> set ps. u_valid p"
    "n_of is_unlink ps = ai_expected a" "r = unlink_report_of a z (counted (z_buckets z) ps)"
proof -
  from assms obtain z s sources where s: "ai_data a = Inr z" "check_npz z = Inr ()"
    "snapshot (ai_before a) [ai_capture a, ai_npz a] = Inr sources"
    "snapshot (ai_after a) [ai_capture a, ai_npz a] = Inr sources"
    "Some (ai_opened a) = map_of sources (ai_capture a)" "Some (ai_closed a) = map_of sources (ai_capture a)"
    "read_unlinks a z = Inr s" "us_total s = ai_expected a" "r = unlink_report_of a z s"
    by (auto simp: audit_unlinks_def bind_res_Inr)
  have d: "distinct (z_buckets z)" using s(2) by (auto simp: check_npz_def split: if_splits)
  from read_unlinks_counted [OF s(7) d] obtain ps where "concat (ai_chunks a) = concat (map frame_bytes ps)"
    "\<forall>p \<in> set ps. u_valid p" "s = counted (z_buckets z) ps" by blast
  moreover have "ai_closed a = ai_opened a" using s(5,6) by (metis option.inject)
  ultimately show thesis using s that by (simp add: counted_def)
qed

lemma check_npz_Inr:
  "check_npz z = Inr u \<Longrightarrow> z_buckets z \<noteq> [] \<and> distinct (z_buckets z)
    \<and> (\<forall>b \<in> set (z_buckets z). 0 \<le> b \<and> b mod BUCKET_NS = 0)"
  by (auto simp: check_npz_def list_ex_iff not_less split: if_splits)

lemma report_fields:
  assumes "distinct (z_buckets z)" and r_def: "r = unlink_report_of a z (counted (z_buckets z) ps)"
  shows "au_rows r = map (unlink_row ps) (z_buckets z)" "au_recorded r = n_of is_unlink ps"
    "au_outside r = n_of (\<lambda>p. is_unlink p \<and> bucket_of p \<notin> set (z_buckets z)) ps"
    "au_recorded r = au_matched r + au_outside r"
    "au_matched r = sum_list (map u_attempts (au_rows r))" "au_npz_buckets r = int (length (au_rows r))"
    "ur_frames r = int (length ps)"
proof -
  show "au_recorded r = au_matched r + au_outside r"
    using unlinks_split [OF assms(1), of ps] by (simp add: r_def unlink_report_of_def counted_def)
  show rows: "au_rows r = map (unlink_row ps) (z_buckets z)"
    by (simp add: r_def unlink_report_of_def unlink_rows_counted)
  then show "au_matched r = sum_list (map u_attempts (au_rows r))"
    by (simp add: r_def unlink_report_of_def counted_def unlink_row_def o_def)
  show "au_npz_buckets r = int (length (au_rows r))" using rows by (simp add: r_def unlink_report_of_def)
qed (simp_all add: r_def unlink_report_of_def counted_def)

text \<open>
  What an audit that succeeds has counted: its input is the capture that both snapshots name, a sequence
  of whole valid frames; each row has the attempts, distinct known directories and unknown attempts of
  its second, and no deletion is lost: the rows and the count outside add up to the expected number.
\<close>

lemma unlink_audit_exact:
  assumes "audit_unlinks a = Inr r"
  shows "\<exists>z ps. ai_data a = Inr z \<and> concat (ai_chunks a) = concat (map frame_bytes ps) \<and> (\<forall>p \<in> set ps. u_valid p)
    \<and> au_rows r = map (unlink_row ps) (z_buckets z) \<and> au_recorded r = n_of is_unlink ps
    \<and> au_recorded r = ai_expected a \<and> au_recorded r = au_matched r + au_outside r
    \<and> au_matched r = sum_list (map u_attempts (au_rows r))"
proof -
  obtain z ps sources where z: "ai_data a = Inr z" "check_npz z = Inr ()"
    "snapshot (ai_before a) [ai_capture a, ai_npz a] = Inr sources"
    "snapshot (ai_after a) [ai_capture a, ai_npz a] = Inr sources"
    "map_of sources (ai_capture a) = Some (ai_opened a)" "ai_closed a = ai_opened a"
    "concat (ai_chunks a) = concat (map frame_bytes ps)" "\<forall>p \<in> set ps. u_valid p"
    "n_of is_unlink ps = ai_expected a" "r = unlink_report_of a z (counted (z_buckets z) ps)"
    by (rule audit_unlinks_Inr [OF assms])
  have "distinct (z_buckets z)" using check_npz_Inr [OF z(2)] by blast
  note f = report_fields [OF this z(10)]
  have e: "au_recorded r = ai_expected a" using f(2) z(9) by simp
  show ?thesis by (intro exI [of _ z] exI [of _ ps] conjI z(1,7,8) f(1,2,4,5) e)
qed

lemma unlink_audit_complete:
  assumes "audit_unlinks a = Inr r"
  shows "audit_complete (unlink_audit.truncate r) \<longleftrightarrow> au_outside r = 0 \<and> au_recorded r < 2 ^ 63
    \<and> (\<forall>q \<in> set (au_rows r). u_time q \<le> 2 ^ 63 - 1 - 60 * SECOND)"
proof -
  obtain z ps sources where z: "ai_data a = Inr z" "check_npz z = Inr ()"
    "snapshot (ai_before a) [ai_capture a, ai_npz a] = Inr sources"
    "snapshot (ai_after a) [ai_capture a, ai_npz a] = Inr sources"
    "map_of sources (ai_capture a) = Some (ai_opened a)" "ai_closed a = ai_opened a"
    "concat (ai_chunks a) = concat (map frame_bytes ps)" "\<forall>p \<in> set ps. u_valid p"
    "n_of is_unlink ps = ai_expected a" "r = unlink_report_of a z (counted (z_buckets z) ps)"
    by (rule audit_unlinks_Inr [OF assms])
  note c = check_npz_Inr [OF z(2)]
  have f: "au_rows r = map (unlink_row ps) (z_buckets z)" "au_recorded r = au_matched r + au_outside r"
    "au_matched r = sum_list (map u_attempts (au_rows r))" "au_npz_buckets r = int (length (au_rows r))"
    using report_fields [OF _ z(10)] c by blast+
  have u: "map u_time (au_rows r) = z_buckets z" by (simp add: f(1) unlink_row_def o_def)
  have "times_valid (map u_time (au_rows r)) \<longleftrightarrow> (\<forall>b \<in> set (z_buckets z). b \<le> 2 ^ 63 - 1 - 60 * SECOND)"
    unfolding u times_valid_def using c by (auto simp: BUCKET_NS_def SECOND_def)
  moreover have "(\<forall>q \<in> set (au_rows r). u_time q \<le> 2 ^ 63 - 1 - 60 * SECOND)
      \<longleftrightarrow> (\<forall>b \<in> set (z_buckets z). b \<le> 2 ^ 63 - 1 - 60 * SECOND)" unfolding u [symmetric] by simp
  moreover have "\<forall>q \<in> set (au_rows r). 0 \<le> u_attempts q \<and> 0 \<le> u_scopes q \<and> 0 \<le> u_unscoped q
      \<and> u_scopes q + u_unscoped q \<le> u_attempts q"
    unfolding f(1) using unlink_row_sane by auto
  ultimately show ?thesis using f(2-4)
    by (auto simp: audit_complete_def unlink_audit.truncate_def)
qed

end
