(* ===== verification/Finalize_Claims.thy ===== *)
theory Finalize_Claims
  imports Finalize Unlink_Claims
begin

section \<open>Publication comes last\<close>

declare split_paired_All [simp del] split_paired_Ex [simp del]

subsection \<open>The steps\<close>

named_theorems fz_results

lemma fz_bind_Inr [fz_results]:
  "fz_bind m f fs = (fs', Inr b) \<longleftrightarrow> (\<exists>fs1 a. m fs = (fs1, Inr a) \<and> f a fs1 = (fs', Inr b))"
  by (auto simp: fz_bind_def split: prod.splits sum.splits)

lemma fz_simple_Inr [fz_results]:
  "fz_lift r fs = (fs', Inr a) \<longleftrightarrow> r = Inr a \<and> fs' = fs"
  "fz_require c t fs = (fs', Inr u) \<longleftrightarrow> c \<and> fs' = fs"
  "fz_create x fs = (fs', Inr u) \<longleftrightarrow> x \<notin> set fs \<and> fs' = x # fs"
  "fz_write x fs = (fs', Inr u) \<longleftrightarrow> fs' = List.insert x fs"
  "fz_remove x fs = (fs', Inr u) \<longleftrightarrow> fs' = removeAll x fs"
  "fz_get fs = (fs', Inr now) \<longleftrightarrow> now = fs \<and> fs' = fs"
  by (auto simp: fz_lift_def fz_require_def require_def fz_create_def fz_write_def fz_remove_def fz_get_def)

text \<open>A step that leaves a file alone, and one that does so when it fails.\<close>

definition neutral :: "string \<Rightarrow> 'a fz \<Rightarrow> bool" where
  "neutral x m \<longleftrightarrow> (\<forall>fs. x \<in> set (fst (m fs)) \<longleftrightarrow> x \<in> set fs)"

definition fails_neutral :: "string \<Rightarrow> 'a fz \<Rightarrow> bool" where
  "fails_neutral x m \<longleftrightarrow> (\<forall>fs fs' e. m fs = (fs', Inl e) \<longrightarrow> (x \<in> set fs' \<longleftrightarrow> x \<in> set fs))"


lemma neutral_fails: "neutral x m \<Longrightarrow> fails_neutral x m"
  by (metis fails_neutral_def fst_conv neutral_def)





subsection \<open>The network events of the capture\<close>







subsection \<open>The result\<close>





end
