(* ===== verification/Evaluate.thy ===== *)
theory Evaluate
  imports Aggregate
begin

section \<open>Offline evaluation by sessions: \<open>evaluate_event_time.py\<close>\<close>

text \<open>
  The evaluation reads datasets of several sessions, holds out one session at a time, chooses a score
  threshold from the normal rows of the other sessions and counts what it finds.  The arrays of rows are
  a list of rows, a mask is a filter.  The learner (scikit-learn) and the floating point operations are
  parameters.
\<close>

text \<open>A loop whose body may raise.\<close>

fun map_res :: "('a \<Rightarrow> 'b res) \<Rightarrow> 'a list \<Rightarrow> 'b list res" where
  "map_res f [] = Inr []"
| "map_res f (x # xs) = bind_res (f x) (\<lambda>y. bind_res (map_res f xs) (\<lambda>ys. Inr (y # ys)))"

subsection \<open>Rows and files\<close>

record 'v erow =
  er_x :: "'v list"
  er_label :: int
  er_tech :: pystr
  er_session :: pystr

text \<open>The arrays of a file; the width is \<open>X.shape[1]\<close>.\<close>

record 'v npzfile =
  nf_X :: "'v list list"
  nf_width :: nat
  nf_labels :: "pystr list"
  nf_techniques :: "pystr list"
  nf_sessions :: "pystr list"
  nf_names :: "string list"

definition sessions_of :: "'v erow list \<Rightarrow> pystr list" where
  "sessions_of rows = sort (remdups (map er_session rows))"

definition of_session :: "pystr \<Rightarrow> 'v erow list \<Rightarrow> 'v erow list" where
  "of_session s rows = filter (\<lambda>r. er_session r = s) rows"

definition others :: "pystr \<Rightarrow> 'v erow list \<Rightarrow> 'v erow list" where
  "others s rows = filter (\<lambda>r. er_session r \<noteq> s) rows"

definition normals :: "'v erow list \<Rightarrow> 'v erow list" where
  "normals rows = filter (\<lambda>r. er_label r = 0) rows"

definition file_rows :: "pystr list \<Rightarrow> 'v npzfile \<Rightarrow> 'v erow list" where
  "file_rows excluded f = filter (\<lambda>r. er_tech r \<notin> set excluded)
     (map (\<lambda>i. \<lparr>er_x = nf_X f ! i, er_label = (if nf_labels f ! i = ucode ''attack'' then 1 else 0),
        er_tech = nf_techniques f ! i, er_session = nf_sessions f ! i\<rparr>) [0..<length (nf_X f)])"

text \<open>The checks of a file, after the names and the sessions of the files before it.\<close>

definition check_file :: "('v \<Rightarrow> bool) \<Rightarrow> bool \<Rightarrow> string list option \<Rightarrow> pystr list \<Rightarrow> 'v npzfile \<Rightarrow> pystr list res" where
  "check_file fin single expected seen f =
    (if nf_names f = [] \<or> nf_width f \<noteq> length (nf_names f) then Inl (ValueError ''invalid feature shape or names'')
     else if expected \<noteq> None \<and> expected \<noteq> Some (nf_names f) then Inl (ValueError ''feature name/order mismatch'')
     else if list_ex (\<lambda>n. n \<noteq> length (nf_X f)) [length (nf_labels f), length (nf_techniques f), length (nf_sessions f)]
     then Inl (ValueError ''X and label array lengths differ'')
     else if list_ex (list_ex (\<lambda>v. \<not> fin v)) (nf_X f)
        \<or> list_ex (\<lambda>l. l \<notin> {ucode ''normal'', ucode ''attack''}) (nf_labels f)
     then Inl (ValueError ''invalid features or labels'')
     else if [] \<in> set (nf_sessions f) \<or> [] \<in> set (nf_techniques f)
     then Inl (ValueError ''empty session or technique'')
     else if single then
       (if length (remdups (nf_sessions f)) \<noteq> 1 then Inl (ValueError ''export requires one session per NPZ file'')
        else if set seen \<inter> set (nf_sessions f) \<noteq> {} then Inl (ValueError ''overlapping session partitions'')
        else Inr (remdups (nf_sessions f) @ seen))
     else Inr seen)"

fun read_files :: "('v \<Rightarrow> bool) \<Rightarrow> bool \<Rightarrow> pystr list \<Rightarrow> string list option \<Rightarrow> pystr list \<Rightarrow> 'v npzfile res list
    \<Rightarrow> ('v erow list \<times> string list option) res" where
  "read_files fin single excluded expected seen [] = Inr ([], expected)"
| "read_files fin single excluded expected seen (r # rs) =
     bind_res r (\<lambda>f. bind_res (check_file fin single expected seen f) (\<lambda>seen'.
       bind_res (read_files fin single excluded (Some (nf_names f)) seen' rs) (\<lambda>(rows, names).
         Inr (file_rows excluded f @ rows, names))))"

definition read_data :: "('v \<Rightarrow> bool) \<Rightarrow> pystr list \<Rightarrow> bool \<Rightarrow> 'v npzfile res list
    \<Rightarrow> ('v erow list \<times> string list) res" where
  "read_data fin excluded single files =
    (let minimum = if single then 4 else 3 in
     if length files < minimum then Inl (ValueError ''too few event_time NPZ files'')
     else bind_res (read_files fin single excluded None [] files) (\<lambda>(rows, names).
       if length (sessions_of rows) < minimum then Inl (ValueError ''too few sessions remain after exclusions'')
       else Inr (sort_key er_session rows, the names)))"

definition mask_rows :: "string list \<Rightarrow> string list \<Rightarrow> 'v erow list \<Rightarrow> 'v erow list res" where
  "mask_rows names excluded rows = bind_res (apply_feature_mask (map er_x rows) names excluded)
     (\<lambda>X. Inr (map2 (\<lambda>r x. r\<lparr>er_x := x\<rparr>) rows X))"

subsection \<open>The learner and its threshold\<close>

text \<open>
  A fit may raise.  A classifier has the columns of its probabilities in the order of its classes, an
  isolation forest has scores that are smaller for anomalies.
\<close>

record ('v, 'm, 'r) learner =
  l_fit :: "'v list list \<Rightarrow> int list \<Rightarrow> 'm res"
  l_classes :: "'m \<Rightarrow> int list"
  l_proba :: "'m \<Rightarrow> 'v list list \<Rightarrow> 'r list list"
  l_forest :: "'v list list \<Rightarrow> 'm res"
  l_samples :: "'m \<Rightarrow> 'v list list \<Rightarrow> 'r list"

text \<open>\<open>math.floor(target_fpr * n)\<close>, \<open>np.nextafter(x, inf)\<close>, the test of the target, and 0.67.\<close>

record 'r floats =
  f_target_ok :: bool
  f_allowed :: "nat \<Rightarrow> nat"
  f_next :: "'r \<Rightarrow> 'r"
  f_deployed :: 'r

text \<open>
  What the claims need of them, for a list of scores: fewer alarms are allowed than there are scores, as the
  target is below 1, and the next number after a finite score is the least one above it.
\<close>

definition floats_ok :: "('r::linorder) floats \<Rightarrow> 'r list \<Rightarrow> bool" where
  "floats_ok fl scores \<longleftrightarrow> (\<forall>n. 0 < n \<longrightarrow> f_allowed fl n < n) \<and> (\<forall>x \<in> set scores. \<forall>y. x < y \<longleftrightarrow> f_next fl x \<le> y)"

definition attack_scores :: "('v, 'm, 'r::zero) learner \<Rightarrow> 'm \<Rightarrow> 'v list list \<Rightarrow> 'r list" where
  "attack_scores lr m X =
    (if 1 \<in> set (l_classes lr m)
     then map (\<lambda>p. p ! length (takeWhile (\<lambda>c. c \<noteq> 1) (l_classes lr m))) (l_proba lr m X)
     else map (\<lambda>_. 0) X)"

definition fit_rf :: "('v, 'm, 'r) learner \<Rightarrow> 'v erow list \<Rightarrow> 'm res" where
  "fit_rf lr rows = l_fit lr (map er_x rows) (map er_label rows)"

definition normal_cutoff :: "('r::linorder) floats \<Rightarrow> 'r list \<Rightarrow> 'r res" where
  "normal_cutoff fl scores =
    (if scores = [] then Inl (ValueError ''no normal out-of-fold scores for threshold selection'')
     else let ordered = sort scores; allowed = f_allowed fl (length ordered) in
       if length ordered \<le> allowed then Inl (RuntimeErr ''IndexError'')
       else Inr (f_next fl (ordered ! (length ordered - allowed - 1))))"

subsection \<open>Counting\<close>

record ecounts =
  c_dr :: "(nat \<times> nat) option"
  c_fpr :: "(nat \<times> nat) option"
  c_tp :: nat
  c_fp :: nat
  c_tn :: nat
  c_fn :: nat
  c_total :: nat
  c_techniques :: "(pystr \<times> nat \<times> nat \<times> nat) list"
  c_false :: "(pystr \<times> nat \<times> nat) list"

definition how_many :: "('a \<Rightarrow> bool) \<Rightarrow> 'a list \<Rightarrow> nat" where
  "how_many P xs = length (filter P xs)"

definition techniques_of :: "'v erow list \<Rightarrow> pystr list" where
  "techniques_of rows = sort (remdups (map er_tech rows))"

text \<open>The labels and techniques are those of the rows; a quotient is the pair of its terms.\<close>

definition counts :: "'v erow list \<Rightarrow> bool list \<Rightarrow> ecounts" where
  "counts rows predicted =
    (let z = zip rows predicted;
         attack = (\<lambda>r. er_label r = 1);
         tp = how_many (\<lambda>(r, p). attack r \<and> p) z; fp = how_many (\<lambda>(r, p). \<not> attack r \<and> p) z;
         tn = how_many (\<lambda>(r, p). \<not> attack r \<and> \<not> p) z; fn = how_many (\<lambda>(r, p). attack r \<and> \<not> p) z
     in \<lparr>c_dr = (if tp + fn = 0 then None else Some (tp, tp + fn)),
       c_fpr = (if fp + tn = 0 then None else Some (fp, fp + tn)),
       c_tp = tp, c_fp = fp, c_tn = tn, c_fn = fn, c_total = length rows,
       c_techniques = map (\<lambda>t.
           let found = how_many (\<lambda>(r, p). attack r \<and> er_tech r = t \<and> p) z;
               total = how_many (\<lambda>(r, p). attack r \<and> er_tech r = t) z
           in (t, total, found, total - found)) (techniques_of (filter attack rows)),
       c_false = map (\<lambda>t. (t, how_many (\<lambda>(r, p). \<not> attack r \<and> er_tech r = t) z,
           how_many (\<lambda>(r, p). \<not> attack r \<and> er_tech r = t \<and> p) z))
         (techniques_of (filter (\<lambda>r. \<not> attack r) rows))\<rparr>)"

definition alarms :: "('r::linorder) \<Rightarrow> 'r list \<Rightarrow> bool list" where
  "alarms threshold scores = map (\<lambda>s. threshold \<le> s) scores"

record 'r scored =
  sc_threshold :: 'r
  sc_counts :: ecounts

definition score_rf :: "('v, 'm, 'r::{linorder,zero}) learner \<Rightarrow> 'm \<Rightarrow> 'r \<Rightarrow> 'v erow list \<Rightarrow> 'r scored" where
  "score_rf lr m threshold rows = \<lparr>sc_threshold = threshold,
     sc_counts = counts rows (alarms threshold (attack_scores lr m (map er_x rows)))\<rparr>"

subsection \<open>Holding out one session\<close>

text \<open>
  The scores of the normal rows of each other session, by a model of the sessions that remain; a session
  without normal rows is skipped.
\<close>

fun out_of_fold :: "('v, 'm, 'r::{linorder,zero}) learner \<Rightarrow> 'v erow list \<Rightarrow> pystr list \<Rightarrow> 'r list list res" where
  "out_of_fold lr train [] = Inr []"
| "out_of_fold lr train (s # ss) =
     (let inner = normals (of_session s train) in
      if inner = [] then out_of_fold lr train ss
      else bind_res (fit_rf lr (others s train)) (\<lambda>m. bind_res (out_of_fold lr train ss) (\<lambda>rest.
        Inr (attack_scores lr m (map er_x inner) # rest))))"

definition fold_threshold :: "('v, 'm, 'r::{linorder,zero}) learner \<Rightarrow> 'r floats \<Rightarrow> 'v erow list \<Rightarrow> 'r res" where
  "fold_threshold lr fl train =
    bind_res (out_of_fold lr train (sessions_of train)) (\<lambda>oof.
      if oof = [] then Inl (ValueError ''no training-session normal buckets'')
      else normal_cutoff fl (concat oof))"

text \<open>The deployed model, with its feature names and the number of features it was fitted with.\<close>

record 'm deployed =
  dp_names :: "string list"
  dp_features :: nat
  dp_model :: 'm

record ('m, 'r) eval_row =
  e_session :: pystr
  e_model :: 'm
  e_new :: "'r scored"
  e_deployed :: "'r scored option"

text \<open>The deployed model sees the raw columns.\<close>

definition replay_deployed :: "('v, 'm, 'r::{linorder,zero}) learner \<Rightarrow> 'r floats \<Rightarrow> 'm deployed option
    \<Rightarrow> 'v erow list \<Rightarrow> 'r scored option" where
  "replay_deployed lr fl dep raw = map_option (\<lambda>d. score_rf lr (dp_model d) (f_deployed fl) raw) dep"

definition evaluate_fold :: "('v, 'm, 'r::{linorder,zero}) learner \<Rightarrow> 'r floats \<Rightarrow> 'm deployed option
    \<Rightarrow> 'v erow list \<Rightarrow> 'v erow list \<Rightarrow> pystr \<Rightarrow> ('m, 'r) eval_row res" where
  "evaluate_fold lr fl dep raw masked s =
    bind_res (fold_threshold lr fl (others s masked)) (\<lambda>threshold.
    bind_res (fit_rf lr (others s masked)) (\<lambda>m.
      Inr \<lparr>e_session = s, e_model = m, e_new = score_rf lr m threshold (of_session s masked),
        e_deployed = replay_deployed lr fl dep (of_session s raw)\<rparr>))"

subsection \<open>A candidate model\<close>

text \<open>The model that is written, and what its metadata records.\<close>

record ('m, 'r) candidate =
  cd_model :: 'm
  cd_training :: "pystr list"
  cd_calibration :: pystr
  cd_test :: pystr
  cd_used :: nat
  cd_alarms :: nat
  cd_samples :: "(nat \<times> nat) list"
  cd_held_out :: "'r scored"

text \<open>The rows of a partition and the attacks among them.\<close>

definition sample_counts :: "'v erow list \<Rightarrow> nat \<times> nat" where
  "sample_counts rows = (length rows, how_many (\<lambda>r. er_label r \<noteq> 0) rows)"

definition export_candidate :: "('v, 'm, 'r::{linorder,zero}) learner \<Rightarrow> 'r floats \<Rightarrow> bool \<Rightarrow> 'v erow list
    \<Rightarrow> ('m, 'r) candidate res" where
  "export_candidate lr fl exists rows =
    (if exists then Inl OSErr
     else let ids = sessions_of rows in
       if length ids < 4 then Inl (ValueError ''candidate export requires at least 4 unique sessions'')
       else let train = filter (\<lambda>r. er_session r \<in> set (take (length ids - 2) ids)) rows;
           cal = of_session (ids ! (length ids - 2)) rows; test = of_session (last ids) rows in
         if er_label ` set train \<noteq> {0, 1}
         then Inl (ValueError ''candidate training must contain both normal and attack buckets'')
         else if normals cal = [] then Inl (ValueError ''candidate calibration session has no normal buckets'')
         else bind_res (fit_rf lr train) (\<lambda>m.
           let scores = attack_scores lr m (map er_x (normals cal)) in
           bind_res (normal_cutoff fl scores) (\<lambda>threshold.
             Inr \<lparr>cd_model = m, cd_training = take (length ids - 2) ids,
               cd_calibration = ids ! (length ids - 2), cd_test = last ids, cd_used = length scores,
               cd_alarms = how_many (\<lambda>s. threshold \<le> s) scores,
               cd_samples = map sample_counts [train, cal, test],
               cd_held_out = score_rf lr m threshold test\<rparr>)))"

subsection \<open>\<open>evaluate\<close>\<close>

definition check_deployed :: "('v, 'm, 'r) learner \<Rightarrow> string list \<Rightarrow> 'm deployed \<Rightarrow> unit res" where
  "check_deployed lr names d =
    (if dp_names d \<noteq> names then Inl (ValueError ''deployed model feature name/order mismatch'')
     else if dp_features d \<noteq> length names \<or> l_classes lr (dp_model d) \<noteq> [0, 1]
     then Inl (ValueError ''deployed model feature count or class order mismatch'')
     else Inr ())"

datatype ('m, 'r) evaluation = Folds "('m, 'r) eval_row list" | Candidate "('m, 'r) candidate" "'r scored option"

text \<open>\<open>export\<close>: whether a candidate is wanted, and then whether its directory is there.\<close>

definition evaluate :: "('v \<Rightarrow> bool) \<Rightarrow> ('v, 'm, 'r::{linorder,zero}) learner \<Rightarrow> 'r floats \<Rightarrow> pystr list \<Rightarrow> string list
    \<Rightarrow> 'm deployed option \<Rightarrow> bool option \<Rightarrow> 'v npzfile res list \<Rightarrow> ('m, 'r) evaluation res" where
  "evaluate fin lr fl exclude_techniques excluded_features dep export files =
    (if \<not> f_target_ok fl then Inl (ValueError ''target FPR must be finite and in [0, 1)'')
     else bind_res (read_data fin exclude_techniques (export \<noteq> None) files) (\<lambda>(raw, names).
       bind_res (mask_rows names (filter (\<lambda>n. n \<in> set excluded_features) names) raw) (\<lambda>masked.
       bind_res (case dep of None \<Rightarrow> Inr () | Some d \<Rightarrow> check_deployed lr names d) (\<lambda>_.
         case export of
           Some exists \<Rightarrow> bind_res (export_candidate lr fl exists masked) (\<lambda>c.
             Inr (Candidate c (replay_deployed lr fl dep (of_session (cd_test c) raw))))
         | None \<Rightarrow> bind_res (map_res (evaluate_fold lr fl dep raw masked) (sessions_of raw)) (\<lambda>rs. Inr (Folds rs))))))"

end
