(* ===== verification/Evaluate_Groups.thy ===== *)
theory Evaluate_Groups
  imports Evaluate Exact_Frames
begin

section \<open>Held-out groups and normal-only training\<close>

text \<open>
  \<open>evaluate_unseen_groups.py\<close> trains without one group of attacks at a time, and
  \<open>evaluate_normal_only.py\<close> without any attack.  Both take six sessions: four train, the fifth
  calibrates with its normal rows, the sixth tests.
\<close>

definition GROUPS :: "(string \<times> string list) list" where
  "GROUPS = [(''exfiltration'', [''bulk_exfil'', ''dns_exfil'']), (''destructive_files'', [''ransom_sim'', ''wiper_sim'']),
     (''remote_shell'', [''reverse_shell'']), (''resource_abuse'', [''resource_hijack''])]"

definition REGIMES :: "(string \<times> nat) list" where
  "REGIMES = [(''v1_like_first2'', 2), (''v2_like_all4'', 4)]"

record esummary =
  sm_total :: nat
  sm_normal :: nat
  sm_attack :: nat
  sm_techniques :: "(pystr \<times> nat) list"

definition summarize_rows :: "'v erow list \<Rightarrow> esummary" where
  "summarize_rows rows = \<lparr>sm_total = length rows, sm_normal = how_many (\<lambda>r. er_label r = 0) rows,
     sm_attack = how_many (\<lambda>r. er_label r = 1) rows,
     sm_techniques = map (\<lambda>t. (t, how_many (\<lambda>r. er_tech r = t) rows)) (techniques_of rows)\<rparr>"

subsection \<open>Six sessions\<close>

definition targeted :: "string list \<Rightarrow> 'v erow \<Rightarrow> bool" where
  "targeted targets r \<longleftrightarrow> er_tech r \<in> set (map ucode targets)"

definition target_attack :: "string list \<Rightarrow> 'v erow \<Rightarrow> bool" where
  "target_attack targets r \<longleftrightarrow> er_label r = 1 \<and> targeted targets r"

definition from_first :: "nat \<Rightarrow> pystr list \<Rightarrow> 'v erow list \<Rightarrow> 'v erow list" where
  "from_first n ids rows = filter (\<lambda>r. er_session r \<in> set (take n ids)) rows"

definition known_attacks :: "'v erow list \<Rightarrow> bool" where
  "known_attacks rows \<longleftrightarrow> list_all (\<lambda>r. er_label r = 1 \<longrightarrow> list_ex (\<lambda>(g, ts). targeted ts r) GROUPS) rows"

text \<open>The rows with the stable columns, and the sorted sessions.\<close>

definition six_sessions :: "('v \<Rightarrow> bool) \<Rightarrow> 'v npzfile res list \<Rightarrow> ('v erow list \<times> pystr list) res" where
  "six_sessions fin files =
    bind_res (require (length files = 6) ''exactly six single-session NPZ files are required'') (\<lambda>_.
    bind_res (read_data fin [] True files) (\<lambda>(raw, names).
    bind_res (require (names = FEATURES) ''expected the exact 31 raw feature names/order'') (\<lambda>_.
    bind_res (mask_rows names STABLE_EXCLUDED raw) (\<lambda>rows.
    bind_res (require (list_all (\<lambda>r. length (er_x r) = 26) rows) ''expected 26 projected features'') (\<lambda>_.
    bind_res (require (length (sessions_of rows) = 6) ''exactly six unique sessions are required'') (\<lambda>_.
      Inr (rows, sessions_of rows)))))))"

definition calibration_normals :: "pystr list \<Rightarrow> 'v erow list \<Rightarrow> 'v erow list" where
  "calibration_normals ids rows = normals (of_session (ids ! 4) rows)"

definition both_labels :: "'v erow list \<Rightarrow> bool" where
  "both_labels rows \<longleftrightarrow> er_label ` set rows = {0, 1}"

subsection \<open>A group that is never trained on\<close>

definition retained_rows :: "string list \<Rightarrow> nat \<Rightarrow> pystr list \<Rightarrow> 'v erow list \<Rightarrow> 'v erow list" where
  "retained_rows targets n ids rows = filter (\<lambda>r. \<not> target_attack targets r) (from_first n ids rows)"

definition group_test :: "string list \<Rightarrow> pystr list \<Rightarrow> 'v erow list \<Rightarrow> 'v erow list" where
  "group_test targets ids rows = filter (\<lambda>r. er_label r = 0 \<or> target_attack targets r) (of_session (ids ! 5) rows)"

definition check_group :: "pystr list \<Rightarrow> 'v erow list \<Rightarrow> string \<times> string list \<Rightarrow> unit res" where
  "check_group ids rows g =
    bind_res (require (both_labels (group_test (snd g) ids rows)) ''test needs normal and target attack rows'') (\<lambda>_.
    bind_res (map_res (\<lambda>(regime, n).
        bind_res (require (\<not> list_ex (targeted (snd g)) (retained_rows (snd g) n ids rows))
          ''target technique remains in training'') (\<lambda>_.
        require (both_labels (retained_rows (snd g) n ids rows))
          ''retained training needs normal and other attack rows'')) REGIMES) (\<lambda>_. Inr ()))"

record ('m, 'r) group_result =
  g_group :: string
  g_regime :: string
  g_model :: 'm
  g_removed :: esummary
  g_retained :: esummary
  g_test_rows :: esummary
  g_others :: nat
  g_calibration_alarms :: nat
  g_scored :: "'r scored"

definition group_run :: "('v, 'm, 'r::{linorder,zero}) learner \<Rightarrow> 'r floats \<Rightarrow> pystr list \<Rightarrow> 'v erow list
    \<Rightarrow> (string \<times> string list) \<times> (string \<times> nat) \<Rightarrow> ('m, 'r) group_result res" where
  "group_run lr fl ids rows = (\<lambda>((g, targets), (regime, n)).
    let retained = retained_rows targets n ids rows; test = group_test targets ids rows in
    bind_res (fit_rf lr retained) (\<lambda>m.
    let scores = attack_scores lr m (map er_x (calibration_normals ids rows)) in
    bind_res (normal_cutoff fl scores) (\<lambda>threshold.
      Inr \<lparr>g_group = g, g_regime = regime, g_model = m,
        g_removed = summarize_rows (filter (target_attack targets) (from_first n ids rows)),
        g_retained = summarize_rows retained, g_test_rows = summarize_rows test,
        g_others = length (of_session (ids ! 5) rows) - length test,
        g_calibration_alarms = how_many (\<lambda>s. threshold \<le> s) scores,
        g_scored = score_rf lr m threshold test\<rparr>)))"

definition evaluate_groups :: "('v \<Rightarrow> bool) \<Rightarrow> ('v, 'm, 'r::{linorder,zero}) learner \<Rightarrow> 'r floats \<Rightarrow> 'v npzfile res list
    \<Rightarrow> ('m, 'r) group_result list res" where
  "evaluate_groups fin lr fl files =
    bind_res (six_sessions fin files) (\<lambda>(rows, ids).
    bind_res (require (ids ! 4 \<notin> set (take 4 ids) \<and> ids ! 5 \<notin> set (take 4 ids) \<and> ids ! 4 \<noteq> ids ! 5)
      ''overlapping session partitions'') (\<lambda>_.
    bind_res (require (known_attacks rows) ''unexpected attack techniques'') (\<lambda>_.
    bind_res (require (calibration_normals ids rows \<noteq> []) ''calibration session has no normal rows'') (\<lambda>_.
    bind_res (map_res (check_group ids rows) GROUPS) (\<lambda>_.
      map_res (group_run lr fl ids rows) (List.product GROUPS REGIMES))))))"

subsection \<open>Training on normal rows only\<close>

record ('m, 'r) normal_result =
  w_regime :: string
  w_model :: 'm
  w_training :: esummary
  w_excluded :: esummary
  w_calibration_alarms :: nat
  w_test_rows :: esummary
  w_scored :: "'r scored"
  w_groups :: "(string \<times> esummary \<times> ecounts) list"

text \<open>An anomaly is a small score: the code negates it.\<close>

definition anomaly_scores :: "('v, 'm, 'r::uminus) learner \<Rightarrow> 'm \<Rightarrow> 'v erow list \<Rightarrow> 'r list" where
  "anomaly_scores lr m rows = map uminus (l_samples lr m (map er_x rows))"

definition normal_run :: "('v, 'm, 'r::{linorder,uminus}) learner \<Rightarrow> 'r floats \<Rightarrow> pystr list \<Rightarrow> 'v erow list
    \<Rightarrow> string \<times> nat \<Rightarrow> ('m, 'r) normal_result res" where
  "normal_run lr fl ids rows = (\<lambda>(regime, n).
    let train = normals (from_first n ids rows); test = of_session (ids ! 5) rows in
    bind_res (l_forest lr (map er_x train)) (\<lambda>m.
    let scores = anomaly_scores lr m (calibration_normals ids rows) in
    bind_res (normal_cutoff fl scores) (\<lambda>threshold.
    let hit = alarms threshold (anomaly_scores lr m test) in
      Inr \<lparr>w_regime = regime, w_model = m, w_training = summarize_rows train,
        w_excluded = summarize_rows (filter (\<lambda>r. er_label r = 1) (from_first n ids rows)),
        w_calibration_alarms = how_many (\<lambda>s. threshold \<le> s) scores, w_test_rows = summarize_rows test,
        w_scored = \<lparr>sc_threshold = threshold, sc_counts = counts test hit\<rparr>,
        w_groups = map (\<lambda>(g, targets).
          let sel = filter (\<lambda>(r, h). er_label r = 0 \<or> targeted targets r) (zip test hit)
          in (g, summarize_rows (map fst sel), counts (map fst sel) (map snd sel))) GROUPS\<rparr>)))"

definition evaluate_normal_only :: "('v \<Rightarrow> bool) \<Rightarrow> ('v, 'm, 'r::{linorder,uminus}) learner \<Rightarrow> 'r floats
    \<Rightarrow> 'v npzfile res list \<Rightarrow> ('m, 'r) normal_result list res" where
  "evaluate_normal_only fin lr fl files =
    bind_res (six_sessions fin files) (\<lambda>(rows, ids).
    let test = of_session (ids ! 5) rows in
    bind_res (require (known_attacks rows) ''unexpected attack techniques'') (\<lambda>_.
    bind_res (require (calibration_normals ids rows \<noteq> []) ''calibration session has no normal rows'') (\<lambda>_.
    bind_res (require (both_labels test) ''test needs normal and attack rows'') (\<lambda>_.
    bind_res (map_res (\<lambda>(g, ts). require (list_ex (target_attack ts) test) ''test has no target attack rows'') GROUPS) (\<lambda>_.
    bind_res (map_res (\<lambda>(regime, n). require (normals (from_first n ids rows) \<noteq> []) ''training has no normal rows'')
      REGIMES) (\<lambda>_.
      map_res (normal_run lr fl ids rows) REGIMES))))))"

end
