(* ===== verification/Evaluate_Temporal.thy ===== *)
theory Evaluate_Temporal
  imports Evaluate_Groups Unlink_Audit
begin

section \<open>Comparing with deletion windows: \<open>evaluate_temporal_unlinks.py\<close>\<close>

text \<open>
  Six datasets are joined with six audits of deletions, second by second, and the models are trained with
  and without the windows on the same rows.  Each dataset is read twice, for the evaluation and for its
  seconds; both readings are inputs, as are the sizes and digests of the files.
\<close>

subsection \<open>The join\<close>

fun check_audit_rows :: "int list \<Rightarrow> urow list \<Rightarrow> unit res" where
  "check_audit_rows seen [] = Inr ()"
| "check_audit_rows seen (r # rs) =
    (if u_time r < 0 \<or> u_time r mod SECOND \<noteq> 0 \<or> u_time r \<in> set seen then Inl (ValueError ''invalid/duplicate audit bucket_ns'')
     else if u_attempts r < 0 \<or> u_scopes r < 0 \<or> u_unscoped r < 0 then Inl (ValueError ''invalid audit count'')
     else if u_attempts r < u_scopes r + u_unscoped r then Inl (ValueError ''audit scopes exceed unlink attempts'')
     else check_audit_rows (u_time r # seen) rs)"

text \<open>The windows in the order of the dataset; a symbolic feature is finite.\<close>

definition join_audit :: "numpy \<Rightarrow> unlink_report \<Rightarrow> pystr \<Rightarrow> int list \<Rightarrow> pystr list \<Rightarrow> pystr list \<Rightarrow> feat list list res" where
  "join_audit np a session buckets labels techniques =
    (let rows = au_rows a in
    bind_res (require (ur_session a = session \<and> ur_bucket_ns a = SECOND) ''audit session ID/bucket width mismatch'') (\<lambda>_.
    bind_res (require (au_npz_buckets a = int (length buckets) \<and> length rows = length buckets)
      ''audit/NPZ bucket count mismatch'') (\<lambda>_.
    bind_res (require (list_all (\<lambda>b. 0 \<le> b \<and> b mod SECOND = 0) buckets \<and> distinct buckets)
      ''invalid/duplicate NPZ bucket_ns'') (\<lambda>_.
    bind_res (check_audit_rows [] rows) (\<lambda>_.
    bind_res (require (set (map u_time rows) = set buckets) ''audit/NPZ exact bucket join mismatch'') (\<lambda>_.
    let order = map (\<lambda>b. the (row_index (map u_time rows) b)) buckets in
    bind_res (require (map (\<lambda>j. ur_labels a ! j) order = labels \<and> map (\<lambda>j. ur_techniques a ! j) order = techniques)
      ''audit/NPZ label or technique mismatch'') (\<lambda>_.
    let attempts = sum_list (map u_attempts rows); unknown = sum_list (map u_unscoped rows) in
    bind_res (require (au_matched a = attempts \<and> au_recorded a = ur_expected a
        \<and> au_recorded a = attempts + au_outside a \<and> ur_matched_unknown a = unknown) ''audit unlink count mismatch'') (\<lambda>_.
    bind_res (temporal_features np (unlink_audit.truncate a)) (\<lambda>temporal.
    bind_res (require (length temporal = length rows \<and> list_all (\<lambda>r. length r = 8) temporal)
      ''expected eight finite temporal features per audit bucket'') (\<lambda>_.
      Inr (map (\<lambda>j. temporal ! j) order)))))))))))"

subsection \<open>The rows of a session\<close>

record ('v, 'd) tfile =
  tf_file :: "'v npzfile res"
  tf_again :: "'v npzfile"
  tf_buckets :: "int list"
  tf_size :: int
  tf_hash :: 'd

text \<open>An audit with the identity it recorded of its dataset, and a digest where it has one of 64 digits.\<close>

record 'd taudit =
  ta_report :: unlink_report
  ta_stat :: "int list res"
  ta_hash :: "'d option"

record 'v trow =
  t_row :: "'v erow"
  t_windows :: "feat list"
  t_warm :: bool
  t_clean :: bool
  t_groups :: "bool list"

text \<open>The rows with their windows and what may be trained on, once the two readings agree.\<close>

definition session_part :: "numpy \<Rightarrow> 'v erow list \<Rightarrow> (pystr, 'd taudit) pydict \<Rightarrow> ('v, 'd) tfile \<Rightarrow> (pystr \<times> 'v trow list) res" where
  "session_part np rows audits f =
    (let again = tf_again f; sid = hd (nf_sessions again); sel = of_session sid rows; ls = NumLabels (map er_label sel) in
    bind_res (mask_rows (nf_names again) STABLE_EXCLUDED (file_rows [] again)) (\<lambda>reread.
    bind_res (require (list_all (\<lambda>n. n = length sel) [length (nf_labels again), length (nf_techniques again),
        length (nf_sessions again)] \<and> reread = sel) ''NPZ rows changed or timestamp load is misaligned'') (\<lambda>_.
    bind_res (case map_of audits sid of None \<Rightarrow> Inl (KeyErr ''session'') | Some a \<Rightarrow> Inr a) (\<lambda>a.
    bind_res (ta_stat a) (\<lambda>st.
    bind_res (require (length st = 5 \<and> st ! 2 = tf_size f) ''audit NPZ source size mismatch'') (\<lambda>_.
    bind_res (require (ta_hash a \<noteq> None) ''audit requires a 64-hex npz_sha256'') (\<lambda>_.
    bind_res (require (ta_hash a = Some (tf_hash f)) ''audit NPZ source hash mismatch'') (\<lambda>_.
    bind_res (join_audit np (ta_report a) sid (tf_buckets f) (nf_labels again) (nf_techniques again)) (\<lambda>windows.
    bind_res (history_clean np (tf_buckets f) ls (map (\<lambda>_. False) sel)) (\<lambda>warm.
    bind_res (history_clean np (tf_buckets f) ls (map (\<lambda>r. er_label r = 1) sel)) (\<lambda>clean.
    bind_res (map_res (\<lambda>(g, ts). history_clean np (tf_buckets f) ls (map (target_attack ts) sel)) GROUPS) (\<lambda>groups.
      Inr (sid, map (\<lambda>i. \<lparr>t_row = sel ! i, t_windows = windows ! i, t_warm = warm ! i, t_clean = clean ! i,
        t_groups = map (\<lambda>c. c ! i) groups\<rparr>) [0..<length sel])))))))))))))"

fun audits_by_session :: "pystr list \<Rightarrow> (pystr, 'd taudit) pydict \<Rightarrow> 'd taudit list \<Rightarrow> (pystr, 'd taudit) pydict res" where
  "audits_by_session ids d [] = Inr d"
| "audits_by_session ids d (a # as) =
    (let sid = ur_session (ta_report a) in
     if sid \<in> set (dkeys d) \<or> sid \<notin> set ids then Inl (ValueError ''duplicate/unknown audit session ID'')
     else audits_by_session ids (dset sid a d) as)"

subsection \<open>Training and scoring\<close>

text \<open>The two arms: the stable features, and these with the windows as floating point numbers.\<close>

definition arms :: "(feat \<Rightarrow> 'v) \<Rightarrow> (string \<times> ('v trow \<Rightarrow> 'v erow)) list" where
  "arms emb = [(''baseline26'', t_row), (''augmented34'', \<lambda>t. (t_row t)\<lparr>er_x := er_x (t_row t) @ map emb (t_windows t)\<rparr>)]"

abbreviation t_label :: "'v trow \<Rightarrow> int" where
  "t_label t \<equiv> er_label (t_row t)"

abbreviation t_session :: "'v trow \<Rightarrow> pystr" where
  "t_session t \<equiv> er_session (t_row t)"

definition t_pool :: "pystr list \<Rightarrow> 'v trow list \<Rightarrow> 'v trow list" where
  "t_pool ids rows = filter (\<lambda>t. t_session t \<in> set (take 4 ids)) rows"

definition t_calibration :: "pystr list \<Rightarrow> 'v trow list \<Rightarrow> 'v trow list" where
  "t_calibration ids rows = filter (\<lambda>t. t_session t = ids ! 4 \<and> t_label t = 0 \<and> t_clean t) rows"

definition t_normals :: "pystr list \<Rightarrow> 'v trow list \<Rightarrow> 'v trow list" where
  "t_normals ids rows = filter (\<lambda>t. t_label t = 0 \<and> t_clean t) (t_pool ids rows)"

definition t_tests :: "pystr list \<Rightarrow> 'v trow list \<Rightarrow> 'v trow list" where
  "t_tests ids rows = filter (\<lambda>t. t_session t = ids ! 5 \<and> t_warm t) rows"

text \<open>Without the attacks of the group \<open>i\<close>, and without the rows that have one in their history.\<close>

definition group_training :: "pystr list \<Rightarrow> 'v trow list \<Rightarrow> nat \<Rightarrow> 'v trow list" where
  "group_training ids rows i =
    filter (\<lambda>t. \<not> target_attack (snd (GROUPS ! i)) (t_row t) \<and> t_groups t ! i) (t_pool ids rows)"

definition group_tests :: "pystr list \<Rightarrow> 'v trow list \<Rightarrow> nat \<Rightarrow> 'v trow list" where
  "group_tests ids rows i =
    filter (\<lambda>t. t_label t = 0 \<or> target_attack (snd (GROUPS ! i)) (t_row t)) (t_tests ids rows)"

record 'r tscore =
  ts_scored :: "'r scored"
  ts_alarms :: nat
  ts_contexts :: "(string \<times> nat \<times> nat) list"

text \<open>
  The scores of the calibration give the threshold; the normal rows of the test are also counted apart,
  by whether an attack is in their history.
\<close>

definition t_score :: "('r::linorder) floats \<Rightarrow> 'r list \<Rightarrow> 'r list \<Rightarrow> 'v trow list \<Rightarrow> ('r tscore \<times> bool list) res" where
  "t_score fl cal_scores test_scores test =
    bind_res (normal_cutoff fl cal_scores) (\<lambda>threshold.
    let hit = alarms threshold test_scores; z = zip test hit;
        context = (\<lambda>P. (how_many (\<lambda>(t, h). t_label t = 0 \<and> P t) z, how_many (\<lambda>(t, h). h \<and> t_label t = 0 \<and> P t) z)) in
      Inr (\<lparr>ts_scored = \<lparr>sc_threshold = threshold, sc_counts = counts (map t_row test) hit\<rparr>,
        ts_alarms = how_many (\<lambda>s. threshold \<le> s) cal_scores,
        ts_contexts = [(''clean_history'', context t_clean), (''past_attack_overlap'', context (\<lambda>t. \<not> t_clean t))]\<rparr>, hit))"

record ('m, 'r) normal_arm =
  na_arm :: string
  na_model :: 'm
  na_score :: "'r tscore"
  na_groups :: "(string \<times> ecounts) list"

definition normal_arm :: "('v, 'm, 'r::{linorder,zero,uminus}) learner \<Rightarrow> 'r floats \<Rightarrow> pystr list \<Rightarrow> 'v trow list
    \<Rightarrow> string \<times> ('v trow \<Rightarrow> 'v erow) \<Rightarrow> ('m, 'r) normal_arm res" where
  "normal_arm lr fl ids rows = (\<lambda>(name, arm).
    bind_res (l_forest lr (map (\<lambda>t. er_x (arm t)) (t_normals ids rows))) (\<lambda>m.
    bind_res (t_score fl (anomaly_scores lr m (map arm (t_calibration ids rows)))
      (anomaly_scores lr m (map arm (t_tests ids rows))) (t_tests ids rows)) (\<lambda>(s, hit).
      Inr \<lparr>na_arm = name, na_model = m, na_score = s,
        na_groups = map (\<lambda>(g, targets).
          let sel = filter (\<lambda>(t, h). t_label t = 0 \<or> target_attack targets (t_row t)) (zip (t_tests ids rows) hit)
          in (g, counts (map (\<lambda>x. t_row (fst x)) sel) (map snd sel))) GROUPS\<rparr>)))"

record ('m, 'r) group_arm =
  ga_group :: string
  ga_arm :: string
  ga_model :: 'm
  ga_training :: esummary
  ga_score :: "'r tscore"

definition group_arm :: "('v, 'm, 'r::{linorder,zero}) learner \<Rightarrow> 'r floats \<Rightarrow> pystr list \<Rightarrow> 'v trow list
    \<Rightarrow> nat \<times> (string \<times> ('v trow \<Rightarrow> 'v erow)) \<Rightarrow> ('m, 'r) group_arm res" where
  "group_arm lr fl ids rows = (\<lambda>(i, (name, arm)).
    bind_res (fit_rf lr (map arm (group_training ids rows i))) (\<lambda>m.
    let scores = (\<lambda>ts. attack_scores lr m (map (\<lambda>t. er_x (arm t)) ts)) in
    bind_res (t_score fl (scores (t_calibration ids rows)) (scores (group_tests ids rows i)) (group_tests ids rows i)) (\<lambda>(s, hit).
      Inr \<lparr>ga_group = fst (GROUPS ! i), ga_arm = name, ga_model = m,
        ga_training = summarize_rows (map t_row (group_training ids rows i)), ga_score = s\<rparr>)))"

subsection \<open>\<open>evaluate\<close>\<close>

text \<open>
  The arrays that a part fills start as empty windows and masks without a row; a later part of the same
  session overwrites an earlier one.
\<close>

definition part_rows :: "'v erow list \<Rightarrow> (pystr \<times> 'v trow list) list \<Rightarrow> pystr \<Rightarrow> 'v trow list" where
  "part_rows rows parts sid = (case map_of (rev parts) sid of Some ts \<Rightarrow> ts
     | None \<Rightarrow> map (\<lambda>r. \<lparr>t_row = r, t_windows = [], t_warm = False, t_clean = False,
         t_groups = map (\<lambda>_. False) GROUPS\<rparr>) (of_session sid rows))"

definition joined_rows :: "('v \<Rightarrow> bool) \<Rightarrow> numpy \<Rightarrow> ('v, 'd) tfile list \<Rightarrow> 'd taudit list \<Rightarrow> ('v trow list \<times> pystr list) res" where
  "joined_rows fin np files audits =
    bind_res (require (length files = 6 \<and> length audits = 6) ''exactly six NPZs and six audit JSONs are required'') (\<lambda>_.
    bind_res (six_sessions fin (map tf_file files)) (\<lambda>(rows, ids).
    bind_res (require (known_attacks rows) ''unexpected attack techniques'') (\<lambda>_.
    bind_res (audits_by_session ids [] audits) (\<lambda>d.
    bind_res (map_res (session_part np rows d) files) (\<lambda>parts.
      Inr (concat (map (part_rows rows parts) ids), ids))))))"

definition evaluate_temporal :: "('v \<Rightarrow> bool) \<Rightarrow> numpy \<Rightarrow> ('v, 'm, 'r::{linorder,zero,uminus}) learner \<Rightarrow> 'r floats
    \<Rightarrow> (feat \<Rightarrow> 'v) \<Rightarrow> bool \<Rightarrow> ('v, 'd) tfile list \<Rightarrow> 'd taudit list
    \<Rightarrow> (('m, 'r) normal_arm list \<times> ('m, 'r) group_arm list) res" where
  "evaluate_temporal fin np lr fl emb unchanged_inputs files audits =
    bind_res (joined_rows fin np files audits) (\<lambda>(rows, ids).
    bind_res (require (t_calibration ids rows \<noteq> []) ''calibration has no clean-history normal rows; rule not relaxed'') (\<lambda>_.
    bind_res (require (t_normals ids rows \<noteq> []) ''training has no clean-history normal rows; rule not relaxed'') (\<lambda>_.
    bind_res (map_res (\<lambda>i.
        bind_res (require (both_labels (map t_row (group_training ids rows i)))
          ''purged training needs normal and other attack rows'') (\<lambda>_.
        require (both_labels (map t_row (group_tests ids rows i))) ''warmed test needs normal and target attack rows''))
      [0..<length GROUPS]) (\<lambda>_.
    bind_res (map_res (normal_arm lr fl ids rows) (arms emb)) (\<lambda>normal_only.
    bind_res (map_res (group_arm lr fl ids rows) (List.product [0..<length GROUPS] (arms emb))) (\<lambda>group_heldout.
    bind_res (require unchanged_inputs ''input changed during evaluation'') (\<lambda>_.
      Inr (normal_only, group_heldout))))))))"

end
