(* ===== verification/Evaluate_Claims.thy ===== *)
theory Evaluate_Claims
  imports Evaluate
begin

section \<open>Thresholds that the test rows cannot move\<close>

subsection \<open>The cutoff\<close>

lemma how_many_Nil [simp]: "how_many P [] = 0"
  and how_many_Cons [simp]: "how_many P (x # xs) = (if P x then 1 else 0) + how_many P xs"
  by (simp_all add: how_many_def)

lemma how_many_sort: "how_many P (sort xs) = how_many P xs"
  by (simp add: how_many_def filter_sort)

lemma how_many_sorted:
  assumes "sorted xs" and "k < length xs"
  shows "how_many (\<lambda>s. c \<le> s) xs \<le> k \<longleftrightarrow> xs ! (length xs - k - 1) < c"
proof -
  let ?i = "length xs - k - 1"
  have i: "?i < length xs" using assms(2) by simp
  have split: "how_many P xs = how_many P (take ?i xs) + how_many P (drop ?i xs)" for P
    unfolding how_many_def by (metis append_take_drop_id filter_append length_append)
  have len: "how_many P ys \<le> length ys" for P :: "'a \<Rightarrow> bool" and ys by (simp add: how_many_def)
  have d: "drop ?i xs = xs ! ?i # drop (Suc ?i) xs" using Cons_nth_drop_Suc [OF i] by simp
  show ?thesis
  proof
    assume v: "xs ! ?i < c"
    have "\<not> c \<le> x" if "x \<in> set (take ?i xs)" for x
    proof -
      from that obtain j where "j < ?i" "x = xs ! j" using i by (auto simp: in_set_conv_nth)
      then have "x \<le> xs ! ?i" using assms(1) i by (simp add: sorted_iff_nth_mono)
      with v show ?thesis by simp
    qed
    then have "how_many (\<lambda>s. c \<le> s) (take ?i xs) = 0" by (auto simp: how_many_def filter_empty_conv)
    moreover have "how_many (\<lambda>s. c \<le> s) (drop ?i xs) \<le> length (drop (Suc ?i) xs)"
      unfolding d using v len [of "\<lambda>s. c \<le> s" "drop (Suc ?i) xs"] by simp
    ultimately show "how_many (\<lambda>s. c \<le> s) xs \<le> k" using split assms(2) by simp
  next
    assume le: "how_many (\<lambda>s. c \<le> s) xs \<le> k"
    show "xs ! ?i < c"
    proof (rule ccontr)
      assume "\<not> xs ! ?i < c"
      moreover have "xs ! ?i \<le> x" if "x \<in> set (drop ?i xs)" for x
        using that assms(1) i by (auto simp: in_set_conv_nth sorted_iff_nth_mono)
      ultimately have "c \<le> x" if "x \<in> set (drop ?i xs)" for x using that by (metis not_less order_trans)
      then have "how_many (\<lambda>s. c \<le> s) (drop ?i xs) = length (drop ?i xs)" by (simp add: how_many_def)
      with le split [of "\<lambda>s. c \<le> s"] assms(2) show False by simp
    qed
  qed
qed

text \<open>
  C34. The threshold is the smallest one with the allowed false positives: for a nonempty list of normal
  scores and a target below 1, \<open>normal_cutoff\<close> returns a cutoff, and another cutoff raises at most the
  allowed number of false alarms on these scores exactly if it is not below the one returned.
\<close>

theorem cutoff_smallest:
  assumes "floats_ok fl scores" and "scores \<noteq> []"
  shows "\<exists>c. normal_cutoff fl scores = Inr c
    \<and> (\<forall>c'. c \<le> c' \<longleftrightarrow> how_many (\<lambda>s. c' \<le> s) scores \<le> f_allowed fl (length scores))"
proof -
  let ?k = "f_allowed fl (length scores)" and ?o = "sort scores"
  let ?v = "?o ! (length ?o - ?k - 1)"
  have k: "?k < length scores" using assms by (simp add: floats_ok_def)
  have "?v \<in> set scores" using k nth_mem [of "length ?o - ?k - 1" ?o] by (simp del: nth_mem)
  then have nx: "?v < y \<longleftrightarrow> f_next fl ?v \<le> y" for y using assms(1) by (simp add: floats_ok_def)
  have "how_many (\<lambda>s. c' \<le> s) scores \<le> ?k \<longleftrightarrow> ?v < c'" for c'
    using how_many_sorted [of ?o ?k c'] k by (simp add: how_many_sort)
  then show ?thesis using k assms(2) nx by (auto simp: normal_cutoff_def Let_def)
qed

text \<open>Scores that are integers, half of which may raise an alarm.\<close>

definition half_floats :: "int floats" where
  "half_floats = \<lparr>f_target_ok = True, f_allowed = \<lambda>n. n div 2, f_next = \<lambda>x. x + 1, f_deployed = 0\<rparr>"

lemma half_floats_ok: "floats_ok half_floats scores"
  by (auto simp: floats_ok_def half_floats_def)

theorem cutoff_smallest_witness:
  "\<exists>c. normal_cutoff half_floats [3, 1, 2] = Inr c
    \<and> (\<forall>c'. c \<le> c' \<longleftrightarrow> how_many (\<lambda>s. c' \<le> s) [3, 1, 2] \<le> f_allowed half_floats (length [3, 1, 2 :: int]))"
  by (rule cutoff_smallest [OF half_floats_ok]) simp

subsection \<open>Counts\<close>

lemma how_many_split: "how_many P xs = how_many (\<lambda>x. P x \<and> Q x) xs + how_many (\<lambda>x. P x \<and> \<not> Q x) xs"
  by (induction xs) auto

text \<open>Counting by technique: each row has one.\<close>

lemma sum_one: "distinct ts \<Longrightarrow> sum_list (map (\<lambda>k. if a = k then 1 else 0) ts) = (if a \<in> set ts then 1 else 0 :: nat)"
  by (induction ts) auto

lemma how_many_parts:
  assumes "distinct ts" and "\<forall>x \<in> set xs. P x \<longrightarrow> t x \<in> set ts"
  shows "sum_list (map (\<lambda>k. how_many (\<lambda>x. P x \<and> t x = k) xs) ts) = how_many P xs"
  using assms(2)
proof (induction xs)
  case (Cons x xs)
  have "sum_list (map (\<lambda>k. if P x \<and> t x = k then 1 else 0) ts) = (if P x then 1 else 0 :: nat)"
    using sum_one [OF assms(1), of "t x"] Cons.prems by simp
  then show ?case using Cons by (simp add: sum_list_addf)
qed simp

lemma how_many_zip: "length ys = length xs \<Longrightarrow> how_many (\<lambda>(x, y). P x) (zip xs ys) = how_many P xs"
  by (induction xs ys rule: list_induct2') auto

lemma techniques_of_set: "distinct (techniques_of rows)" "set (techniques_of rows) = er_tech ` set rows"
  by (simp_all add: techniques_of_def)

lemma how_many_techniques:
  "sum_list (map (\<lambda>t. how_many (\<lambda>x. (P (fst x) \<and> er_tech (fst x) = t) \<and> Q x) z) (techniques_of (filter P rows)))
    = how_many (\<lambda>x. P (fst x) \<and> Q x) z" if "fst ` set z \<subseteq> set rows"
proof -
  have "how_many (\<lambda>x. (P (fst x) \<and> er_tech (fst x) = t) \<and> Q x) z = how_many (\<lambda>x. (P (fst x) \<and> Q x) \<and> er_tech (fst x) = t) z" for t
    by (rule arg_cong [where f = "\<lambda>R. how_many R z"]) auto
  then show ?thesis
    using how_many_parts [of "techniques_of (filter P rows)" z "\<lambda>x. P (fst x) \<and> Q x" "\<lambda>x. er_tech (fst x)"] that
    by (auto simp: techniques_of_set)
qed

text \<open>
  C35. The report accounts for every row: true and false positives and negatives add up to the rows, the
  true positives and misses to the attacks, and the figures by technique, of which each has one entry in
  sorted order, to those of the report; misses are the attacks of a technique that were not found.
\<close>

theorem counts_account:
  assumes "length predicted = length rows"
  shows "let c = counts rows predicted in
    c_tp c + c_fp c + c_tn c + c_fn c = c_total c \<and> c_total c = length rows
    \<and> c_tp c + c_fn c = how_many (\<lambda>r. er_label r = 1) rows
    \<and> sum_list (map (\<lambda>(t, total, found, missed). total) (c_techniques c)) = c_tp c + c_fn c
    \<and> sum_list (map (\<lambda>(t, total, found, missed). found) (c_techniques c)) = c_tp c
    \<and> sum_list (map (\<lambda>(t, total, found, missed). missed) (c_techniques c)) = c_fn c
    \<and> sum_list (map (\<lambda>(t, total, false). total) (c_false c)) = c_fp c + c_tn c
    \<and> sum_list (map (\<lambda>(t, total, false). false) (c_false c)) = c_fp c
    \<and> sorted_wrt (<) (map fst (c_techniques c)) \<and> sorted_wrt (<) (map fst (c_false c))"
proof -
  let ?z = "zip rows predicted" and ?c = "counts rows predicted"
  let ?a = "\<lambda>r. er_label r = 1" and ?n = "\<lambda>r. er_label r \<noteq> 1"
  define cell where "cell P b = how_many (\<lambda>x. P (fst x) \<and> snd x = b) ?z" for P b
  define tech where "tech P b t = how_many (\<lambda>x. (P (fst x) \<and> er_tech (fst x) = t) \<and> snd x = b) ?z" for P b t
  define tot where "tot P t = how_many (\<lambda>x. P (fst x) \<and> er_tech (fst x) = t) ?z" for P t
  have split: "tot P t = tech P True t + tech P False t" for P t
    using how_many_split [of "\<lambda>x. P (fst x) \<and> er_tech (fst x) = t" ?z snd] by (simp add: tot_def tech_def)
  have z: "fst ` set ?z \<subseteq> set rows" by (auto dest: set_zip_leftD)
  have sums: "sum_list (map (tech P b) (techniques_of (filter P rows))) = cell P b" for P b
    using how_many_techniques [OF z, of P "\<lambda>x. snd x = b"] by (simp add: tech_def [abs_def] cell_def)
  have row: "cell P True + cell P False = how_many P rows" for P
    using how_many_split [of "\<lambda>x. P (fst x)" ?z snd] how_many_zip [OF assms, of P]
    by (simp add: cell_def case_prod_unfold)
  have all: "how_many ?a rows + how_many ?n rows = length rows"
    using sum_length_filter_compl [of ?a rows] by (simp add: how_many_def)
  have c: "c_tp ?c = cell ?a True" "c_fp ?c = cell ?n True" "c_tn ?c = cell ?n False" "c_fn ?c = cell ?a False"
    "c_total ?c = length rows"
    "c_techniques ?c = map (\<lambda>t. (t, tot ?a t, tech ?a True t, tot ?a t - tech ?a True t)) (techniques_of (filter ?a rows))"
    "c_false ?c = map (\<lambda>t. (t, tot ?n t, tech ?n True t)) (techniques_of (filter ?n rows))"
    by (simp_all add: counts_def Let_def cell_def tech_def tot_def case_prod_unfold conj_ac)
  have miss: "tot P t - tech P True t = tech P False t" for P t by (simp add: split)
  have t: "sum_list (map (tot P) (techniques_of (filter P rows))) = cell P True + cell P False" for P
    by (simp add: split [abs_def] sum_list_addf sums)
  have s: "sorted_wrt (<) (techniques_of xs)" for xs :: "'a erow list"
    by (simp add: techniques_of_def sorted_wrt_less_idx strict_sorted_iff)
  show ?thesis
    unfolding Let_def c using row [of ?a] row [of ?n] all s by (simp add: o_def sums t miss)
qed

theorem counts_account_witness:
  "let c = counts [\<lparr>er_x = [1 :: int], er_label = 1, er_tech = [5], er_session = [7]\<rparr>,
      \<lparr>er_x = [2], er_label = 0, er_tech = [6], er_session = [7]\<rparr>] [True, True] in
    c_tp c + c_fp c + c_tn c + c_fn c = c_total c \<and> c_tp c = 1 \<and> c_fp c = 1"
  using counts_account [of "[True, True]" "[\<lparr>er_x = [1 :: int], er_label = 1, er_tech = [5], er_session = [7]\<rparr>,
      \<lparr>er_x = [2], er_label = 0, er_tech = [6], er_session = [7]\<rparr>]"]
  by (simp add: counts_def)

subsection \<open>Reading the files\<close>

lemma map_res_Inr: "map_res f xs = Inr ys \<longleftrightarrow> list_all2 (\<lambda>x y. f x = Inr y) xs ys"
  by (induction xs arbitrary: ys) (auto simp: bind_res_Inr list_all2_Cons1)

lemma map_res_each: "map_res f xs = Inr ys \<Longrightarrow> x \<in> set xs \<Longrightarrow> \<exists>y. f x = Inr y"
  by (auto simp: map_res_Inr list_all2_conv_all_nth in_set_conv_nth)

lemma map_res_source: "map_res f xs = Inr ys \<Longrightarrow> y \<in> set ys \<Longrightarrow> \<exists>x \<in> set xs. f x = Inr y"
  by (induction xs arbitrary: ys) (auto simp: bind_res_Inr)

text \<open>Two loops whose results agree on what \<open>h\<close> shows, item by item.\<close>

lemma map_res_agree:
  assumes "map_res f xs = Inr ys" and "map_res f' xs = Inr ys'"
    and "\<And>x y y'. x \<in> set xs \<Longrightarrow> f x = Inr y \<Longrightarrow> f' x = Inr y' \<Longrightarrow> h y = h y'"
  shows "map h ys = map h ys'"
  using assms
proof (induction xs arbitrary: ys ys')
  case (Cons x xs)
  from Cons.prems(1,2) obtain y zs y' zs' where "f x = Inr y" "map_res f xs = Inr zs" "ys = y # zs"
    "f' x = Inr y'" "map_res f' xs = Inr zs'" "ys' = y' # zs'" by (auto simp: bind_res_Inr)
  moreover from calculation have "h y = h y'" by (intro Cons.prems(3)) auto
  moreover from calculation have "map h zs = map h zs'" by (intro Cons.IH Cons.prems(3)) auto
  ultimately show ?case by simp
qed simp

text \<open>Two lists of files that differ only in files of the session \<open>s\<close>.\<close>

definition same_file_but :: "pystr \<Rightarrow> 'v npzfile res \<Rightarrow> 'v npzfile res \<Rightarrow> bool" where
  "same_file_but s f f' \<longleftrightarrow> f = f' \<or> (\<exists>g g'. f = Inr g \<and> f' = Inr g' \<and> set (nf_sessions g) \<union> set (nf_sessions g') \<subseteq> {s})"

definition same_but :: "pystr \<Rightarrow> 'v npzfile res list \<Rightarrow> 'v npzfile res list \<Rightarrow> bool" where
  "same_but s files files' \<longleftrightarrow> list_all2 (same_file_but s) files files'"

lemma others_append [simp]: "others s (xs @ ys) = others s xs @ others s ys"
  by (simp add: others_def)

lemma check_file_lengths:
  assumes "check_file fin single expected seen f = Inr seen'"
  shows "length (nf_sessions f) = length (nf_X f)" "expected \<noteq> None \<Longrightarrow> expected = Some (nf_names f)"
    "single \<Longrightarrow> length (remdups (nf_sessions f)) = 1"
  using assms by (auto simp: check_file_def split: if_splits)

lemma others_file_rows:
  assumes "set (nf_sessions f) \<subseteq> {s}" and "length (nf_sessions f) = length (nf_X f)"
  shows "others s (file_rows ex f) = []"
proof -
  have "nf_sessions f ! i = s" if "i < length (nf_X f)" for i
    using assms(1) nth_mem [of i "nf_sessions f"] that unfolding assms(2) by blast
  then show ?thesis by (simp add: others_def file_rows_def filter_empty_conv)
qed

lemma read_files_Cons:
  "read_files fin single ex expected seen (r # rs) = Inr (rows, names) \<longleftrightarrow>
    (\<exists>f seen' rest. r = Inr f \<and> check_file fin single expected seen f = Inr seen'
      \<and> read_files fin single ex (Some (nf_names f)) seen' rs = Inr (rest, names) \<and> rows = file_rows ex f @ rest)"
  by (auto simp: bind_res_Inr)

lemma read_files_others:
  assumes "list_all2 (same_file_but s) files files'"
    and "read_files fin single ex expected seen files = Inr (rows, names)"
    and "read_files fin single ex expected' seen0 files' = Inr (rows', names')"
  shows "others s rows = others s rows'"
  using assms
proof (induction arbitrary: expected seen rows expected' seen0 rows' rule: list_all2_induct)
  case (Cons r rs r' rs')
  from Cons.prems(1) obtain f seen1 rest where f: "r = Inr f" "check_file fin single expected seen f = Inr seen1"
    "read_files fin single ex (Some (nf_names f)) seen1 rs = Inr (rest, names)" "rows = file_rows ex f @ rest"
    unfolding read_files_Cons by blast
  from Cons.prems(2) obtain f' seen2 rest' where f': "r' = Inr f'" "check_file fin single expected' seen0 f' = Inr seen2"
    "read_files fin single ex (Some (nf_names f')) seen2 rs' = Inr (rest', names')" "rows' = file_rows ex f' @ rest'"
    unfolding read_files_Cons by blast
  have "others s (file_rows ex f) = others s (file_rows ex f')"
    using Cons.hyps(1) f(1) f'(1) others_file_rows [OF _ check_file_lengths(1) [OF f(2)]]
      others_file_rows [OF _ check_file_lengths(1) [OF f'(2)]] by (auto simp: same_file_but_def)
  with Cons.IH [OF f(3) f'(3)] f(4) f'(4) show ?case by simp
qed simp

lemma read_files_names:
  assumes "read_files fin single ex expected seen files = Inr (rows, names)"
  shows "\<forall>f \<in> set files. \<exists>g. f = Inr g \<and> names = Some (nf_names g)" "expected \<noteq> None \<Longrightarrow> names = expected"
proof -
  have "(\<forall>f \<in> set files. \<exists>g. f = Inr g \<and> names = Some (nf_names g)) \<and> (expected \<noteq> None \<longrightarrow> names = expected)"
    using assms
  proof (induction files arbitrary: expected seen rows)
    case (Cons r rs)
    from Cons.prems obtain f seen' rest where f: "r = Inr f" "check_file fin single expected seen f = Inr seen'"
      "read_files fin single ex (Some (nf_names f)) seen' rs = Inr (rest, names)" unfolding read_files_Cons by blast
    from Cons.IH [OF f(3)] f(1) check_file_lengths(2) [OF f(2)] show ?case by auto
  qed simp
  then show "\<forall>f \<in> set files. \<exists>g. f = Inr g \<and> names = Some (nf_names g)" "expected \<noteq> None \<Longrightarrow> names = expected"
    by blast+
qed

lemma read_files_sessions:
  assumes "read_files fin single ex expected seen files = Inr (rows, names)"
  shows "er_session ` set rows \<subseteq> (\<Union>f \<in> set files. case f of Inl e \<Rightarrow> {} | Inr g \<Rightarrow> set (nf_sessions g))"
  using assms
proof (induction files arbitrary: expected seen rows)
  case (Cons r rs)
  from Cons.prems obtain f seen' rest where f: "r = Inr f" "check_file fin single expected seen f = Inr seen'"
    "read_files fin single ex (Some (nf_names f)) seen' rs = Inr (rest, names)" "rows = file_rows ex f @ rest"
    unfolding read_files_Cons by blast
  have "er_session ` set (file_rows ex f) \<subseteq> set (nf_sessions f)"
    using check_file_lengths(1) [OF f(2)] by (auto simp: file_rows_def)
  with Cons.IH [OF f(3)] f(1,4) show ?case by auto
qed simp

lemma sessions_of_set: "set (sessions_of rows) = er_session ` set rows" "distinct (sessions_of rows)" "sorted (sessions_of rows)"
  by (simp_all add: sessions_of_def)

lemma read_data_others:
  assumes "same_but s files files'" and "read_data fin ex single files = Inr (rows, names)"
    and "read_data fin ex single files' = Inr (rows', names')"
  shows "others s rows = others s rows'" and "names = names'"
proof -
  obtain rs n where r: "read_files fin single ex None [] files = Inr (rs, n)" "rows = sort_key er_session rs" "names = the n"
    "3 \<le> length (sessions_of rs)"
    using assms(2) by (auto simp: read_data_def bind_res_Inr Let_def split: if_splits)
  obtain rs' n' where r': "read_files fin single ex None [] files' = Inr (rs', n')" "rows' = sort_key er_session rs'" "names' = the n'"
    using assms(3) by (auto simp: read_data_def bind_res_Inr Let_def split: if_splits)
  have o: "others s (sort_key er_session xs) = sort_key er_session (others s xs)" for xs :: "'a erow list"
    by (simp add: others_def filter_sort)
  show "others s rows = others s rows'"
    using read_files_others [OF assms(1) [unfolded same_but_def] r(1) r'(1)] by (simp add: r(2) r'(2) o)
  have "\<exists>f \<in> set files. f \<in> set files'"
  proof (rule ccontr)
    assume no: "\<not> (\<exists>f \<in> set files. f \<in> set files')"
    have "(case f of Inl e \<Rightarrow> {} | Inr g \<Rightarrow> set (nf_sessions g)) \<subseteq> {s}" if f: "f \<in> set files" for f
    proof -
      from f obtain i where i: "i < length files" "f = files ! i" by (auto simp: in_set_conv_nth)
      with assms(1) have s: "same_file_but s f (files' ! i)" "i < length files'"
        by (auto simp: same_but_def list_all2_conv_all_nth)
      with no f have "f \<noteq> files' ! i" by (metis nth_mem)
      with s(1) show ?thesis by (auto simp: same_file_but_def)
    qed
    then have "(\<Union>f \<in> set files. case f of Inl e \<Rightarrow> {} | Inr g \<Rightarrow> set (nf_sessions g)) \<subseteq> {s}"
      by (rule UN_least)
    with read_files_sessions [OF r(1)] have "er_session ` set rs \<subseteq> {s}" by (rule subset_trans)
    then have "card (set (sessions_of rs)) \<le> card {s}" unfolding sessions_of_set by (intro card_mono) auto
    with r(4) sessions_of_set(2) [of rs] show False by (simp add: distinct_card)
  qed
  then show "names = names'" using read_files_names(1) [OF r(1)] read_files_names(1) [OF r'(1)] r(3) r'(3) by force
qed

lemma mask_rows_Inr:
  assumes "mask_rows names ex rows = Inr ms"
  shows "ms = map (\<lambda>r. r\<lparr>er_x := keep_columns names ex (er_x r)\<rparr>) rows"
proof -
  have "map2 (\<lambda>r x. r\<lparr>er_x := x\<rparr>) rows (map g (map er_x rows)) = map (\<lambda>r. r\<lparr>er_x := g (er_x r)\<rparr>) rows"
    for g :: "'a list \<Rightarrow> 'a list" by (induction rows) auto
  then show ?thesis using assms by (auto simp: mask_rows_def bind_res_Inr apply_feature_mask_def split: if_splits)
qed

lemma mask_rows_others:
  assumes "mask_rows names ex rows = Inr ms" and "mask_rows names ex rows' = Inr ms'" and "others s rows = others s rows'"
  shows "others s ms = others s ms'"
proof -
  have "others s (map (\<lambda>r. r\<lparr>er_x := g r\<rparr>) xs) = map (\<lambda>r. r\<lparr>er_x := g r\<rparr>) (others s xs)"
    for g :: "'a erow \<Rightarrow> 'a list" and xs by (induction xs) (auto simp: others_def)
  then show ?thesis using assms(3) by (simp add: mask_rows_Inr [OF assms(1)] mask_rows_Inr [OF assms(2)])
qed

subsection \<open>The held-out session\<close>

lemma evaluate_Folds:
  assumes "evaluate fin lr fl ex exf dep None files = Inr (Folds rs)"
  obtains raw names masked where "read_data fin ex False files = Inr (raw, names)"
    "mask_rows names (filter (\<lambda>n. n \<in> set exf) names) raw = Inr masked"
    "\<forall>r \<in> set rs. evaluate_fold lr fl dep raw masked (e_session r) = Inr r"
proof -
  from assms obtain raw names masked where m: "read_data fin ex False files = Inr (raw, names)"
    "mask_rows names (filter (\<lambda>n. n \<in> set exf) names) raw = Inr masked"
    "map_res (evaluate_fold lr fl dep raw masked) (sessions_of raw) = Inr rs"
    by (auto simp: evaluate_def bind_res_Inr split: if_splits)
  have "evaluate_fold lr fl dep raw masked (e_session r) = Inr r" if "r \<in> set rs" for r
  proof -
    from that m(3) obtain s where "evaluate_fold lr fl dep raw masked s = Inr r"
      by (auto simp: map_res_Inr list_all2_conv_all_nth in_set_conv_nth)
    moreover from this have "e_session r = s" by (auto simp: evaluate_fold_def bind_res_Inr)
    ultimately show ?thesis by simp
  qed
  with m(1,2) that show ?thesis by blast
qed

lemma fold_blind:
  assumes "evaluate_fold lr fl dep raw ms s = Inr r" and "evaluate_fold lr fl dep raw' ms' s = Inr r'"
    and "others s ms = others s ms'"
  shows "e_model r = e_model r' \<and> sc_threshold (e_new r) = sc_threshold (e_new r')"
  using assms by (auto simp: evaluate_fold_def bind_res_Inr score_rf_def)

text \<open>
  C36. The held-out session has no influence on its own threshold: if the files of a session are replaced
  by any other files of that session, then, wherever both evaluations succeed, the model that is tested
  on this session and its threshold are the same; neither has seen a row of it, directly, through the
  order of the rows, or through the nested folds.
\<close>

theorem held_out_blind:
  assumes "same_but s files files'"
    and "evaluate fin lr fl ex exf dep None files = Inr (Folds rs)" and "r \<in> set rs" and "e_session r = s"
    and "evaluate fin lr fl ex exf dep None files' = Inr (Folds rs')" and "r' \<in> set rs'" and "e_session r' = s"
  shows "e_model r = e_model r' \<and> sc_threshold (e_new r) = sc_threshold (e_new r')"
proof -
  obtain raw names ms where e: "read_data fin ex False files = Inr (raw, names)"
    "mask_rows names (filter (\<lambda>n. n \<in> set exf) names) raw = Inr ms"
    "\<forall>r \<in> set rs. evaluate_fold lr fl dep raw ms (e_session r) = Inr r"
    by (rule evaluate_Folds [OF assms(2)])
  obtain raw' names' ms' where e': "read_data fin ex False files' = Inr (raw', names')"
    "mask_rows names' (filter (\<lambda>n. n \<in> set exf) names') raw' = Inr ms'"
    "\<forall>r \<in> set rs'. evaluate_fold lr fl dep raw' ms' (e_session r) = Inr r"
    by (rule evaluate_Folds [OF assms(5)])
  note o = read_data_others [OF assms(1) e(1) e'(1)]
  have "others s ms = others s ms'"
    by (rule mask_rows_others [OF e(2) e'(2) [folded o(2)] o(1)])
  then show ?thesis using fold_blind e(3) e'(3) assms(3,4,6,7) by metis
qed

text \<open>Three sessions of one feature; a learner whose model is the list of its training rows.\<close>

definition toy_learner :: "(int, int list list, int) learner" where
  "toy_learner = \<lparr>l_fit = \<lambda>X ls. Inr X, l_classes = \<lambda>m. [0, 1], l_proba = \<lambda>m X. map (\<lambda>x. [0, hd x]) X,
     l_forest = \<lambda>X. Inr X, l_samples = \<lambda>m X. map (\<lambda>x. hd x) X\<rparr>"

definition toy_file :: "int \<Rightarrow> int list \<Rightarrow> int npzfile" where
  "toy_file s xs = \<lparr>nf_X = map (\<lambda>x. [x]) xs, nf_width = 1, nf_labels = map (\<lambda>x. ucode ''normal'') xs,
     nf_techniques = map (\<lambda>x. [7]) xs, nf_sessions = map (\<lambda>x. [s]) xs, nf_names = [''f'']\<rparr>"

definition toy_evaluate :: "int npzfile list \<Rightarrow> (int list list, int) evaluation res" where
  "toy_evaluate fs = evaluate (\<lambda>_. True) toy_learner half_floats [] [] None None (map Inr fs)"

lemma toy_evaluates:
  "case toy_evaluate [toy_file 1 [4, 5], toy_file 2 [8], toy_file 3 [6]] of Inr (Folds rs) \<Rightarrow> map e_session rs = [[1], [2], [3]]
     \<and> map (\<lambda>r. sc_threshold (e_new r)) rs = [7, 6, 6] | _ \<Rightarrow> False"
  "case toy_evaluate [toy_file 1 [4, 5], toy_file 2 [80, 90], toy_file 3 [6]] of Inr (Folds rs) \<Rightarrow> map e_session rs = [[1], [2], [3]]
     \<and> map (\<lambda>r. sc_threshold (e_new r)) rs = [81, 6, 6] | _ \<Rightarrow> False"
  by code_simp+

theorem held_out_blind_witness:
  "\<exists>rs rs'. toy_evaluate [toy_file 1 [4, 5], toy_file 2 [8], toy_file 3 [6]] = Inr (Folds rs)
    \<and> toy_evaluate [toy_file 1 [4, 5], toy_file 2 [80, 90], toy_file 3 [6]] = Inr (Folds rs')
    \<and> sc_threshold (e_new (rs ! 0)) \<noteq> sc_threshold (e_new (rs' ! 0))
    \<and> e_model (rs ! 1) = e_model (rs' ! 1) \<and> sc_threshold (e_new (rs ! 1)) = sc_threshold (e_new (rs' ! 1))"
proof -
  let ?A = "[toy_file 1 [4, 5], toy_file 2 [8], toy_file 3 [6]]" and ?B = "[toy_file 1 [4, 5], toy_file 2 [80, 90], toy_file 3 [6]]"
  obtain rs where rs: "toy_evaluate ?A = Inr (Folds rs)" "map e_session rs = [[1], [2], [3]]"
    "map (\<lambda>r. sc_threshold (e_new r)) rs = [7, 6, 6]"
    using toy_evaluates(1) by (auto split: sum.splits evaluation.splits)
  obtain rs' where rs': "toy_evaluate ?B = Inr (Folds rs')" "map e_session rs' = [[1], [2], [3]]"
    "map (\<lambda>r. sc_threshold (e_new r)) rs' = [81, 6, 6]"
    using toy_evaluates(2) by (auto split: sum.splits evaluation.splits)
  have nth: "\<exists>a b c. xs = [a, b, c]" if "map f xs = [x, y, z]" for f :: "'a \<Rightarrow> 'b" and xs x y z
    using that by (auto simp: map_eq_Cons_conv)
  obtain a b c where abc: "rs = [a, b, c]" using nth [OF rs(2)] by blast
  obtain a' b' c' where abc': "rs' = [a', b', c']" using nth [OF rs'(2)] by blast
  have same: "same_but [2] (map Inr ?A) (map Inr ?B)" by (simp add: same_but_def same_file_but_def toy_file_def)
  have "e_model b = e_model b' \<and> sc_threshold (e_new b) = sc_threshold (e_new b')"
    by (rule held_out_blind [OF same rs(1) [unfolded toy_evaluate_def] _ _ rs'(1) [unfolded toy_evaluate_def]])
      (use rs(2) rs'(2) abc abc' in simp_all)
  then show ?thesis using rs(1,3) rs'(1,3) unfolding abc abc' by (intro exI [of _ "[a, b, c]"] exI [of _ "[a', b', c']"]) simp
qed

end
