(* ===== verification/Evaluate_Group_Claims.thy ===== *)
theory Evaluate_Group_Claims
  imports Evaluate_Groups Evaluate_Claims
begin

section \<open>Held-out groups stay held out\<close>

























text \<open>The rows that train and test, computed once.\<close>

definition grow :: "unit list \<Rightarrow> int \<Rightarrow> string \<Rightarrow> unit erow" where
  "grow x s t = \<lparr>er_x = x, er_label = (if t = ''idle'' then 0 else 1), er_tech = ucode t, er_session = [s]\<rparr>"


lemma grow_simps [simp]: "er_label (grow x s t) = (if t = ''idle'' then 0 else 1)" "er_tech (grow x s t) = ucode t"
  by (simp_all add: grow_def)









subsection \<open>Normal rows only\<close>








end
