(* ===== verification/Audit_Runs.thy ===== *)
theory Audit_Runs
  imports Collection Unlink_Claims
begin

section \<open>Auditing an accepted session: \<open>run_temporal_unlink_audits.py\<close>\<close>

text \<open>
  \<open>audit_prefix\<close> composes the checks: the capture has the digest of the archive manifest, the collection
  was without loss, the audit finds as many deletions as the collector received, and the windows can be
  computed.  The two JSON files, SHA-256 and the array library are parameters.
\<close>

record 'd prefix_input =
  pi_paths :: "pystr list"
  pi_before :: world
  pi_after :: world
  pi_proof :: "'d res"
  pi_bytes :: bytes
  pi_network :: "network_audit res"
  pi_log :: pystr
  pi_audit :: audit_input

record 'd prefix_result =
  pr_report :: unlink_report
  pr_digest :: 'd
  pr_quality :: quality

definition received_of :: "quality \<Rightarrow> string \<Rightarrow> int res" where
  "received_of q name = (case map_of (q_received q) (ucode name) of None \<Rightarrow> Inl (KeyErr name) | Some v \<Rightarrow> Inr v)"

definition audit_prefix :: "numpy \<Rightarrow> (bytes \<Rightarrow> 'd) \<Rightarrow> 'd prefix_input \<Rightarrow> 'd prefix_result res" where
  "audit_prefix np sha x =
    bind_res (snapshot (pi_before x) (pi_paths x)) (\<lambda>sources.
    bind_res (check_closed (pi_before x) sources) (\<lambda>_.
    bind_res (pi_proof x) (\<lambda>digest.
    bind_res (require (sha (pi_bytes x) = digest) ''archive checksum mismatch'') (\<lambda>_.
    bind_res (pi_network x) (\<lambda>network.
    bind_res (check_collection (pi_log x) network) (\<lambda>quality.
    bind_res (received_of quality ''FILE_UNLINK'') (\<lambda>expected.
    bind_res (audit_unlinks ((pi_audit x)\<lparr>ai_expected := expected\<rparr>)) (\<lambda>report.
    bind_res (temporal_features np (unlink_audit.truncate report)) (\<lambda>_.
    bind_res (snapshot (pi_after x) (pi_paths x)) (\<lambda>again.
    bind_res (require (again = sources) ''input identity changed across checksum/audit/quality validation'') (\<lambda>_.
    bind_res (check_closed (pi_after x) sources) (\<lambda>_.
      Inr \<lparr>pr_report = report, pr_digest = sha (pi_bytes x), pr_quality = quality\<rparr>))))))))))))"

section \<open>Windows of the events themselves\<close>

text \<open>The events of the window of \<open>seconds\<close> that ends with the second \<open>b\<close>.\<close>

definition in_span :: "int \<Rightarrow> int \<Rightarrow> int \<Rightarrow> bool" where
  "in_span b seconds t \<longleftrightarrow> b - (seconds - 1) * SECOND \<le> t \<and> t \<le> b"

definition event_row :: "bytes list \<Rightarrow> int \<Rightarrow> feat list" where
  "event_row ps b = [Log1p (n_of (\<lambda>p. is_unlink p \<and> bucket_of p = b) ps),
     Log1p (int (card (scope_of ` {p \<in> set (hits b ps). \<not> scope_missing p})))]
     @ concat (map (\<lambda>seconds. [Log1p (n_of (\<lambda>p. is_unlink p \<and> in_span b seconds (bucket_of p)) ps),
          Ratio (int (card (bucket_of ` {p \<in> set ps. is_unlink p \<and> in_span b seconds (bucket_of p)}))) seconds])
        WINDOWS)"

lemma n_of_compl: "n_of (\<lambda>x. P x \<and> Q x) xs + n_of (\<lambda>x. P x \<and> \<not> Q x) xs = n_of P xs"
  by (induction xs) (auto simp: n_of_def)

lemma n_of_hits: "n_of (\<lambda>_. True) (hits b ps) = n_of (\<lambda>p. is_unlink p \<and> bucket_of p = b) ps"
  by (simp add: n_of_def hits_def)

lemma n_of_cong: "(\<And>x. x \<in> set xs \<Longrightarrow> P x = Q x) \<Longrightarrow> n_of P xs = n_of Q xs"
  by (simp add: n_of_def cong: filter_cong)

lemma n_of_zero: "n_of P xs = 0 \<longleftrightarrow> (\<forall>x \<in> set xs. \<not> P x)"
  by (simp add: n_of_def filter_empty_conv)

lemma n_of_pos: "0 < n_of P xs \<longleftrightarrow> (\<exists>x \<in> set xs. P x)"
  by (induction xs) (auto simp: n_of_def)

lemma hits_of_rows:
  assumes "distinct bs"
  shows "sum_list (map (\<lambda>b. n_of (\<lambda>_. True) (hits b ps)) (filter P bs))
    = n_of (\<lambda>p. is_unlink p \<and> bucket_of p \<in> set bs \<and> P (bucket_of p)) ps"
  using unlinks_split [of "filter P bs" ps] assms n_of_compl [of is_unlink "\<lambda>p. bucket_of p \<in> set (filter P bs)" ps]
  by simp

lemma active_of_rows:
  assumes "distinct bs"
  shows "sum_list (map (\<lambda>b. if 0 < n_of (\<lambda>_. True) (hits b ps) then 1 else 0) (filter P bs))
    = int (card (bucket_of ` {p \<in> set ps. is_unlink p \<and> bucket_of p \<in> set bs \<and> P (bucket_of p)}))"
proof -
  let ?Q = "\<lambda>b. P b \<and> 0 < n_of (\<lambda>_. True) (hits b ps)"
  have "sum_list (map (\<lambda>b. if 0 < n_of (\<lambda>_. True) (hits b ps) then 1 else 0) (filter P bs))
      = int (length (filter ?Q bs))" by (induction bs) auto
  also have "length (filter ?Q bs) = card (set (filter ?Q bs))" using assms by (simp add: distinct_card del: set_filter)
  also have "set (filter ?Q bs) = bucket_of ` {p \<in> set ps. is_unlink p \<and> bucket_of p \<in> set bs \<and> P (bucket_of p)}"
    by (auto simp: n_of_hits n_of_pos)
  finally show ?thesis .
qed

lemma window_row_events:
  assumes "distinct bs" and "\<forall>p \<in> set ps. is_unlink p \<longrightarrow> bucket_of p \<in> set bs"
  shows "window_row (map (unlink_row ps) bs) (unlink_row ps b) = event_row ps b"
proof -
  have w: "window_sum f (map (unlink_row ps) bs) (unlink_row ps b) s
      = sum_list (map (\<lambda>b'. f (unlink_row ps b')) (filter (in_span b s) bs))" for f s
    by (simp add: window_sum_def filter_map o_def unlink_row_def in_span_def [abs_def])
  have a: "n_of (\<lambda>p. is_unlink p \<and> bucket_of p \<in> set bs \<and> in_span b s (bucket_of p)) ps
      = n_of (\<lambda>p. is_unlink p \<and> in_span b s (bucket_of p)) ps" for s
    by (rule n_of_cong) (use assms(2) in auto)
  have c: "{p \<in> set ps. is_unlink p \<and> bucket_of p \<in> set bs \<and> in_span b s (bucket_of p)}
      = {p \<in> set ps. is_unlink p \<and> in_span b s (bucket_of p)}" for s using assms(2) by auto
  have att: "u_attempts (unlink_row ps b') = n_of (\<lambda>_. True) (hits b' ps)" for b' by (simp add: unlink_row_def)
  show ?thesis
    unfolding window_row_def event_row_def w att hits_of_rows [OF assms(1)] active_of_rows [OF assms(1)] a c
    by (simp add: unlink_row_def n_of_hits)
qed

lemma audit_prefix_events:
  assumes "numpy_ok np" and "audit_prefix np sha x = Inr res"
  obtains e z ps where "received_of (pr_quality res) ''FILE_UNLINK'' = Inr e" "ai_data (pi_audit x) = Inr z"
    "check_npz z = Inr ()" "concat (ai_chunks (pi_audit x)) = concat (map frame_bytes ps)" "\<forall>p \<in> set ps. u_valid p"
    "n_of is_unlink ps = e" "pr_report res = unlink_report_of ((pi_audit x)\<lparr>ai_expected := e\<rparr>) z (counted (z_buckets z) ps)"
    "\<forall>p \<in> set ps. is_unlink p \<longrightarrow> bucket_of p \<in> set (z_buckets z)"
    "temporal_features np (unlink_audit.truncate (pr_report res)) = Inr (map (event_row ps) (z_buckets z))"
proof -
  let ?r = "pr_report res"
  from assms(2) obtain e rows where e: "received_of (pr_quality res) ''FILE_UNLINK'' = Inr e"
    and r: "audit_unlinks ((pi_audit x)\<lparr>ai_expected := e\<rparr>) = Inr ?r"
    and rows: "temporal_features np (unlink_audit.truncate ?r) = Inr rows"
    by (auto simp: audit_prefix_def bind_res_Inr)
  obtain z ps where z: "ai_data (pi_audit x) = Inr z" "check_npz z = Inr ()"
    "concat (ai_chunks (pi_audit x)) = concat (map frame_bytes ps)" "\<forall>p \<in> set ps. u_valid p"
    "n_of is_unlink ps = e"
    "?r = unlink_report_of ((pi_audit x)\<lparr>ai_expected := e\<rparr>) z (counted (z_buckets z) ps)"
    by (rule audit_unlinks_Inr [OF r]) simp
  have d: "distinct (z_buckets z)" using check_npz_Inr [OF z(2)] by blast
  note f = report_fields [OF d z(6)]
  have "audit_complete (unlink_audit.truncate ?r)" and rw: "rows = map (window_row (au_rows ?r)) (au_rows ?r)"
    using rows windows_spec [OF assms(1)] by (auto simp: unlink_audit.truncate_def)
  then have "au_outside ?r = 0" using unlink_audit_complete [OF r] by blast
  then have inside: "\<forall>p \<in> set ps. is_unlink p \<longrightarrow> bucket_of p \<in> set (z_buckets z)"
    using f(3) by (auto simp: n_of_zero)
  have "rows = map (event_row ps) (z_buckets z)"
    unfolding rw f(1) map_map o_def window_row_events [OF d inside] ..
  with that z e rows inside show ?thesis by blast
qed

text \<open>
  C31. From the bytes of the capture to the windows: when the audit of a session succeeds, its capture
  decompresses to whole valid frames, the collector received as many deletions as they hold, each of
  them belongs to a row, and the windows of a row, in the order of the dataset, are the numbers of the
  deletions and of the seconds with deletions among the events themselves of the last 5, 30 and 60
  seconds.
\<close>

theorem audited_windows:
  assumes "numpy_ok np" and "audit_prefix np sha x = Inr res"
  shows "\<exists>z ps. ai_data (pi_audit x) = Inr z
    \<and> concat (ai_chunks (pi_audit x)) = concat (map frame_bytes ps) \<and> (\<forall>p \<in> set ps. u_valid p)
    \<and> received_of (pr_quality res) ''FILE_UNLINK'' = Inr (n_of is_unlink ps)
    \<and> (\<forall>p \<in> set ps. is_unlink p \<longrightarrow> bucket_of p \<in> set (z_buckets z))
    \<and> temporal_features np (unlink_audit.truncate (pr_report res)) = Inr (map (event_row ps) (z_buckets z))"
  by (rule audit_prefix_events [OF assms]) blast

end
