(* ===== verification/Evaluate_Temporal_Claims.thy ===== *)
theory Evaluate_Temporal_Claims
  imports Evaluate_Temporal Evaluate_Group_Claims Audit_Runs
begin

section \<open>The join, and what may be trained on\<close>

subsection \<open>Joining an audit with its dataset\<close>

lemma check_audit_rows_Inr:
  "check_audit_rows seen rs = Inr () \<longleftrightarrow> list_all (\<lambda>r. 0 \<le> u_time r \<and> u_time r mod SECOND = 0 \<and> 0 \<le> u_attempts r
      \<and> 0 \<le> u_scopes r \<and> 0 \<le> u_unscoped r \<and> u_scopes r + u_unscoped r \<le> u_attempts r) rs
    \<and> distinct (map u_time rs) \<and> set (map u_time rs) \<inter> set seen = {}"
  by (induction rs arbitrary: seen) (auto simp: not_less)

lemma row_index_nth:
  assumes "distinct bs" and "i < length bs"
  shows "row_index bs (bs ! i) = Some i"
proof -
  have "map_of (rev (zip bs [0..<length bs])) (bs ! i) = Some i"
    by (rule map_of_is_SomeI) (use assms in \<open>auto simp: rev_map [symmetric] in_set_zip intro!: exI [of _ i]\<close>)
  then show ?thesis by (simp add: row_index_def)
qed

lemma length_event_row: "length (event_row ps b) = 8"
  by (simp add: event_row_def WINDOWS_def)

text \<open>
  C39. The join undoes the order of the files: an audit that succeeded on a capture and a dataset joins
  with the rows of this dataset in any order, and gives to each row the windows of the events of the
  capture at its second.
\<close>

theorem join_of_audit:
  assumes "numpy_ok np" and "audit_prefix np sha x = Inr res" and "ai_data (pi_audit x) = Inr z"
    and "distinct \<pi>" and "set \<pi> = {..<length (z_buckets z)}"
  shows "\<exists>ps. concat (ai_chunks (pi_audit x)) = concat (map frame_bytes ps)
    \<and> join_audit np (pr_report res) (hd (z_sessions z)) (map ((!) (z_buckets z)) \<pi>) (map ((!) (z_labels z)) \<pi>)
        (map ((!) (z_techniques z)) \<pi>)
      = Inr (map (\<lambda>i. event_row ps (z_buckets z ! i)) \<pi>)"
proof -
  let ?r = "pr_report res" and ?bs = "z_buckets z"
  obtain e z' ps where a: "received_of (pr_quality res) ''FILE_UNLINK'' = Inr e" "ai_data (pi_audit x) = Inr z'"
    "check_npz z' = Inr ()" "concat (ai_chunks (pi_audit x)) = concat (map frame_bytes ps)" "\<forall>p \<in> set ps. u_valid p"
    "n_of is_unlink ps = e" "?r = unlink_report_of ((pi_audit x)\<lparr>ai_expected := e\<rparr>) z' (counted (z_buckets z') ps)"
    "\<forall>p \<in> set ps. is_unlink p \<longrightarrow> bucket_of p \<in> set (z_buckets z')"
    "temporal_features np (unlink_audit.truncate ?r) = Inr (map (event_row ps) (z_buckets z'))"
    by (rule audit_prefix_events [OF assms(1,2)])
  from a(2) assms(3) have z: "z' = z" by simp
  note a = a [unfolded z]
  have d: "distinct ?bs" and b: "\<forall>b \<in> set ?bs. 0 \<le> b \<and> b mod SECOND = 0"
    using check_npz_Inr [OF a(3)] by (auto simp: BUCKET_NS_def SECOND_def)
  note f = report_fields [OF d a(7)]
  have c: "audit_complete (unlink_audit.truncate ?r)" using a(9) windows_spec [OF assms(1)] by blast
  have times: "map u_time (au_rows ?r) = ?bs" by (simp add: f(1) unlink_row_def o_def)
  have "set (map ((!) ?bs) \<pi>) = (!) ?bs ` {..<length ?bs}" by (simp add: assms(5))
  also have "\<dots> = set ?bs" by (auto simp: set_conv_nth)
  finally have perm: "set (map ((!) ?bs) \<pi>) = set ?bs" "distinct (map ((!) ?bs) \<pi>)" "length \<pi> = length ?bs"
    using assms(4,5) d by (auto simp: distinct_map inj_on_def nth_eq_iff_index_eq intro: length_order)
  have order: "map (\<lambda>b. the (row_index (map u_time (au_rows ?r)) b)) (map ((!) ?bs) \<pi>) = \<pi>"
    unfolding times map_map by (rule map_idI) (use row_index_nth [OF d] assms(5) in auto)
  have rows: "check_audit_rows [] (au_rows ?r) = Inr ()"
    using c b d times unfolding check_audit_rows_Inr
    by (auto simp: audit_complete_def unlink_audit.truncate_def list_all_iff f(1) unlink_row_def o_def)
  have "ur_expected ?r = e" "ur_matched_unknown ?r = sum_list (map (\<lambda>b. n_of scope_missing (hits b ps)) ?bs)"
    by (simp_all add: a(7) unlink_report_of_def counted_def)
  then have sums: "au_matched ?r = sum_list (map u_attempts (au_rows ?r))" "au_recorded ?r = ur_expected ?r"
    "au_recorded ?r = sum_list (map u_attempts (au_rows ?r)) + au_outside ?r"
    "ur_matched_unknown ?r = sum_list (map u_unscoped (au_rows ?r))"
    using f(2,4,5) a(6) by (simp_all add: f(1) unlink_row_def o_def)
  have same: "ur_session ?r = hd (z_sessions z)" "ur_bucket_ns ?r = SECOND" "ur_labels ?r = z_labels z"
    "ur_techniques ?r = z_techniques z" "au_npz_buckets ?r = int (length ?bs)"
    by (simp_all add: a(7) unlink_report_of_def BUCKET_NS_def SECOND_def)
  have len: "length (au_rows ?r) = length ?bs" by (simp add: f(1))
  have win: "map (\<lambda>j. map (event_row ps) ?bs ! j) \<pi> = map (\<lambda>i. event_row ps (?bs ! i)) \<pi>" using assms(5) by simp
  have "join_audit np ?r (hd (z_sessions z)) (map ((!) ?bs) \<pi>) (map ((!) (z_labels z)) \<pi>) (map ((!) (z_techniques z)) \<pi>)
      = Inr (map (\<lambda>i. event_row ps (?bs ! i)) \<pi>)"
    unfolding join_audit_def Let_def order a(9) rows
    using perm b sums same len times win by (simp add: require_def list_all_iff length_event_row del: map_map)
  with a(4) show ?thesis by blast
qed

subsection \<open>Histories without an attack\<close>








end
