(* ===== verification/Audit_Fixture.thy ===== *)
theory Audit_Fixture
  imports Audit_Runs
begin

section \<open>A session that passes the audit\<close>

definition log_line :: "string list \<Rightarrow> pystr" where
  "log_line ws = concat (map ucode ws) @ [10]"

definition sample_collector_log :: pystr where
  "sample_collector_log = log_line [''writer queue dropped=0''] @ log_line [''writer priority dropped=0'']
     @ concat (map (\<lambda>n. log_line ['' '', n, '' received='', if n = ''FILE_UNLINK'' then ''1'' else ''0'', '' lost=0''])
         EVENT_NAMES)
     @ concat (map (\<lambda>n. log_line ['' '', n, '' 0''])
         [''map_update_failed'', ''socket_read_failed'', ''ringbuf_lost'', ''user_read_failed'', ''filtered'', ''rate_limited''])"

definition no_network :: network_audit where
  "no_network = \<lparr>na_counts = [], na_incomplete = []\<rparr>"

lemma sample_log_checked:
  "case check_collection sample_collector_log no_network of
     Inl e \<Rightarrow> False | Inr q \<Rightarrow> received_of q ''FILE_UNLINK'' = Inr 1"
  by code_simp

text \<open>One deletion with a known directory, in the second 2 of the epoch.\<close>

definition sample_unlink :: bytes where
  "sample_unlink = to_le 8 2000000005 @ replicate 52 0 @ to_le 4 376 @ to_le 4 4 @ to_le 2 1 @ to_le 2 7
     @ replicate 16 0 @ to_le 8 5 @ to_le 8 9 @ to_le 4 8 @ replicate 8 0 @ to_le 4 2 @ replicate 256 0"

definition calm_world :: world where
  "calm_world = \<lparr>w_files = \<lambda>_. Some \<lparr>fi_regular = True, fi_stat = (1, 2, 3, 4, 5)\<rparr>,
     w_proc = Some [Gone, FdOf (1, 2) (Info (log_line [''flags: 0100000'']))]\<rparr>"

definition sample_audit_input :: audit_input where
  "sample_audit_input = \<lparr>ai_capture = ucode ''s.bin.zst'', ai_npz = ucode ''s.npz'', ai_expected = 0,
     ai_before = calm_world, ai_after = calm_world, ai_opened = (1, 2, 3, 4, 5), ai_closed = (1, 2, 3, 4, 5),
     ai_data = Inr \<lparr>z_buckets = [2000000000], z_labels = [ucode ''attack''], z_techniques = [ucode ''x''],
       z_sessions = [ucode ''s'']\<rparr>,
     ai_chunks = [frame_bytes sample_unlink], ai_status = 0\<rparr>"

definition sample_prefix :: "bytes prefix_input" where
  "sample_prefix = \<lparr>pi_paths = [ucode ''s.bin.zst'', ucode ''s.npz''], pi_before = calm_world, pi_after = calm_world,
     pi_proof = Inr [7], pi_bytes = [7], pi_network = Inr no_network, pi_log = sample_collector_log,
     pi_audit = sample_audit_input\<rparr>"

lemma sample_audit_passes:
  "case audit_unlinks (sample_audit_input\<lparr>ai_expected := 1\<rparr>) of
     Inl e \<Rightarrow> False | Inr r \<Rightarrow> au_outside r = 0 \<and> au_recorded r = 1
       \<and> list_all (\<lambda>q. u_time q \<le> 2 ^ 63 - 1 - 60 * SECOND) (au_rows r)"
  by code_simp

lemma sample_sources:
  "\<exists>d. snapshot calm_world (pi_paths sample_prefix) = Inr d \<and> check_closed calm_world d = Inr ()"
proof -
  have "case snapshot calm_world (pi_paths sample_prefix) of Inl e \<Rightarrow> False | Inr d \<Rightarrow> check_closed calm_world d = Inr ()"
    by code_simp
  then show ?thesis by (cases "snapshot calm_world (pi_paths sample_prefix)") auto
qed

lemma sample_prefix_audited:
  obtains res where "audit_prefix plain_numpy (\<lambda>b. b) sample_prefix = Inr res"
    "received_of (pr_quality res) ''FILE_UNLINK'' = Inr 1"
proof -
  obtain q where q: "check_collection sample_collector_log no_network = Inr q" "received_of q ''FILE_UNLINK'' = Inr 1"
    using sample_log_checked by (auto split: sum.splits)
  obtain r where r: "audit_unlinks (sample_audit_input\<lparr>ai_expected := 1\<rparr>) = Inr r" "au_outside r = 0" "au_recorded r = 1"
    "\<forall>x \<in> set (au_rows r). u_time x \<le> 2 ^ 63 - 1 - 60 * SECOND"
    using sample_audit_passes by (auto simp: list_all_iff split: sum.splits)
  from r have "audit_complete (unlink_audit.truncate r)" using unlink_audit_complete [OF r(1)] by simp
  then obtain rows where t: "temporal_features plain_numpy (unlink_audit.truncate r) = Inr rows"
    using windows_spec [OF plain_numpy_ok] by blast
  obtain d where d: "snapshot calm_world (pi_paths sample_prefix) = Inr d" "check_closed calm_world d = Inr ()"
    using sample_sources by blast
  let ?res = "\<lparr>pr_report = r, pr_digest = [7], pr_quality = q\<rparr> :: bytes prefix_result"
  have res: "audit_prefix plain_numpy (\<lambda>b. b) sample_prefix = Inr ?res"
    using d by (simp add: audit_prefix_def sample_prefix_def q r(1) t require_def)
  then show ?thesis using that q(2) by simp
qed

theorem audited_windows_witness:
  "\<exists>res ps. audit_prefix plain_numpy (\<lambda>b. b) sample_prefix = Inr res \<and> n_of is_unlink ps = 1
    \<and> concat (map frame_bytes ps) = frame_bytes sample_unlink
    \<and> temporal_features plain_numpy (unlink_audit.truncate (pr_report res)) = Inr [event_row ps 2000000000]"
proof -
  obtain res where res: "audit_prefix plain_numpy (\<lambda>b. b) sample_prefix = Inr res"
    and q: "received_of (pr_quality res) ''FILE_UNLINK'' = Inr 1" by (rule sample_prefix_audited)
  from audited_windows [OF plain_numpy_ok res] obtain z ps where z: "ai_data sample_audit_input = Inr z"
    "concat (ai_chunks sample_audit_input) = concat (map frame_bytes ps)"
    "received_of (pr_quality res) ''FILE_UNLINK'' = Inr (n_of is_unlink ps)"
    "temporal_features plain_numpy (unlink_audit.truncate (pr_report res)) = Inr (map (event_row ps) (z_buckets z))"
    by (auto simp: sample_prefix_def)
  have "z_buckets z = [2000000000]" using z(1) by (auto simp: sample_audit_input_def)
  moreover have "n_of is_unlink ps = 1" using z(3) q by simp
  moreover have "concat (map frame_bytes ps) = frame_bytes sample_unlink" using z(2) by (simp add: sample_audit_input_def)
  ultimately show ?thesis using res z(4) by (intro exI [of _ res] exI [of _ ps]) simp
qed

end
