(* ===== verification/Evaluate_Fixture.thy ===== *)
theory Evaluate_Fixture
  imports Evaluate_Temporal_Claims Audit_Fixture
begin

section \<open>Samples of the comparison with windows\<close>

subsection \<open>The join of the sample audit\<close>

theorem join_of_audit_witness:
  "\<exists>res ps. audit_prefix plain_numpy (\<lambda>b. b) sample_prefix = Inr res
    \<and> join_audit plain_numpy (pr_report res) (ucode ''s'') [2000000000] [ucode ''attack''] [ucode ''x''] = Inr [event_row ps 2000000000]"
proof -
  obtain res where res: "audit_prefix plain_numpy (\<lambda>b. b) sample_prefix = Inr res" by (rule sample_prefix_audited)
  let ?z = "\<lparr>z_buckets = [2000000000], z_labels = [ucode ''attack''], z_techniques = [ucode ''x''], z_sessions = [ucode ''s'']\<rparr>"
  have z: "ai_data (pi_audit sample_prefix) = Inr ?z" by (simp add: sample_prefix_def sample_audit_input_def)
  from join_of_audit [OF plain_numpy_ok res z, of "[0]"] show ?thesis using res by auto
qed

subsection \<open>Six sessions with their seconds\<close>











end
