(* ===== verification/Spec2Isabelle.thy ===== *)
theory Spec2Isabelle
  imports Replay_Claims Handoff_Fixture Extract_Properties Detect_Claims Dataset_Claims
    Decode_Types Temporal_Claims Archive_Claims Finalize_Claims Evaluate_Fixture
begin

text \<open>
  A verification development of the Python tools of the eBPF security agent.
\<close>

end
